(* ===== verification/Bridge_Prelude.thy ===== *)
theory Bridge_Prelude
  imports Complex_Main "HOL-Library.Char_ord" "HOL-Library.List_Lexorder" "HOL-Library.Sublist"
begin

text \<open>
  What every component shares: the failures the bridge throws and the result type that carries
  them, byte predicates and the searching operations of \<open>std::string\<close>, the number parsers and
  printers of the C++ standard library, and two collections of theorems.

  A C++ \<open>std::string\<close> is a sequence of bytes; HOL's \<open>string\<close> (a list of 8-bit characters) is
  exactly that.  Positions and sizes are \<open>nat\<close>; \<open>npos\<close> is \<open>None\<close>.
\<close>

named_theorems res_simps \<open>facts about results and their sequencing\<close>
named_theorems byte_simps \<open>definitions of the byte predicates\<close>

section \<open>Failures and results\<close>

text \<open>
  \<open>BridgeError\<close> carries the HTTP status and the error code; the human-readable text, which no
  control flow depends on, is not modelled.  \<open>RuntimeError\<close> stands for every other
  \<open>std::exception\<close> (\<open>check_running\<close> throws one).
\<close>

datatype failure =
    BridgeError (http_status: int) (error_code: string)
  | ClientDisconnected
  | RuntimeError

type_synonym 'a res = "failure + 'a"

definition bind_res :: "'e + 'a \<Rightarrow> ('a \<Rightarrow> 'e + 'b) \<Rightarrow> 'e + 'b" where
  "bind_res m f = (case m of Inl e \<Rightarrow> Inl e | Inr x \<Rightarrow> f x)"

definition reject_if :: "bool \<Rightarrow> 'e \<Rightarrow> 'e + unit" where
  "reject_if bad e = (if bad then Inl e else Inr ())"

definition res_of_option :: "'e \<Rightarrow> 'a option \<Rightarrow> 'e + 'a" where
  "res_of_option e x = (case x of None \<Rightarrow> Inl e | Some v \<Rightarrow> Inr v)"

definition is_ok :: "'e + 'a \<Rightarrow> bool" where
  "is_ok m = (case m of Inl _ \<Rightarrow> False | Inr _ \<Rightarrow> True)"

lemma bind_res_simps [simp, res_simps]:
  "bind_res (Inl e) f = Inl e"
  "bind_res (Inr x) f = f x"
  by (simp_all add: bind_res_def)

lemma bind_res_eq_Inr [res_simps]:
  "bind_res m f = Inr y \<longleftrightarrow> (\<exists>x. m = Inr x \<and> f x = Inr y)"
  by (cases m) auto

lemma bind_res_eq_Inl [res_simps]:
  "bind_res m f = Inl e \<longleftrightarrow> m = Inl e \<or> (\<exists>x. m = Inr x \<and> f x = Inl e)"
  by (cases m) auto

lemma reject_if_eq [res_simps]:
  "reject_if b e = Inr u \<longleftrightarrow> \<not> b"
  "reject_if b e = Inl e' \<longleftrightarrow> b \<and> e' = e"
  by (auto simp: reject_if_def)

lemma reject_if_simps [simp]:
  "reject_if True e = Inl e"
  "reject_if False e = Inr ()"
  by (simp_all add: reject_if_def)

lemma res_of_option_eq [res_simps]:
  "res_of_option e m = Inr v \<longleftrightarrow> m = Some v"
  "res_of_option e m = Inl e' \<longleftrightarrow> m = None \<and> e' = e"
  by (auto simp: res_of_option_def split: option.splits)

lemma if_Inl_eq_Inr [res_simps]: "(if b then Inl e else m) = Inr y \<longleftrightarrow> \<not> b \<and> m = Inr y"
  by simp

lemma is_ok_simps [simp]: "is_ok (Inr x)" "\<not> is_ok (Inl e)"
  by (simp_all add: is_ok_def)

lemma is_ok_iff: "is_ok m \<longleftrightarrow> (\<exists>x. m = Inr x)"
  by (cases m) auto

section \<open>Bytes\<close>

abbreviation byte :: "char \<Rightarrow> nat" where
  "byte c \<equiv> of_char c"

definition is_digit :: "char \<Rightarrow> bool" where
  [byte_simps]: "is_digit c \<longleftrightarrow> 48 \<le> byte c \<and> byte c \<le> 57"

definition is_upper :: "char \<Rightarrow> bool" where
  [byte_simps]: "is_upper c \<longleftrightarrow> 65 \<le> byte c \<and> byte c \<le> 90"

definition is_lower :: "char \<Rightarrow> bool" where
  [byte_simps]: "is_lower c \<longleftrightarrow> 97 \<le> byte c \<and> byte c \<le> 122"

definition is_xdigit :: "char \<Rightarrow> bool" where
  [byte_simps]: "is_xdigit c \<longleftrightarrow> is_digit c \<or> (65 \<le> byte c \<and> byte c \<le> 70) \<or> (97 \<le> byte c \<and> byte c \<le> 102)"

definition is_space :: "char \<Rightarrow> bool" where
  [byte_simps]: "is_space c \<longleftrightarrow> byte c = 32 \<or> (9 \<le> byte c \<and> byte c \<le> 13)"

definition to_lower :: "char \<Rightarrow> char" where
  "to_lower c = (if is_upper c then char_of (byte c + 32) else c)"

lemma to_lower_letters:
  "to_lower (CHR ''A'') = CHR ''a''"
  "to_lower (CHR ''B'') = CHR ''b''"
  "to_lower (CHR ''C'') = CHR ''c''"
  "to_lower (CHR ''D'') = CHR ''d''"
  "to_lower (CHR ''E'') = CHR ''e''"
  "to_lower (CHR ''F'') = CHR ''f''"
  "to_lower (CHR ''G'') = CHR ''g''"
  "to_lower (CHR ''H'') = CHR ''h''"
  "to_lower (CHR ''I'') = CHR ''i''"
  "to_lower (CHR ''J'') = CHR ''j''"
  "to_lower (CHR ''K'') = CHR ''k''"
  "to_lower (CHR ''L'') = CHR ''l''"
  "to_lower (CHR ''M'') = CHR ''m''"
  "to_lower (CHR ''N'') = CHR ''n''"
  "to_lower (CHR ''O'') = CHR ''o''"
  "to_lower (CHR ''P'') = CHR ''p''"
  "to_lower (CHR ''Q'') = CHR ''q''"
  "to_lower (CHR ''R'') = CHR ''r''"
  "to_lower (CHR ''S'') = CHR ''s''"
  "to_lower (CHR ''T'') = CHR ''t''"
  "to_lower (CHR ''U'') = CHR ''u''"
  "to_lower (CHR ''V'') = CHR ''v''"
  "to_lower (CHR ''W'') = CHR ''w''"
  "to_lower (CHR ''X'') = CHR ''x''"
  "to_lower (CHR ''Y'') = CHR ''y''"
  "to_lower (CHR ''Z'') = CHR ''z''"
  by code_simp+

lemma to_lower_id: "\<not> is_upper c \<Longrightarrow> to_lower c = c"
  by (simp add: to_lower_def)

lemmas to_lower_eval = to_lower_letters to_lower_id is_upper_def

lemma byte_char_of [simp]: "n < 256 \<Longrightarrow> byte (char_of n) = n"
  by simp

lemma byte_less [simp]: "byte c < 256"
  by simp

lemma byte_inject: "byte c = byte d \<longleftrightarrow> c = d"
  by simp

end
