(* ===== verification/Cpp_String.thy ===== *)
theory Cpp_String
  imports Bridge_Prelude
begin

text \<open>
  The operations of \<open>std::string\<close>, \<open>std::getline\<close>, \<open>std::to_string\<close>, \<open>std::stoi\<close> and
  \<open>std::stoll\<close> that the bridge uses, with the facts the components rest on: where a search stops,
  that printing an integer and parsing it give it back, and which bytes a printed number consists of.
\<close>

section \<open>Searching\<close>

fun find_pred :: "('a \<Rightarrow> bool) \<Rightarrow> 'a list \<Rightarrow> nat option" where
  "find_pred P [] = None"
| "find_pred P (x # xs) = (if P x then Some 0 else map_option Suc (find_pred P xs))"

definition find_char :: "char \<Rightarrow> string \<Rightarrow> nat option" where
  "find_char c = find_pred (\<lambda>x. x = c)"

fun find_sub :: "'a list \<Rightarrow> 'a list \<Rightarrow> nat option" where
  "find_sub pat [] = (if pat = [] then Some 0 else None)"
| "find_sub pat (x # xs) = (if prefix pat (x # xs) then Some 0 else map_option Suc (find_sub pat xs))"

text \<open>\<open>s.find(pat, pos)\<close>: positions count from the start of \<open>s\<close>.\<close>

definition find_from :: "string \<Rightarrow> string \<Rightarrow> nat \<Rightarrow> nat option" where
  "find_from pat s pos = map_option (\<lambda>i. pos + i) (find_sub pat (drop pos s))"

definition find_pred_from :: "(char \<Rightarrow> bool) \<Rightarrow> string \<Rightarrow> nat \<Rightarrow> nat option" where
  "find_pred_from P s pos = map_option (\<lambda>i. pos + i) (find_pred P (drop pos s))"

definition substr :: "'a list \<Rightarrow> nat \<Rightarrow> nat \<Rightarrow> 'a list" where
  "substr s pos n = take n (drop pos s)"

lemma find_pred_None [simp]: "find_pred P s = None \<longleftrightarrow> (\<forall>c\<in>set s. \<not> P c)"
  by (induction s) auto

lemma find_pred_Some:
  "find_pred P s = Some i \<longleftrightarrow> i < length s \<and> P (s ! i) \<and> (\<forall>j<i. \<not> P (s ! j))"
proof (induction s arbitrary: i)
  case (Cons x xs)
  show ?case
    by (cases i) (auto simp: Cons.IH less_Suc_eq_0_disj)
qed simp

lemma find_pred_append:
  "(\<forall>c\<in>set xs. \<not> P c) \<Longrightarrow> P c \<Longrightarrow> find_pred P (xs @ c # ys) = Some (length xs)"
  by (induction xs) auto

lemma find_pred_takeWhile:
  "find_pred P s = Some i \<Longrightarrow> takeWhile (\<lambda>c. \<not> P c) s = take i s"
  by (induction s arbitrary: i) (auto split: if_splits)

lemma find_char_None: "find_char c s = None \<longleftrightarrow> c \<notin> set s"
  by (auto simp: find_char_def)

lemma find_char_append: "c \<notin> set xs \<Longrightarrow> find_char c (xs @ c # ys) = Some (length xs)"
  by (auto simp: find_char_def intro: find_pred_append)

lemma find_char_length: "find_char c s = Some i \<Longrightarrow> i < length s"
  by (simp add: find_char_def find_pred_Some)

lemma find_sub_Some:
  "find_sub pat s = Some i \<longleftrightarrow>
     i \<le> length s \<and> prefix pat (drop i s) \<and> (\<forall>j<i. \<not> prefix pat (drop j s))"
proof (induction s arbitrary: i)
  case (Cons x xs)
  show ?case
    by (cases i) (auto simp: Cons.IH less_Suc_eq_0_disj)
qed auto

text \<open>Moving a position by a prefix that does not contain the pattern.\<close>

definition shift :: "nat \<Rightarrow> nat option \<Rightarrow> nat option" where
  "shift n x = map_option (\<lambda>i. n + i) x"

lemma shift_simps [simp]:
  "shift n None = None"
  "shift n (Some i) = Some (n + i)"
  "shift 0 x = x"
  "shift n (shift m x) = shift (n + m) x"
  by (cases x; simp add: shift_def)+

lemma map_option_Suc: "map_option Suc x = shift 1 x"
  by (cases x) (simp_all add: shift_def)

lemma find_from_0: "find_from pat s 0 = find_sub pat s"
  by (simp add: find_from_def option.map_ident)

lemma find_sub_None: "find_sub pat s = None \<longleftrightarrow> (\<forall>i\<le>length s. \<not> prefix pat (drop i s))"
proof (induction s)
  case (Cons x xs)
  have "(\<forall>i\<le>Suc (length xs). \<not> prefix pat (drop i (x # xs))) \<longleftrightarrow>
        \<not> prefix pat (x # xs) \<and> (\<forall>i\<le>length xs. \<not> prefix pat (drop i xs))"
    by (metis drop0 drop_Suc_Cons le0 le_Suc_eq not0_implies_Suc Suc_le_mono)
  then show ?case using Cons.IH by auto
qed auto

lemma find_sub_bound: "find_sub pat s = Some i \<Longrightarrow> i + length pat \<le> length s"
  by (auto simp: find_sub_Some prefix_def)
     (metis append_take_drop_id diff_diff_cancel length_append length_drop le_add1 nat_add_left_cancel_le ordered_cancel_comm_monoid_diff_class.add_diff_inverse trans_le_add1)

lemma find_sub_sublist: "find_sub pat s \<noteq> None \<longleftrightarrow> sublist pat s"
  by (induction s) (auto simp: sublist_Cons_right)

section \<open>Lines and fields\<close>

text \<open>
  \<open>while (std::getline(in, line, d))\<close> yields the pieces between delimiters; a trailing delimiter
  does not yield a last empty piece.
\<close>

fun getlines :: "char \<Rightarrow> string \<Rightarrow> string list" where
  "getlines d [] = []"
| "getlines d (c # cs) =
     (if c = d then [] # getlines d cs
      else case getlines d cs of [] \<Rightarrow> [[c]] | p # ps \<Rightarrow> (c # p) # ps)"

lemma getlines_line: "d \<notin> set l \<Longrightarrow> getlines d (l @ d # rest) = l # getlines d rest"
  by (induction l) auto

lemma getlines_append:
  "(\<forall>l\<in>set ls. d \<notin> set l) \<Longrightarrow>
     getlines d (concat (map (\<lambda>l. l @ [d]) ls) @ rest) = ls @ getlines d rest"
  by (induction ls) (simp_all add: getlines_line)

lemma getlines_concat:
  "(\<forall>l\<in>set ls. d \<notin> set l) \<Longrightarrow> getlines d (concat (map (\<lambda>l. l @ [d]) ls)) = ls"
  using getlines_append[of ls d "[]"] by simp

lemma getlines_no_delim: "l \<in> set (getlines d s) \<Longrightarrow> d \<notin> set l"
  by (induction d s arbitrary: l rule: getlines.induct) (auto split: if_splits list.splits)

section \<open>Printing numbers\<close>

definition digit :: "nat \<Rightarrow> char" where
  "digit n = char_of (48 + n)"

fun show_nat :: "nat \<Rightarrow> string" where
  "show_nat n = (if n < 10 then [digit n] else show_nat (n div 10) @ [digit (n mod 10)])"

declare show_nat.simps [simp del]

definition show_int :: "int \<Rightarrow> string" where
  "show_int i = (if i < 0 then CHR ''-'' # show_nat (nat (- i)) else show_nat (nat i))"

lemma byte_digit [simp]: "n < 10 \<Longrightarrow> byte (digit n) = 48 + n"
  by (simp add: digit_def)

lemma is_digit_digit [simp]: "n < 10 \<Longrightarrow> is_digit (digit n)"
  by (simp add: byte_simps)

lemma show_nat_digits: "c \<in> set (show_nat n) \<Longrightarrow> is_digit c"
proof (induction n rule: show_nat.induct)
  case (1 n)
  then show ?case
    by (subst (asm) (2) show_nat.simps) (auto split: if_splits)
qed

lemma show_nat_not_Nil [simp]: "show_nat n \<noteq> []"
  by (subst show_nat.simps) simp

lemma show_int_not_Nil [simp]: "show_int i \<noteq> []"
  by (simp add: show_int_def)

lemma show_int_chars: "c \<in> set (show_int i) \<Longrightarrow> is_digit c \<or> c = CHR ''-''"
  by (auto simp: show_int_def dest: show_nat_digits split: if_splits)

section \<open>Parsing numbers\<close>

definition dec_value :: "string \<Rightarrow> int" where
  "dec_value ds = foldl (\<lambda>a c. 10 * a + (int (byte c) - 48)) 0 ds"

text \<open>
  \<open>strtoll(s, &end, 10)\<close> without its range: skip white space, an optional sign, then as many
  digits as there are; the result is the value and how many characters were used.  No digit at
  all is \<open>std::invalid_argument\<close>.
\<close>

definition scan_int :: "string \<Rightarrow> (int \<times> nat) option" where
  "scan_int s =
     (let r = dropWhile is_space s;
          neg = (r \<noteq> [] \<and> hd r = CHR ''-'');
          signed = (r \<noteq> [] \<and> (hd r = CHR ''-'' \<or> hd r = CHR ''+''));
          r1 = (if signed then tl r else r);
          ds = takeWhile is_digit r1
      in if ds = [] then None
         else Some (if neg then - dec_value ds else dec_value ds, length s - length r1 + length ds))"

definition in_int64 :: "int \<Rightarrow> bool" where
  "in_int64 v \<longleftrightarrow> - (2 ^ 63) \<le> v \<and> v < 2 ^ 63"

definition in_int32 :: "int \<Rightarrow> bool" where
  "in_int32 v \<longleftrightarrow> - (2 ^ 31) \<le> v \<and> v < 2 ^ 31"

text \<open>\<open>std::stoll\<close> and \<open>std::stoi\<close>: \<open>None\<close> is \<open>invalid_argument\<close> or \<open>out_of_range\<close>.\<close>

definition stoll :: "string \<Rightarrow> (int \<times> nat) option" where
  "stoll s = (case scan_int s of None \<Rightarrow> None | Some (v, used) \<Rightarrow> if in_int64 v then Some (v, used) else None)"

definition stoi :: "string \<Rightarrow> int option" where
  "stoi s = (case scan_int s of None \<Rightarrow> None | Some (v, used) \<Rightarrow> if in_int32 v then Some v else None)"

lemma dec_value_snoc: "dec_value (ds @ [c]) = 10 * dec_value ds + (int (byte c) - 48)"
  by (simp add: dec_value_def)

lemma dec_value_show_nat [simp]: "dec_value (show_nat n) = int n"
proof (induction n rule: show_nat.induct)
  case (1 n)
  show ?case
  proof (cases "n < 10")
    case True
    then show ?thesis by (subst show_nat.simps) (simp add: dec_value_def)
  next
    case False
    then have "dec_value (show_nat n) = 10 * int (n div 10) + int (n mod 10)"
      using 1 by (subst show_nat.simps) (simp add: dec_value_snoc)
    also have "\<dots> = int n" by presburger
    finally show ?thesis .
  qed
qed

lemma digit_not_space: "is_digit c \<Longrightarrow> \<not> is_space c"
  by (auto simp: byte_simps)

lemma sign_bytes [simp]:
  "\<not> is_space (CHR ''-'')" "\<not> is_digit (CHR ''-'')" "\<not> is_digit (CHR ''+'')"
  by (auto simp: byte_simps)

text \<open>Digits followed by something that is not a digit.\<close>

lemma scan_nat_prefix:
  assumes "rest = [] \<or> \<not> is_digit (hd rest)"
  shows "scan_int (show_nat n @ rest) = Some (int n, length (show_nat n))"
proof -
  obtain d ds where sn: "show_nat n = d # ds"
    using show_nat_not_Nil by (cases "show_nat n") blast+
  have d: "is_digit d" using sn show_nat_digits[of d n] by simp
  have "dropWhile is_space (show_nat n @ rest) = show_nat n @ rest"
    using sn d digit_not_space by simp
  moreover have "takeWhile is_digit (show_nat n @ rest) = show_nat n"
    using assms by (subst takeWhile_append2) (auto dest: show_nat_digits simp: takeWhile_eq_Nil_iff)
  moreover have "d \<noteq> CHR ''-''" "d \<noteq> CHR ''+''" using d by auto
  ultimately show ?thesis by (simp add: scan_int_def Let_def sn[symmetric]) (simp add: sn)
qed

lemma scan_int_prefix:
  assumes "rest = [] \<or> \<not> is_digit (hd rest)"
  shows "scan_int (show_int i @ rest) = Some (i, length (show_int i))"
proof (cases "i < 0")
  case False
  then show ?thesis using scan_nat_prefix[OF assms, of "nat i"] by (simp add: show_int_def)
next
  case True
  have "takeWhile is_digit (show_nat (nat (- i)) @ rest) = show_nat (nat (- i))"
    using assms by (subst takeWhile_append2) (auto dest: show_nat_digits simp: takeWhile_eq_Nil_iff)
  then show ?thesis using True by (simp add: scan_int_def show_int_def Let_def)
qed

lemma scan_int_show [simp]: "scan_int (show_int i) = Some (i, length (show_int i))"
  using scan_int_prefix[of "[]" i] by simp

lemma stoll_show_int: "in_int64 i \<Longrightarrow> stoll (show_int i) = Some (i, length (show_int i))"
  by (simp add: stoll_def)

lemma stoi_show_int: "in_int32 i \<Longrightarrow> stoi (show_int i) = Some i"
  by (simp add: stoi_def)

lemma show_int_inject [simp]: "show_int i = show_int j \<longleftrightarrow> i = j"
  by (metis scan_int_show option.inject prod.inject)

end
