(* ===== verification/Config.thy ===== *)
theory Config
  imports Cpp_String
begin

text \<open>
  The configuration: the hand-written JSON reader of \<open>main.cpp\<close> (\<open>trim\<close>, \<open>json_section\<close>,
  \<open>json_value\<close>, \<open>json_int\<close>, \<open>json_bool\<close>, \<open>json_string\<close>), the \<open>Config\<close> structure with its
  defaults and \<open>load_config\<close> with its validation.  The file contents, the path operations and the
  environment variables, which come from outside the process, are the record \<open>host\<close>.
\<close>

section \<open>Reading JSON\<close>

definition ws_char :: "char \<Rightarrow> bool" where
  "ws_char c \<longleftrightarrow> byte c \<in> {32, 9, 13, 10}"

definition trim :: "string \<Rightarrow> string" where
  "trim s = rev (dropWhile ws_char (rev (dropWhile ws_char s)))"

definition quoted_name :: "string \<Rightarrow> string" where
  "quoted_name name = CHR 0x22 # name @ [CHR 0x22]"

text \<open>
  The scanning loop of \<open>json_section\<close> from the opening brace on: the offset of the brace that
  closes the section.  A quote toggles \<open>quoted\<close> unless the character before it is a backslash.
\<close>

fun json_close :: "char option \<Rightarrow> int \<Rightarrow> bool \<Rightarrow> string \<Rightarrow> nat option" where
  "json_close prev depth quoted [] = None"
| "json_close prev depth quoted (c # cs) =
     (let quoted' = (if c = CHR 0x22 \<and> prev \<noteq> Some (CHR 0x5C) then \<not> quoted else quoted)
      in if quoted' then map_option Suc (json_close (Some c) depth quoted' cs)
         else if c = CHR ''{'' then map_option Suc (json_close (Some c) (depth + 1) quoted' cs)
         else if c = CHR ''}'' then
           (if depth - 1 = 0 then Some 0
            else map_option Suc (json_close (Some c) (depth - 1) quoted' cs))
         else map_option Suc (json_close (Some c) depth quoted' cs))"

definition json_section :: "string \<Rightarrow> string \<Rightarrow> string" where
  "json_section json name =
     (let key = quoted_name name
      in case find_from key json 0 of
           None \<Rightarrow> []
         | Some key_at \<Rightarrow>
             (case find_pred_from (\<lambda>c. c = CHR ''{'') json (key_at + length key) of
                None \<Rightarrow> []
              | Some opn \<Rightarrow>
                  (case json_close None 0 False (drop opn json) of
                     None \<Rightarrow> []
                   | Some n \<Rightarrow> substr json (opn + 1) (n - 1))))"

definition value_end :: "char \<Rightarrow> bool" where
  "value_end c \<longleftrightarrow> c = CHR '','' \<or> c = CHR ''}'' \<or> byte c = 13 \<or> byte c = 10"

definition json_value :: "string \<Rightarrow> string \<Rightarrow> string option" where
  "json_value section name =
     (let key = quoted_name name
      in case find_from key section 0 of
           None \<Rightarrow> None
         | Some key_at \<Rightarrow>
             (case find_pred_from (\<lambda>c. c = CHR '':'') section (key_at + length key) of
                None \<Rightarrow> None
              | Some colon \<Rightarrow>
                  (case dropWhile is_space (drop (colon + 1) section) of
                     [] \<Rightarrow> None
                   | c # rest \<Rightarrow>
                       if c = CHR 0x22 then map_option (\<lambda>e. take e rest) (find_char (CHR 0x22) rest)
                       else Some (trim (takeWhile (\<lambda>c. \<not> value_end c) (c # rest))))))"

definition json_int :: "string \<Rightarrow> string \<Rightarrow> int \<Rightarrow> int res" where
  "json_int section name fallback =
     (case json_value section name of
        None \<Rightarrow> Inr fallback
      | Some v \<Rightarrow> res_of_option (BridgeError 500 ''INVALID_CONFIG'') (stoi v))"

definition json_bool :: "string \<Rightarrow> string \<Rightarrow> bool \<Rightarrow> bool res" where
  "json_bool section name fallback =
     (case json_value section name of
        None \<Rightarrow> Inr fallback
      | Some v \<Rightarrow>
          if v = ''true'' then Inr True
          else if v = ''false'' then Inr False
          else Inl (BridgeError 500 ''INVALID_CONFIG''))"

definition json_string :: "string \<Rightarrow> string \<Rightarrow> string \<Rightarrow> string" where
  "json_string section name fallback =
     (case json_value section name of Some v \<Rightarrow> v | None \<Rightarrow> fallback)"

section \<open>The configuration structure\<close>

record config =
  bind_address :: string
  listen_port :: int
  max_sessions :: int
  max_http_connections :: int
  sdk_directory :: string
  read_video_codec_from_device :: bool
  force_keyframe_on_realplay :: bool
  realplay_keyframe_interval_frames :: int
  connect_probe_timeout_ms :: int
  ffmpeg_path :: string
  ffmpeg_log_level :: string
  hardware_acceleration :: string
  hardware_probe_timeout_ms :: int
  log_directory :: string
  log_retention_days :: int
  queue_bytes :: nat
  queue_backpressure_ms :: int
  max_playback_seconds :: int
  sdk_start_ms :: int
  first_media_ms :: int
  no_sdk_data_ms :: int
  output_stall_ms :: int
  client_write_stall_ms :: int
  playback_keep_alive_ms :: int
  output_video_codec :: string
  video_encoder :: string
  video_preset :: string
  enable_audio :: bool
  codec_cache_seconds :: int
  codec_cache_file :: string

definition default_config :: config where
  "default_config = \<lparr>
     bind_address = ''127.0.0.1'', listen_port = 28080, max_sessions = 16,
     max_http_connections = 64, sdk_directory = ''../sdk'',
     read_video_codec_from_device = True, force_keyframe_on_realplay = True,
     realplay_keyframe_interval_frames = 25, connect_probe_timeout_ms = 1500,
     ffmpeg_path = ''/usr/bin/ffmpeg'', ffmpeg_log_level = ''info'',
     hardware_acceleration = ''auto'', hardware_probe_timeout_ms = 3000,
     log_directory = ''../logs'', log_retention_days = 30,
     queue_bytes = 64 * 1024 * 1024, queue_backpressure_ms = 500,
     max_playback_seconds = 86400, sdk_start_ms = 10000, first_media_ms = 15000,
     no_sdk_data_ms = 10000, output_stall_ms = 60000, client_write_stall_ms = 60000,
     playback_keep_alive_ms = 1500, output_video_codec = ''h264'',
     video_encoder = ''libx264'', video_preset = ''veryfast'', enable_audio = False,
     codec_cache_seconds = 900, codec_cache_file = ''../state/video-codec-cache.tsv'' \<rparr>"


section \<open>load\_config\<close>

text \<open>What \<open>load_config\<close> takes from its host: files, paths and environment variables.\<close>

record host =
  file_content :: "string \<Rightarrow> string option"
  is_relative :: "string \<Rightarrow> bool"
  absolute_in :: "string \<Rightarrow> string \<Rightarrow> string"  \<comment> \<open>\<open>fs::absolute(config_path.parent_path() / p)\<close>\<close>
  getenv :: "string \<Rightarrow> string option"

definition read_file :: "host \<Rightarrow> string \<Rightarrow> string res" where
  "read_file h path = res_of_option (BridgeError 500 ''CONFIG_NOT_FOUND'') (file_content h path)"

definition read_server :: "string \<Rightarrow> config \<Rightarrow> config res" where
  "read_server server c =
     bind_res (json_int server ''port'' (listen_port c)) (\<lambda>port.
     bind_res (json_int server ''maxSessions'' (max_sessions c)) (\<lambda>sessions.
     bind_res (json_int server ''maxHttpConnections'' (max_http_connections c)) (\<lambda>conns.
     Inr (c\<lparr>bind_address := json_string server ''bind'' (bind_address c), listen_port := port,
            max_sessions := sessions, max_http_connections := conns\<rparr>))))"

definition read_sdk :: "string \<Rightarrow> config \<Rightarrow> config res" where
  "read_sdk sdk c =
     bind_res (json_bool sdk ''readVideoCodecFromDevice'' (read_video_codec_from_device c)) (\<lambda>codec.
     bind_res (json_bool sdk ''forceKeyFrameOnRealPlay'' (force_keyframe_on_realplay c)) (\<lambda>force.
     bind_res (json_int sdk ''realPlayKeyFrameIntervalFrames'' (realplay_keyframe_interval_frames c)) (\<lambda>interval.
     bind_res (json_int sdk ''connectProbeTimeoutMs'' (connect_probe_timeout_ms c)) (\<lambda>probe.
     Inr (c\<lparr>sdk_directory := json_string sdk ''directory'' (sdk_directory c),
            read_video_codec_from_device := codec, force_keyframe_on_realplay := force,
            realplay_keyframe_interval_frames := interval, connect_probe_timeout_ms := probe\<rparr>)))))"

definition read_ffmpeg :: "string \<Rightarrow> config \<Rightarrow> config res" where
  "read_ffmpeg ffmpeg c =
     bind_res (json_int ffmpeg ''hardwareProbeTimeoutMs'' (hardware_probe_timeout_ms c)) (\<lambda>probe.
     Inr (c\<lparr>ffmpeg_path := json_string ffmpeg ''path'' (ffmpeg_path c),
            ffmpeg_log_level := json_string ffmpeg ''logLevel'' (ffmpeg_log_level c),
            hardware_acceleration :=
              map to_lower (json_string ffmpeg ''hardwareAcceleration'' (hardware_acceleration c)),
            hardware_probe_timeout_ms := probe\<rparr>))"

definition read_logging :: "string \<Rightarrow> config \<Rightarrow> config res" where
  "read_logging logging c =
     bind_res (json_int logging ''retentionDays'' (log_retention_days c)) (\<lambda>days.
     Inr (c\<lparr>log_directory := json_string logging ''directory'' (log_directory c),
            log_retention_days := days\<rparr>))"

definition read_media :: "string \<Rightarrow> config \<Rightarrow> config res" where
  "read_media media c =
     bind_res (json_int media ''queueBytes'' (int (queue_bytes c))) (\<lambda>bytes.
     bind_res (reject_if (bytes < 0) (BridgeError 500 ''INVALID_CONFIG'')) (\<lambda>_.
     bind_res (json_int media ''queueBackpressureMs'' (queue_backpressure_ms c)) (\<lambda>backpressure.
     bind_res (json_int media ''maxPlaybackSeconds'' (max_playback_seconds c)) (\<lambda>playback.
     bind_res (json_bool media ''enableAudio'' (enable_audio c)) (\<lambda>audio.
     bind_res (json_int media ''codecCacheSeconds'' (codec_cache_seconds c)) (\<lambda>cache.
     Inr (c\<lparr>queue_bytes := nat bytes, queue_backpressure_ms := backpressure,
            max_playback_seconds := playback,
            output_video_codec := json_string media ''outputVideoCodec'' (output_video_codec c),
            video_encoder := json_string media ''videoEncoder'' (video_encoder c),
            video_preset := json_string media ''videoPreset'' (video_preset c),
            enable_audio := audio, codec_cache_seconds := cache,
            codec_cache_file := json_string media ''codecCacheFile'' (codec_cache_file c)\<rparr>)))))))"

definition read_timeouts :: "string \<Rightarrow> config \<Rightarrow> config res" where
  "read_timeouts timeouts c =
     bind_res (json_int timeouts ''sdkStartMs'' (sdk_start_ms c)) (\<lambda>sdk_start.
     bind_res (json_int timeouts ''firstMediaMs'' (first_media_ms c)) (\<lambda>first_media.
     bind_res (json_int timeouts ''noSdkDataMs'' (no_sdk_data_ms c)) (\<lambda>no_data.
     bind_res (json_int timeouts ''outputStallMs'' (output_stall_ms c)) (\<lambda>output.
     bind_res (json_int timeouts ''clientWriteStallMs'' (client_write_stall_ms c)) (\<lambda>client.
     bind_res (json_int timeouts ''playbackKeepAliveMs'' (playback_keep_alive_ms c)) (\<lambda>keep_alive.
     Inr (c\<lparr>sdk_start_ms := sdk_start, first_media_ms := first_media, no_sdk_data_ms := no_data,
            output_stall_ms := output, client_write_stall_ms := client,
            playback_keep_alive_ms := keep_alive\<rparr>)))))))"

text \<open>Relative paths are taken from the directory of the configuration file; the environment
  overrides are not.\<close>

definition resolve_path :: "host \<Rightarrow> string \<Rightarrow> string \<Rightarrow> string" where
  "resolve_path h config_path p = (if is_relative h p then absolute_in h config_path p else p)"

definition env_override :: "host \<Rightarrow> string \<Rightarrow> string \<Rightarrow> string" where
  "env_override h name p = (case getenv h name of Some v \<Rightarrow> v | None \<Rightarrow> p)"

definition resolve_paths :: "host \<Rightarrow> string \<Rightarrow> config \<Rightarrow> config" where
  "resolve_paths h path c =
     c\<lparr>sdk_directory := env_override h ''HIK_BRIDGE_SDK_DIR'' (resolve_path h path (sdk_directory c)),
       codec_cache_file := resolve_path h path (codec_cache_file c),
       ffmpeg_path := env_override h ''HIK_BRIDGE_FFMPEG_PATH'' (resolve_path h path (ffmpeg_path c)),
       log_directory := env_override h ''HIK_BRIDGE_LOG_DIR'' (resolve_path h path (log_directory c))\<rparr>"

definition hardware_names :: "string list" where
  "hardware_names = [''auto'', ''off'', ''none'', ''disabled'', ''software'', ''nvidia'', ''nvenc'',
     ''cuda'', ''qsv'', ''intel'', ''amf'', ''amd'']"

definition config_rejected :: "string \<Rightarrow> config \<Rightarrow> bool" where
  "config_rejected sdk_type c \<longleftrightarrow>
     sdk_type \<noteq> ''hcnetsdk'' \<or> bind_address c \<noteq> ''127.0.0.1'' \<or> listen_port c < 1 \<or> listen_port c > 65535 \<or>
     max_sessions c < 1 \<or> max_http_connections c < 1 \<or> max_http_connections c > 4096 \<or>
     queue_bytes c < 65536 \<or> queue_backpressure_ms c < 0 \<or> queue_backpressure_ms c > 5000 \<or>
     codec_cache_seconds c < 0 \<or> codec_cache_seconds c > 86400 \<or>
     realplay_keyframe_interval_frames c < 0 \<or> realplay_keyframe_interval_frames c > 65535 \<or>
     connect_probe_timeout_ms c < 100 \<or> connect_probe_timeout_ms c > 10000 \<or>
     codec_cache_file c = [] \<or> log_retention_days c < 1 \<or>
     max_playback_seconds c < 1 \<or> sdk_start_ms c < 1 \<or> first_media_ms c < 1 \<or> no_sdk_data_ms c < 1 \<or>
     output_stall_ms c < 1000 \<or> output_stall_ms c > 600000 \<or>
     client_write_stall_ms c < 1000 \<or> client_write_stall_ms c > 600000 \<or>
     playback_keep_alive_ms c < 1000 \<or> playback_keep_alive_ms c > 5000 \<or>
     log_directory c = [] \<or> output_video_codec c \<noteq> ''h264'' \<or> video_encoder c = [] \<or> video_preset c = [] \<or>
     hardware_probe_timeout_ms c < 1000 \<or> hardware_probe_timeout_ms c > 30000 \<or>
     hardware_acceleration c \<notin> set hardware_names"

definition load_config :: "host \<Rightarrow> string \<Rightarrow> config res" where
  "load_config h path =
     bind_res (read_file h path) (\<lambda>json.
     let sdk_type = json_string json ''sdktype'' ''hcnetsdk'' in
     bind_res (read_server (json_section json ''server'') default_config) (\<lambda>c.
     bind_res (read_sdk (json_section json ''sdk'') c) (\<lambda>c.
     bind_res (read_ffmpeg (json_section json ''ffmpeg'') c) (\<lambda>c.
     bind_res (read_logging (json_section json ''logging'') c) (\<lambda>c.
     bind_res (read_media (json_section json ''media'') c) (\<lambda>c.
     bind_res (read_timeouts (json_section json ''timeouts'') c) (\<lambda>c.
     let c = resolve_paths h path c in
     bind_res (reject_if (config_rejected sdk_type c) (BridgeError 500 ''INVALID_CONFIG'')) (\<lambda>_.
     Inr c))))))))"


section \<open>Every accepted configuration is well-formed\<close>

text \<open>What the rest of the server relies on: each value is in its documented range, and every
  \<open>int\<close> is a 32-bit value, so that the arithmetic on them can be bounded.\<close>

definition config_wf :: "config \<Rightarrow> bool" where
  "config_wf c \<longleftrightarrow>
     bind_address c = ''127.0.0.1'' \<and> listen_port c \<in> {1..65535} \<and>
     max_sessions c \<in> {1..2 ^ 31 - 1} \<and> max_http_connections c \<in> {1..4096} \<and>
     int (queue_bytes c) \<in> {65536..2 ^ 31 - 1} \<and> queue_backpressure_ms c \<in> {0..5000} \<and>
     codec_cache_seconds c \<in> {0..86400} \<and> realplay_keyframe_interval_frames c \<in> {0..65535} \<and>
     connect_probe_timeout_ms c \<in> {100..10000} \<and> log_retention_days c \<in> {1..2 ^ 31 - 1} \<and>
     max_playback_seconds c \<in> {1..2 ^ 31 - 1} \<and> sdk_start_ms c \<in> {1..2 ^ 31 - 1} \<and>
     first_media_ms c \<in> {1..2 ^ 31 - 1} \<and> no_sdk_data_ms c \<in> {1..2 ^ 31 - 1} \<and>
     output_stall_ms c \<in> {1000..600000} \<and> client_write_stall_ms c \<in> {1000..600000} \<and>
     playback_keep_alive_ms c \<in> {1000..5000} \<and> hardware_probe_timeout_ms c \<in> {1000..30000} \<and>
     hardware_acceleration c \<in> set hardware_names \<and> output_video_codec c = ''h264'' \<and>
     video_encoder c \<noteq> [] \<and> video_preset c \<noteq> [] \<and> log_directory c \<noteq> [] \<and> codec_cache_file c \<noteq> []"

definition config_ints :: "config \<Rightarrow> int list" where
  "config_ints c = [max_sessions c, int (queue_bytes c), log_retention_days c, max_playback_seconds c,
     sdk_start_ms c, first_media_ms c, no_sdk_data_ms c]"

definition ints_fit :: "config \<Rightarrow> bool" where
  "ints_fit c \<longleftrightarrow> (\<forall>v\<in>set (config_ints c). v < 2 ^ 31)"

lemma stoi_in_int32: "stoi s = Some v \<Longrightarrow> in_int32 v"
  by (auto simp: stoi_def split: option.splits if_splits)

lemma json_int_fits: "json_int s n d = Inr v \<Longrightarrow> d < 2 ^ 31 \<Longrightarrow> v < 2 ^ 31"
  by (auto simp: json_int_def res_simps in_int32_def dest!: stoi_in_int32 split: option.splits)

lemmas ints_fit_simps = ints_fit_def config_ints_def

lemma ints_fit_default: "ints_fit default_config"
  by (simp add: ints_fit_simps default_config_def)

lemma read_server_fits: "read_server s c = Inr d \<Longrightarrow> ints_fit c \<Longrightarrow> ints_fit d"
  by (auto simp: read_server_def res_simps ints_fit_simps dest: json_int_fits)

lemma read_sdk_fits: "read_sdk s c = Inr d \<Longrightarrow> ints_fit c \<Longrightarrow> ints_fit d"
  by (auto simp: read_sdk_def res_simps ints_fit_simps)

lemma read_ffmpeg_fits: "read_ffmpeg s c = Inr d \<Longrightarrow> ints_fit c \<Longrightarrow> ints_fit d"
  by (auto simp: read_ffmpeg_def res_simps ints_fit_simps)

lemma read_logging_fits: "read_logging s c = Inr d \<Longrightarrow> ints_fit c \<Longrightarrow> ints_fit d"
  by (auto simp: read_logging_def res_simps ints_fit_simps dest: json_int_fits)

lemma read_media_fits: "read_media s c = Inr d \<Longrightarrow> ints_fit c \<Longrightarrow> ints_fit d"
  by (auto simp: read_media_def res_simps ints_fit_simps dest!: json_int_fits)

lemma read_timeouts_fits: "read_timeouts s c = Inr d \<Longrightarrow> ints_fit c \<Longrightarrow> ints_fit d"
  by (auto simp: read_timeouts_def res_simps ints_fit_simps dest: json_int_fits)

lemma resolve_paths_fits: "ints_fit (resolve_paths h p c) = ints_fit c"
  by (simp add: resolve_paths_def ints_fit_simps)

lemmas stage_fits = read_server_fits read_sdk_fits read_ffmpeg_fits read_logging_fits
  read_media_fits read_timeouts_fits

lemma accepted_config_wf: "\<not> config_rejected t c \<Longrightarrow> ints_fit c \<Longrightarrow> config_wf c"
  by (simp add: config_rejected_def config_wf_def ints_fit_simps not_less)

lemma load_config_fits:
  assumes "load_config h p = Inr c"
  shows "ints_fit c"
proof -
  obtain j c1 c2 c3 c4 c5 c6 where
    "read_server (json_section j ''server'') default_config = Inr c1"
    "read_sdk (json_section j ''sdk'') c1 = Inr c2"
    "read_ffmpeg (json_section j ''ffmpeg'') c2 = Inr c3"
    "read_logging (json_section j ''logging'') c3 = Inr c4"
    "read_media (json_section j ''media'') c4 = Inr c5"
    "read_timeouts (json_section j ''timeouts'') c5 = Inr c6" and c: "c = resolve_paths h p c6"
    using assms by (auto simp: load_config_def res_simps Let_def)
  then have "ints_fit c6" using ints_fit_default by (meson stage_fits)
  then show ?thesis by (simp add: c resolve_paths_fits)
qed

lemma load_config_not_rejected:
  assumes "load_config h p = Inr c"
  obtains t where "\<not> config_rejected t c"
  using assms by (auto simp: load_config_def res_simps Let_def)


section \<open>The reader finds what a writer put there\<close>

text \<open>
  A JSON object without nesting, as a configuration file has them: quoted names, a colon, and a
  string or a bare token.  Text is \<open>clean_text\<close> when it contains no quote and no backslash.
\<close>

datatype scalar = Str string | Token string

definition clean_text :: "string \<Rightarrow> bool" where
  "clean_text s \<longleftrightarrow> CHR 0x22 \<notin> set s \<and> CHR 0x5C \<notin> set s"

definition token_char :: "char \<Rightarrow> bool" where
  "token_char c \<longleftrightarrow> is_digit c \<or> is_lower c \<or> c = CHR ''-''"

definition name_char :: "char \<Rightarrow> bool" where
  "name_char c \<longleftrightarrow> is_digit c \<or> is_lower c \<or> is_upper c"

fun scalar_text :: "scalar \<Rightarrow> string" where
  "scalar_text (Str s) = s"
| "scalar_text (Token t) = t"

fun render_scalar :: "scalar \<Rightarrow> string" where
  "render_scalar (Str s) = quoted_name s"
| "render_scalar (Token t) = t"

fun scalar_ok :: "scalar \<Rightarrow> bool" where
  "scalar_ok (Str s) = clean_text s"
| "scalar_ok (Token t) = (t \<noteq> [] \<and> (\<forall>c\<in>set t. token_char c))"

fun render_fields :: "(string \<times> scalar) list \<Rightarrow> string" where
  "render_fields [] = []"
| "render_fields [(k, v)] = quoted_name k @ '':'' @ render_scalar v"
| "render_fields ((k, v) # fs) = quoted_name k @ '':'' @ render_scalar v @ '','' @ render_fields fs"

definition fields_ok :: "(string \<times> scalar) list \<Rightarrow> bool" where
  "fields_ok fs \<longleftrightarrow> (\<forall>(k, v)\<in>set fs. clean_text k \<and> scalar_ok v)"

lemma find_sub_skip:
  assumes "CHR 0x22 \<notin> set u"
  shows "find_sub (quoted_name k) (u @ r) = shift (length u) (find_sub (quoted_name k) r)"
  using assms
  by (induction u) (auto simp: quoted_name_def map_option_Suc)

lemma prefix_quoted_piece:
  assumes "CHR 0x22 \<notin> set k" "CHR 0x22 \<notin> set t"
  shows "prefix (k @ [CHR 0x22]) (t @ CHR 0x22 # r) \<longleftrightarrow> t = k"
  using assms
proof (induction k arbitrary: t)
  case Nil
  then show ?case by (cases t) auto
next
  case (Cons a k)
  then show ?case by (cases t) auto
qed

lemma find_sub_piece:
  assumes "CHR 0x22 \<notin> set k" "CHR 0x22 \<notin> set t"
  shows "find_sub (quoted_name k) (CHR 0x22 # t @ CHR 0x22 # r) =
    (if t = k then Some 0
     else shift (Suc (length t)) (find_sub (quoted_name k) (CHR 0x22 # r)))"
proof -
  have "prefix (quoted_name k) (CHR 0x22 # t @ CHR 0x22 # r) \<longleftrightarrow> t = k"
    using prefix_quoted_piece[OF assms] by (simp add: quoted_name_def)
  moreover have "find_sub (quoted_name k) (t @ CHR 0x22 # r) =
      shift (length t) (find_sub (quoted_name k) (CHR 0x22 # r))"
    using find_sub_skip[OF assms(2)] .
  ultimately show ?thesis
    by (subst find_sub.simps(2)) (simp add: map_option_Suc del: find_sub.simps)
qed

lemma find_sub_no_quote: "CHR 0x22 \<notin> set u \<Longrightarrow> find_sub (quoted_name k) (CHR 0x22 # u) = None"
  using find_sub_skip[of u k "[]"]
  by (auto simp: quoted_name_def prefix_def map_option_Suc)

text \<open>A name made of letters and digits is found at its own field only: every other stretch
  between two quotes is another name, another string, or contains a colon or a comma.\<close>

definition plain_name :: "string \<Rightarrow> bool" where
  "plain_name k \<longleftrightarrow> (\<forall>c\<in>set k. name_char c)"

lemma plain_name_chars [simp]:
  assumes "plain_name k"
  shows "CHR 0x22 \<notin> set k" "CHR 0x5C \<notin> set k" "CHR '':'' \<notin> set k" "CHR '','' \<notin> set k"
proof -
  have "name_char c" if "c \<in> set k" for c
    using assms that by (auto simp: plain_name_def)
  moreover have "\<not> name_char (CHR 0x22)" "\<not> name_char (CHR 0x5C)" "\<not> name_char (CHR '':'')"
      "\<not> name_char (CHR '','')"
    by (simp_all add: name_char_def byte_simps)
  ultimately show "CHR 0x22 \<notin> set k" "CHR 0x5C \<notin> set k" "CHR '':'' \<notin> set k" "CHR '','' \<notin> set k"
    by metis+
qed

lemma token_no_quote:
  assumes "scalar_ok (Token t)"
  shows "CHR 0x22 \<notin> set t"
proof -
  have "\<not> token_char (CHR 0x22)" by (simp add: token_char_def byte_simps)
  then show ?thesis using assms by fastforce
qed

definition field_text :: "string \<Rightarrow> scalar \<Rightarrow> string" where
  "field_text k v = quoted_name k @ '':'' @ render_scalar v"

lemma skip_field:
  assumes k: "plain_name k" and k1: "clean_text k1" "k1 \<noteq> k" and v: "scalar_ok v" "v \<noteq> Str k"
    and r: "r = [] \<or> (\<exists>r'. r = CHR '','' # CHR 0x22 # r')"
  shows "find_sub (quoted_name k) (field_text k1 v @ r) =
    shift (length (field_text k1 v)) (find_sub (quoted_name k) r)"
proof -
  note quote = plain_name_chars(1)[OF k]
  have k1q: "CHR 0x22 \<notin> set k1" using k1 by (simp add: clean_text_def)
  note step = find_sub_piece[OF quote]
  have empty: "find_sub (quoted_name k) [] = None" by (simp add: quoted_name_def)
  have sep: "CHR '','' # u \<noteq> k" "CHR '':'' # u \<noteq> k" for u
    using plain_name_chars(3,4)[OF k] by auto
  have rest: "find_sub (quoted_name k) (CHR 0x22 # r) = shift 1 (find_sub (quoted_name k) r)"
    using r
  proof
    assume "r = []"
    then show ?thesis using find_sub_no_quote[of "[]" k] empty by simp
  next
    assume "\<exists>r'. r = CHR '','' # CHR 0x22 # r'"
    then obtain r' where r': "r = CHR '','' # CHR 0x22 # r'" by blast
    show ?thesis
      using step[of "[CHR '','']" r'] find_sub_skip[of "[CHR '','']" k "CHR 0x22 # r'"] sep
      by (simp add: r' map_option_Suc del: find_sub.simps)
  qed
  show ?thesis
  proof (cases v)
    case (Str s)
    then have s: "CHR 0x22 \<notin> set s" "s \<noteq> k" using v by (auto simp: clean_text_def)
    have "find_sub (quoted_name k) (CHR 0x22 # s @ CHR 0x22 # r) =
      shift (length s + 2) (find_sub (quoted_name k) r)"
      using step[OF s(1), of r] s(2) rest by (simp add: map_option_Suc del: find_sub.simps)
    moreover have "find_sub (quoted_name k) (CHR 0x22 # [CHR '':''] @ CHR 0x22 # s @ CHR 0x22 # r) =
      shift (Suc (Suc 0)) (find_sub (quoted_name k) (CHR 0x22 # s @ CHR 0x22 # r))"
      using step[of "[CHR '':'']" "s @ CHR 0x22 # r"] sep by (simp del: find_sub.simps)
    moreover have "field_text k1 v @ r =
      CHR 0x22 # k1 @ CHR 0x22 # [CHR '':''] @ CHR 0x22 # s @ CHR 0x22 # r"
      by (simp add: field_text_def quoted_name_def Str)
    ultimately show ?thesis
      using step[OF k1q] k1(2)
      by (simp add: map_option_Suc field_text_def quoted_name_def Str del: find_sub.simps)
  next
    case (Token t)
    then have t: "CHR 0x22 \<notin> set t" using v token_no_quote by blast
    have "find_sub (quoted_name k) (CHR 0x22 # CHR '':'' # t @ r) =
      shift (length t + 2) (find_sub (quoted_name k) r)"
      using r
    proof
      assume "r = []"
      then show ?thesis using find_sub_no_quote[of "CHR '':'' # t" k] t empty by simp
    next
      assume "\<exists>r'. r = CHR '','' # CHR 0x22 # r'"
      then obtain r' where r': "r = CHR '','' # CHR 0x22 # r'" by blast
      show ?thesis
        using step[of "CHR '':'' # t @ [CHR '','']" r'] t sep
          find_sub_skip[of "[CHR '','']" k "CHR 0x22 # r'"]
        by (simp add: r' map_option_Suc del: find_sub.simps)
    qed
    moreover have "field_text k1 v @ r = CHR 0x22 # k1 @ CHR 0x22 # CHR '':'' # t @ r"
      by (simp add: field_text_def quoted_name_def Token)
    ultimately show ?thesis
      using step[OF k1q] k1(2)
      by (simp add: map_option_Suc field_text_def quoted_name_def Token del: find_sub.simps)
  qed
qed


lemma find_field:
  assumes k: "plain_name k" and ok: "fields_ok fs" and ns: "\<forall>(k', v)\<in>set fs. v \<noteq> Str k"
  shows "case map_of fs k of
      None \<Rightarrow> find_sub (quoted_name k) (render_fields fs) = None
    | Some v \<Rightarrow> \<exists>i r. find_sub (quoted_name k) (render_fields fs) = Some i \<and>
        drop i (render_fields fs) = field_text k v @ r \<and> (r = [] \<or> hd r = CHR '','')"
  using ok ns
proof (induction fs rule: render_fields.induct)
  case 1
  show ?case by (simp add: quoted_name_def)
next
  case (2 k1 v1)
  have whole: "render_fields [(k1, v1)] = field_text k1 v1 @ []"
    by (simp add: field_text_def)
  show ?case
  proof (cases "k1 = k")
    case True
    then show ?thesis by (subst whole)+ (simp add: field_text_def quoted_name_def)
  next
    case False
    then have "find_sub (quoted_name k) (render_fields [(k1, v1)]) =
        shift (length (field_text k1 v1)) (find_sub (quoted_name k) [])"
      unfolding whole using 2 False by (intro skip_field[OF k]) (auto simp: fields_ok_def)
    then have "find_sub (quoted_name k) (render_fields [(k1, v1)]) = None"
      by (simp add: quoted_name_def)
    then show ?thesis using False by simp
  qed
next
  case (3 k1 v1 f fs)
  let ?rest = "render_fields (f # fs)"
  have whole: "render_fields ((k1, v1) # f # fs) = field_text k1 v1 @ CHR '','' # ?rest"
    by (simp add: field_text_def)
  obtain r' where r': "?rest = CHR 0x22 # r'"
    by (cases f; cases fs) (auto simp: quoted_name_def)
  show ?case
  proof (cases "k1 = k")
    case True
    then have "find_sub (quoted_name k) (render_fields ((k1, v1) # f # fs)) = Some 0"
      unfolding whole by (simp add: field_text_def quoted_name_def)
    then show ?thesis using True by (simp add: field_text_def)
  next
    case False
    have "find_sub (quoted_name k) (render_fields ((k1, v1) # f # fs)) =
        shift (length (field_text k1 v1)) (find_sub (quoted_name k) (CHR '','' # ?rest))"
      unfolding whole using 3 False r' by (intro skip_field[OF k]) (auto simp: fields_ok_def)
    also have "find_sub (quoted_name k) (CHR '','' # ?rest) = shift 1 (find_sub (quoted_name k) ?rest)"
      using find_sub_skip[of "[CHR '','']" k ?rest] by simp
    finally have eq: "find_sub (quoted_name k) (render_fields ((k1, v1) # f # fs)) =
        shift (length (field_text k1 v1) + 1) (find_sub (quoted_name k) ?rest)" by simp
    have ih: "case map_of (f # fs) k of
        None \<Rightarrow> find_sub (quoted_name k) ?rest = None
      | Some v \<Rightarrow> \<exists>i r. find_sub (quoted_name k) ?rest = Some i \<and>
          drop i ?rest = field_text k v @ r \<and> (r = [] \<or> hd r = CHR '','')"
      using 3 by (auto simp: fields_ok_def)
    have dr: "drop (length (field_text k1 v1) + 1 + i) (render_fields ((k1, v1) # f # fs)) = drop i ?rest" for i
      unfolding whole by simp
    show ?thesis
    proof (cases "map_of (f # fs) k")
      case None
      then show ?thesis using ih eq False by simp
    next
      case (Some v)
      then obtain i r where "find_sub (quoted_name k) ?rest = Some i"
          "drop i ?rest = field_text k v @ r" "r = [] \<or> hd r = CHR '',''"
        using ih by auto
      then show ?thesis using Some False eq dr[of i] by auto
    qed
  qed
qed

text \<open>What \<open>json_value\<close> does after the name, as a function of the text that follows it.\<close>

definition value_after :: "string \<Rightarrow> string option" where
  "value_after u =
    (case find_char (CHR '':'') u of
       None \<Rightarrow> None
     | Some j \<Rightarrow>
         (case dropWhile is_space (drop (Suc j) u) of
            [] \<Rightarrow> None
          | c # rest \<Rightarrow>
              if c = CHR 0x22 then map_option (\<lambda>e. take e rest) (find_char (CHR 0x22) rest)
              else Some (trim (takeWhile (\<lambda>c. \<not> value_end c) (c # rest)))))"

lemma json_value_after:
  "find_sub (quoted_name k) s = Some i \<Longrightarrow>
     json_value s k = value_after (drop (i + length (quoted_name k)) s)"
  by (cases "find_pred (\<lambda>c. c = CHR '':'') (drop (i + length (quoted_name k)) s)")
     (simp_all add: json_value_def value_after_def find_from_0 find_pred_from_def find_char_def Let_def
        add_ac del: find_pred_None)

lemma quote_not_space [simp]: "\<not> is_space (CHR 0x22)"
  by (simp add: byte_simps)

lemma value_after_string:
  "clean_text t \<Longrightarrow> value_after (CHR '':'' # quoted_name t @ r) = Some t"
  using find_char_append[of "CHR 0x22" t r]
  by (simp add: value_after_def quoted_name_def clean_text_def)
     (simp add: find_char_def)

lemma trim_token:
  assumes "\<forall>c\<in>set t. \<not> ws_char c"
  shows "trim t = t"
proof -
  have d: "dropWhile ws_char u = u" if "\<forall>c\<in>set u. \<not> ws_char c" for u
    using that by (cases u) auto
  have "dropWhile ws_char t = t" "dropWhile ws_char (rev t) = rev t"
    using assms by (auto intro: d)
  then show ?thesis by (simp add: trim_def)
qed

lemma token_char_plain:
  assumes "token_char c"
  shows "\<not> ws_char c" "\<not> value_end c" "\<not> is_space c" "c \<noteq> CHR 0x22"
  using assms by (auto simp: token_char_def ws_char_def value_end_def byte_simps)

lemma value_after_token:
  assumes t: "t \<noteq> []" "\<forall>c\<in>set t. token_char c" and r: "r = [] \<or> hd r = CHR '',''"
  shows "value_after (CHR '':'' # t @ r) = Some t"
proof -
  obtain a t' where a: "t = a # t'" using t by (cases t) auto
  have ne: "\<not> value_end c" if "c \<in> set t" for c using t that token_char_plain by blast
  have "takeWhile (\<lambda>c. \<not> value_end c) r = []"
    using r by (cases r) (auto simp: value_end_def)
  then have sp: "takeWhile (\<lambda>c. \<not> value_end c) (t @ r) = t"
    using ne by (simp add: takeWhile_append2)
  have ns: "\<not> is_space a" "a \<noteq> CHR 0x22" using t a token_char_plain[of a] by auto
  have "trim t = t" using t token_char_plain by (blast intro: trim_token)
  moreover have "value_after (CHR '':'' # t @ r) = Some (trim (takeWhile (\<lambda>c. \<not> value_end c) (t @ r)))"
    using ns by (simp add: value_after_def find_char_def a)
  ultimately show ?thesis using sp by simp
qed

lemma json_value_field:
  assumes i: "find_sub (quoted_name k) s = Some i"
    and s: "drop i s = field_text k v @ r" and r: "r = [] \<or> hd r = CHR '',''" and v: "scalar_ok v"
  shows "json_value s k = Some (scalar_text v)"
proof -
  have "drop (i + length (quoted_name k)) s = drop (length (quoted_name k)) (drop i s)"
    by (simp add: add.commute)
  also have "\<dots> = CHR '':'' # render_scalar v @ r"
    using s by (simp add: field_text_def)
  finally show ?thesis
    using v r by (cases v) (simp_all add: json_value_after[OF i] value_after_string value_after_token)
qed


subsection \<open>Sections\<close>

text \<open>From a point inside the section, outside strings and not after a backslash, the scan of
  \<open>json_section\<close> stops \<open>n\<close> characters further on.\<close>

definition closes_at :: "string \<Rightarrow> nat \<Rightarrow> bool" where
  "closes_at r n \<longleftrightarrow> (\<forall>p. p \<noteq> Some (CHR 0x5C) \<longrightarrow> json_close p 1 False r = Some n)"

definition inert :: "char \<Rightarrow> bool" where
  "inert c \<longleftrightarrow> c \<notin> {CHR 0x22, CHR 0x5C, CHR ''{'', CHR ''}''}"

lemma closes_at_brace: "closes_at (CHR ''}'' # r) 0"
  by (simp add: closes_at_def)

lemma closes_at_inert:
  "(\<forall>c\<in>set u. inert c) \<Longrightarrow> closes_at r n \<Longrightarrow> closes_at (u @ r) (length u + n)"
  by (induction u) (auto simp: closes_at_def inert_def)

lemma json_close_in_string:
  assumes "clean_text t" "p \<noteq> Some (CHR 0x5C)"
  shows "json_close p d True (t @ CHR 0x22 # r) =
    shift (Suc (length t)) (json_close (Some (CHR 0x22)) d False r)"
  using assms
proof (induction t arbitrary: p)
  case Nil
  then show ?case by (simp add: map_option_Suc)
next
  case (Cons a t)
  then have a: "a \<noteq> CHR 0x22" "a \<noteq> CHR 0x5C" "clean_text t" by (auto simp: clean_text_def)
  then have "json_close (Some a) d True (t @ CHR 0x22 # r) =
      shift (Suc (length t)) (json_close (Some (CHR 0x22)) d False r)"
    using Cons.IH[OF a(3), of "Some a"] by simp
  then show ?case using a by (simp add: map_option_Suc)
qed

lemma closes_at_quoted:
  assumes "clean_text t" "closes_at r n"
  shows "closes_at (quoted_name t @ r) (length (quoted_name t) + n)"
  using assms json_close_in_string[OF assms(1), of "Some (CHR 0x22)" 1 r]
  by (auto simp: closes_at_def quoted_name_def map_option_Suc)

lemma token_inert: "scalar_ok (Token t) \<Longrightarrow> c \<in> set t \<Longrightarrow> inert c"
  by (auto simp: token_char_def inert_def byte_simps)

lemma closes_at_field:
  assumes "clean_text k" "scalar_ok v" "closes_at r n"
  shows "closes_at (field_text k v @ r) (length (field_text k v) + n)"
proof -
  have v: "closes_at (render_scalar v @ r) (length (render_scalar v) + n)"
    using assms closes_at_quoted[OF _ assms(3)] closes_at_inert[OF _ assms(3)] token_inert
    by (cases v) force+
  have "closes_at ('':'' @ render_scalar v @ r) (1 + (length (render_scalar v) + n))"
    using closes_at_inert[OF _ v, of "'':''"] by (simp add: inert_def)
  then show ?thesis
    using closes_at_quoted[OF assms(1)] by (fastforce simp: field_text_def add_ac)
qed

lemma closes_at_fields:
  "fields_ok fs \<Longrightarrow> closes_at (render_fields fs @ CHR ''}'' # r) (length (render_fields fs))"
proof (induction fs rule: render_fields.induct)
  case (2 k v)
  then show ?case
    using closes_at_field[of k v, OF _ _ closes_at_brace[of r]]
    by (simp add: fields_ok_def field_text_def)
next
  case (3 k v f fs)
  let ?rest = "render_fields (f # fs)"
  have "closes_at (?rest @ CHR ''}'' # r) (length ?rest)"
    using 3 by (simp add: fields_ok_def)
  then have sep: "closes_at ('','' @ ?rest @ CHR ''}'' # r) (1 + length ?rest)"
    using closes_at_inert[of "'',''" "?rest @ CHR ''}'' # r" "length ?rest"] by (simp add: inert_def)
  have "render_fields ((k, v) # f # fs) @ CHR ''}'' # r =
      field_text k v @ '','' @ ?rest @ CHR ''}'' # r"
    by (simp add: field_text_def)
  then show ?case
    using closes_at_field[OF _ _ sep, of k v] 3(2)
    by (simp add: fields_ok_def field_text_def add.assoc)
qed (simp add: closes_at_brace)

lemma json_section_reads_back:
  assumes "fields_ok fs"
    and d: "doc = pre @ quoted_name sec @ '':'' @ ''{'' @ render_fields fs @ ''}'' @ post"
    and first: "find_sub (quoted_name sec) doc = Some (length pre)"
  shows "json_section doc sec = render_fields fs"
proof -
  have "drop (length pre + length (quoted_name sec)) doc = '':{'' @ render_fields fs @ ''}'' @ post"
    by (simp add: d)
  then have brace: "find_pred_from (\<lambda>c. c = CHR ''{'') doc (length pre + length (quoted_name sec)) =
      Some (length pre + length (quoted_name sec) + 1)" (is "_ = Some ?open")
    by (simp add: find_pred_from_def)
  have o: "drop ?open doc = CHR ''{'' # render_fields fs @ CHR ''}'' # post"
    by (simp add: d)
  have "json_close None 0 False (drop ?open doc) = Some (Suc (length (render_fields fs)))"
    using closes_at_fields[OF assms(1), of post] unfolding o by (simp add: closes_at_def)
  moreover have "drop (?open + 1) doc = render_fields fs @ CHR ''}'' # post"
    using o by (metis add.commute drop_drop drop_Suc_Cons drop0 One_nat_def)
  ultimately show ?thesis
    using brace first by (simp add: json_section_def Let_def find_from_0 substr_def)
qed

lemma json_value_reads_back:
  assumes "plain_name k" "fields_ok fs" "\<forall>(k', v)\<in>set fs. v \<noteq> Str k"
  shows "json_value (render_fields fs) k = map_option scalar_text (map_of fs k)"
proof (cases "map_of fs k")
  case None
  then have "find_sub (quoted_name k) (render_fields fs) = None"
    using find_field[OF assms] by simp
  then show ?thesis using None by (simp add: json_value_def Let_def find_from_0)
next
  case (Some v)
  then obtain i r where "find_sub (quoted_name k) (render_fields fs) = Some i"
      "drop i (render_fields fs) = field_text k v @ r" "r = [] \<or> hd r = CHR '',''"
    using find_field[OF assms] by auto
  moreover have "scalar_ok v" using assms(2) Some by (auto simp: fields_ok_def dest: map_of_SomeD)
  ultimately show ?thesis using Some json_value_field by simp
qed


section \<open>Properties\<close>

subsection \<open>A concrete configuration\<close>

definition example_host :: "string \<Rightarrow> host" where
  "example_host j = \<lparr>file_content = (\<lambda>p. if p = ''c.json'' then Some j else None),
     is_relative = (\<lambda>p. case p of c # _ \<Rightarrow> c \<noteq> CHR ''/'' | [] \<Rightarrow> True),
     absolute_in = (\<lambda>c p. ''/root/'' @ p), getenv = (\<lambda>_. None)\<rparr>"

definition example_json :: string where
  "example_json = ''{'' @ quoted_name ''server'' @ '':{'' @ quoted_name ''port'' @ '':9000}}''"

lemma json_value_Nil [simp]: "json_value [] k = None"
  by (simp add: json_value_def find_from_0 quoted_name_def Let_def)

lemma example_sections:
  "json_section example_json ''server'' = quoted_name ''port'' @ '':9000''"
  "json_section example_json ''sdk'' = []"
  "json_section example_json ''ffmpeg'' = []"
  "json_section example_json ''logging'' = []"
  "json_section example_json ''media'' = []"
  "json_section example_json ''timeouts'' = []"
  by code_simp+

lemma example_values:
  "json_value example_json ''sdktype'' = None"
  "json_value (quoted_name ''port'' @ '':9000'') ''port'' = Some ''9000''"
  "json_value (quoted_name ''port'' @ '':9000'') ''bind'' = None"
  "json_value (quoted_name ''port'' @ '':9000'') ''maxSessions'' = None"
  "json_value (quoted_name ''port'' @ '':9000'') ''maxHttpConnections'' = None"
  "stoi ''9000'' = Some 9000"
  by code_simp+

lemmas example_eval = example_sections example_values load_config_def read_file_def
  read_server_def read_sdk_def read_ffmpeg_def read_logging_def read_media_def read_timeouts_def
  json_int_def json_bool_def json_string_def default_config_def resolve_paths_def resolve_path_def
  env_override_def config_rejected_def hardware_names_def example_host_def res_of_option_def

definition example_config :: config where
  "example_config = default_config\<lparr>listen_port := 9000, sdk_directory := ''/root/../sdk'',
     log_directory := ''/root/../logs'', codec_cache_file := ''/root/../state/video-codec-cache.tsv''\<rparr>"

lemma example_loads: "load_config (example_host example_json) ''c.json'' = Inr example_config"
  by (simp add: example_eval example_config_def to_lower_id is_upper_def)

text \<open>C31: Whatever \<open>load_config\<close> returns is well-formed: the loopback address, every value in
  its validated range, and every unbounded \<open>int\<close> setting still a 32-bit value.\<close>

theorem load_config_wf: "load_config h path = Inr c \<Longrightarrow> config_wf c"
  by (meson load_config_fits load_config_not_rejected accepted_config_wf)

theorem load_config_wf_witness: "config_wf example_config"
  by (rule load_config_wf[OF example_loads])



text \<open>The scan of \<open>json_section\<close> takes the quote after an escaped backslash for an escaped
  quote: a section whose last string ends in a backslash, correctly written in JSON as two
  backslashes, is not found at all, so that every setting in it silently keeps its default.\<close>

theorem json_section_trailing_backslash:
  "json_section (''{'' @ quoted_name ''sdk'' @ '':{'' @ quoted_name ''directory'' @ '':'' @
     quoted_name (''D:'' @ [CHR 0x5C, CHR 0x5C]) @ ''}}'') ''sdk'' = []"
  by code_simp

end
