(* ===== verification/Ordered_Map.thy ===== *)
theory Ordered_Map
  imports Cpp_String
begin

text \<open>
  \<open>std::map<std::string, V>\<close>, which the bridge uses for query parameters, headers, the codec cache
  and the session states: the entries in key order (\<open>std::string\<close>'s byte order is the
  lexicographic order of HOL strings).  The locale \<open>string_map\<close> is what the components rely on;
  the facts they share are proved in it once and reach them through the interpretation
  \<open>std_map\<close>.
\<close>

section \<open>The interface\<close>

locale string_map =
  fixes empty :: "'m"
    and lookup :: "'m \<Rightarrow> string \<Rightarrow> 'v option"
    and store :: "string \<Rightarrow> 'v \<Rightarrow> 'm \<Rightarrow> 'm"
    and erase :: "string \<Rightarrow> 'm \<Rightarrow> 'm"
    and erase_if :: "('v \<Rightarrow> bool) \<Rightarrow> 'm \<Rightarrow> 'm"
    and ok :: "'m \<Rightarrow> bool"
  assumes lookup_empty [simp]: "lookup empty k = None"
    and lookup_store [simp]: "ok m \<Longrightarrow> lookup (store k v m) k' = (if k' = k then Some v else lookup m k')"
    and lookup_erase [simp]: "ok m \<Longrightarrow> lookup (erase k m) k' = (if k' = k then None else lookup m k')"
    and lookup_erase_if: "ok m \<Longrightarrow> lookup (erase_if P m) k =
          (case lookup m k of None \<Rightarrow> None | Some v \<Rightarrow> if P v then None else Some v)"
    and ok_empty [simp]: "ok empty"
    and ok_store [simp]: "ok m \<Longrightarrow> ok (store k v m)"
    and ok_erase [simp]: "ok m \<Longrightarrow> ok (erase k m)"
    and ok_erase_if [simp]: "ok m \<Longrightarrow> ok (erase_if P m)"
begin

definition store_all :: "(string \<times> 'v) list \<Rightarrow> 'm \<Rightarrow> 'm" where
  "store_all kvs m = fold (\<lambda>(k, v) m. store k v m) kvs m"

lemma ok_store_all: "ok m \<Longrightarrow> ok (store_all kvs m)"
  by (induction kvs arbitrary: m) (auto simp: store_all_def)

text \<open>Of several assignments to a key the last one wins.\<close>

lemma lookup_store_all:
  "ok m \<Longrightarrow> lookup (store_all kvs m) k =
     (case map_of (rev kvs) k of None \<Rightarrow> lookup m k | Some v \<Rightarrow> Some v)"
proof (induction kvs arbitrary: m)
  case (Cons kv kvs)
  obtain a b where kv: "kv = (a, b)" by (cases kv)
  have "lookup (store_all (kv # kvs) m) k = lookup (store_all kvs (store a b m)) k"
    by (simp add: store_all_def kv)
  also have "\<dots> = (case map_of (rev kvs) k of None \<Rightarrow> lookup (store a b m) k | Some v \<Rightarrow> Some v)"
    using Cons by simp
  finally show ?case using Cons.prems by (auto simp: kv map_add_def split: option.splits)
qed (simp add: store_all_def)

lemma lookup_store_all_distinct:
  assumes "distinct (map fst kvs)"
  shows "lookup (store_all kvs empty) k = map_of kvs k"
proof -
  have "map_of (rev kvs) = map_of kvs"
    using assms by (simp add: map_of_inject_set distinct_map flip: rev_map)
  then show ?thesis by (simp add: lookup_store_all split: option.split)
qed

lemma erase_if_keeps:
  "ok m \<Longrightarrow> lookup m k = Some v \<Longrightarrow> \<not> P v \<Longrightarrow> lookup (erase_if P m) k = Some v"
  by (simp add: lookup_erase_if)

lemma erase_if_drops:
  "ok m \<Longrightarrow> lookup m k = Some v \<Longrightarrow> P v \<Longrightarrow> lookup (erase_if P m) k = None"
  by (simp add: lookup_erase_if)

lemma erase_if_sub: "ok m \<Longrightarrow> lookup (erase_if P m) k = Some v \<Longrightarrow> lookup m k = Some v \<and> \<not> P v"
  by (auto simp: lookup_erase_if split: option.splits if_splits)

lemma erase_if_none: "ok m \<Longrightarrow> lookup m k = None \<Longrightarrow> lookup (erase_if P m) k = None"
  by (simp add: lookup_erase_if)

end

section \<open>Sorted association lists\<close>

type_synonym 'v omap = "(string \<times> 'v) list"

fun omap_set :: "string \<Rightarrow> 'v \<Rightarrow> 'v omap \<Rightarrow> 'v omap" where
  "omap_set k v [] = [(k, v)]"
| "omap_set k v ((k', v') # m) =
     (if k < k' then (k, v) # (k', v') # m
      else if k = k' then (k, v) # m
      else (k', v') # omap_set k v m)"

definition omap_find :: "'v omap \<Rightarrow> string \<Rightarrow> 'v option" where
  "omap_find m k = map_of m k"

definition omap_erase :: "string \<Rightarrow> 'v omap \<Rightarrow> 'v omap" where
  "omap_erase k m = filter (\<lambda>(k', v). k' \<noteq> k) m"

definition omap_erase_if :: "('v \<Rightarrow> bool) \<Rightarrow> 'v omap \<Rightarrow> 'v omap" where
  "omap_erase_if P m = filter (\<lambda>(k, v). \<not> P v) m"

definition omap_ok :: "'v omap \<Rightarrow> bool" where
  "omap_ok m \<longleftrightarrow> sorted_wrt (<) (map fst m)"

lemma omap_set_keys: "fst ` set (omap_set k v m) = insert k (fst ` set m)"
  by (induction k v m rule: omap_set.induct) auto

lemma omap_find_set: "omap_find (omap_set k v m) k' = (if k' = k then Some v else omap_find m k')"
  by (induction k v m rule: omap_set.induct) (auto simp: omap_find_def)

lemma omap_ok_Cons: "omap_ok (kv # m) \<longleftrightarrow> (\<forall>k\<in>fst ` set m. fst kv < k) \<and> omap_ok m"
  by (auto simp: omap_ok_def)

lemma omap_ok_set: "omap_ok m \<Longrightarrow> omap_ok (omap_set k v m)"
proof (induction k v m rule: omap_set.induct)
  case (2 k v k' v' m)
  then show ?case
    by (auto simp: omap_ok_Cons omap_set_keys dest: order.strict_trans)
qed (simp add: omap_ok_def)

lemma omap_ok_filter: "omap_ok m \<Longrightarrow> omap_ok (filter P m)"
  by (induction m) (auto simp: omap_ok_Cons)

lemma omap_ok_erase: "omap_ok m \<Longrightarrow> omap_ok (omap_erase k m)"
  by (simp add: omap_erase_def omap_ok_filter)

lemma omap_ok_erase_if: "omap_ok m \<Longrightarrow> omap_ok (omap_erase_if P m)"
  by (simp add: omap_erase_if_def omap_ok_filter)

lemma omap_ok_distinct: "omap_ok m \<Longrightarrow> distinct (map fst m)"
  by (simp add: omap_ok_def strict_sorted_iff)

lemma omap_find_erase: "omap_find (omap_erase k m) k' = (if k' = k then None else omap_find m k')"
  by (induction m) (auto simp: omap_erase_def omap_find_def)

lemma omap_find_erase_if:
  "omap_ok m \<Longrightarrow> omap_find (omap_erase_if P m) k =
     (case omap_find m k of None \<Rightarrow> None | Some v \<Rightarrow> if P v then None else Some v)"
proof (induction m)
  case (Cons kv m)
  have "fst kv = k \<Longrightarrow> omap_find m k = None"
    using Cons.prems by (force simp: omap_ok_Cons omap_find_def map_of_eq_None_iff)
  then show ?case
    using Cons by (cases kv) (auto simp: omap_erase_if_def omap_find_def omap_ok_Cons)
qed (simp add: omap_erase_if_def omap_find_def)

interpretation std_map: string_map "[]" omap_find omap_set omap_erase omap_erase_if omap_ok
  by unfold_locales
     (simp_all add: omap_find_set omap_find_erase omap_find_erase_if omap_ok_set omap_ok_erase
        omap_ok_erase_if, simp_all add: omap_find_def omap_ok_def)

lemma omap_find_in: "omap_ok m \<Longrightarrow> omap_find m k = Some v \<longleftrightarrow> (k, v) \<in> set m"
  by (simp add: omap_find_def omap_ok_distinct)

end
