(* ===== verification/Query.thy ===== *)
theory Query
  imports Ordered_Map
begin

text \<open>
  Query strings: \<open>url_decode\<close>, \<open>parse_query\<close>, \<open>required\<close>, \<open>is_safe_session_id\<close>, \<open>parse_long\<close> and
  \<open>parse_int\<close> of \<open>main.cpp\<close>.  The specification they are held against is the percent-encoding
  of a list of parameters, \<open>render_query\<close>.
\<close>

type_synonym query = "string omap"

section \<open>The code\<close>

definition hex_value :: "char \<Rightarrow> nat" where
  "hex_value c =
     (if is_digit c then byte c - 48
      else if is_upper c then byte c - 55
      else byte c - 87)"

fun url_decode :: "string \<Rightarrow> string" where
  "url_decode [] = []"
| "url_decode (c # cs) =
     (if c = CHR ''+'' then CHR '' '' # url_decode cs
      else case cs of
          a # b # rest \<Rightarrow>
            if c = CHR ''%'' \<and> is_xdigit a \<and> is_xdigit b
            then char_of (16 * hex_value a + hex_value b) # url_decode rest
            else c # url_decode cs
        | _ \<Rightarrow> c # url_decode cs)"

definition query_part :: "string \<Rightarrow> query \<Rightarrow> query" where
  "query_part part q =
     (case find_char (CHR ''='') part of
        None \<Rightarrow> omap_set (url_decode part) (url_decode []) q
      | Some e \<Rightarrow> omap_set (url_decode (take e part)) (url_decode (drop (e + 1) part)) q)"

text \<open>The loop of \<open>parse_query\<close>; \<open>text\<close> is what is left from \<open>start\<close> on.\<close>

function parse_query_loop :: "string \<Rightarrow> query \<Rightarrow> query" where
  "parse_query_loop text q =
     (case find_char (CHR ''&'') text of
        None \<Rightarrow> query_part text q
      | Some e \<Rightarrow> parse_query_loop (drop (e + 1) text) (query_part (take e text) q))"
  by pat_completeness auto
termination
  by (relation "measure (\<lambda>(text, q). length text)") (auto dest: find_char_length)

declare parse_query_loop.simps [simp del]

definition parse_query :: "string \<Rightarrow> query" where
  "parse_query text = parse_query_loop text []"

definition invalid_parameter :: failure where
  "invalid_parameter = BridgeError 400 ''INVALID_PARAMETER''"

definition required :: "query \<Rightarrow> string \<Rightarrow> string res" where
  "required q name =
     (case omap_find q name of
        None \<Rightarrow> Inl invalid_parameter
      | Some v \<Rightarrow> if v = [] then Inl invalid_parameter else Inr v)"

definition safe_char :: "char \<Rightarrow> bool" where
  "safe_char c \<longleftrightarrow> is_lower c \<or> is_upper c \<or> is_digit c \<or> c = CHR ''-'' \<or> c = CHR ''_''"

definition is_safe_session_id :: "string \<Rightarrow> bool" where
  "is_safe_session_id v \<longleftrightarrow> v \<noteq> [] \<and> (\<forall>c\<in>set v. safe_char c)"

definition parse_long :: "string \<Rightarrow> int res" where
  "parse_long v =
     (case stoll v of
        None \<Rightarrow> Inl invalid_parameter
      | Some (result, used) \<Rightarrow> if used \<noteq> length v then Inl invalid_parameter else Inr result)"

definition parse_int :: "string \<Rightarrow> int res" where
  "parse_int v =
     bind_res (parse_long v) (\<lambda>result.
       if result < - (2 ^ 31) \<or> result > 2 ^ 31 - 1 then Inl invalid_parameter else Inr result)"

section \<open>Numbers\<close>

lemma scan_int_used: "scan_int s = Some (v, n) \<Longrightarrow> n \<le> length s"
proof -
  assume a: "scan_int s = Some (v, n)"
  let ?r = "dropWhile is_space s"
  define r1 where "r1 = (if ?r \<noteq> [] \<and> (hd ?r = CHR ''-'' \<or> hd ?r = CHR ''+'') then tl ?r else ?r)"
  have "length r1 \<le> length s"
    using length_dropWhile_le[of is_space s] by (auto simp: r1_def)
  moreover have "length (takeWhile is_digit r1) \<le> length r1" by (rule length_takeWhile_le)
  moreover have "n = length s - length r1 + length (takeWhile is_digit r1)"
    using a by (auto simp: scan_int_def Let_def r1_def split: if_splits)
  ultimately show ?thesis by simp
qed

lemma parse_long_show: "in_int64 i \<Longrightarrow> parse_long (show_int i) = Inr i"
  by (simp add: parse_long_def stoll_show_int)

lemma parse_int_show: "in_int32 i \<Longrightarrow> parse_int (show_int i) = Inr i"
  by (auto simp: parse_int_def parse_long_show in_int32_def in_int64_def)

lemma parse_long_range: "parse_long v = Inr i \<Longrightarrow> in_int64 i"
  by (auto simp: parse_long_def stoll_def split: option.splits if_splits)

lemma parse_int_range: "parse_int v = Inr i \<Longrightarrow> in_int32 i"
  by (auto simp: parse_int_def in_int32_def res_simps split: if_splits)

section \<open>Percent-encoding\<close>

definition hex_digit :: "nat \<Rightarrow> char" where
  "hex_digit n = (if n < 10 then char_of (48 + n) else char_of (55 + n))"

definition unreserved :: "char \<Rightarrow> bool" where
  "unreserved c \<longleftrightarrow> is_lower c \<or> is_upper c \<or> is_digit c \<or> c \<in> {CHR ''-'', CHR ''_'', CHR ''.'', CHR ''~''}"

fun url_encode :: "string \<Rightarrow> string" where
  "url_encode [] = []"
| "url_encode (c # cs) =
     (if unreserved c then c # url_encode cs
      else CHR ''%'' # hex_digit (byte c div 16) # hex_digit (byte c mod 16) # url_encode cs)"

fun join :: "string \<Rightarrow> string list \<Rightarrow> string" where
  "join sep [] = []"
| "join sep [x] = x"
| "join sep (x # xs) = x @ sep @ join sep xs"

definition render_query :: "(string \<times> string) list \<Rightarrow> string" where
  "render_query kvs = join ''&'' (map (\<lambda>(k, v). url_encode k @ ''='' @ url_encode v) kvs)"

lemma hex_digit_value [simp]: "n < 16 \<Longrightarrow> hex_value (hex_digit n) = n"
  by (auto simp: hex_digit_def hex_value_def byte_simps)

lemma hex_digit_xdigit [simp]: "n < 16 \<Longrightarrow> is_xdigit (hex_digit n)"
  by (auto simp: hex_digit_def byte_simps)

lemma hex_pair [simp]: "char_of (16 * (byte c div 16) + byte c mod 16) = (c :: char)"
  by simp

lemma byte_div_16 [simp]: "byte c div 16 < 16" "byte c mod 16 < 16"
proof -
  have "byte c < 256" by simp
  then show "byte c div 16 < 16" by (simp add: less_mult_imp_div_less)
qed simp

lemma unreserved_not_special:
  assumes "unreserved c"
  shows "c \<noteq> CHR ''+''" "c \<noteq> CHR ''%''" "c \<noteq> CHR ''&''" "c \<noteq> CHR ''=''"
  using assms by (auto simp: unreserved_def byte_simps)

lemma url_decode_plain: "c \<noteq> CHR ''+'' \<Longrightarrow> c \<noteq> CHR ''%'' \<Longrightarrow> url_decode (c # cs) = c # url_decode cs"
  by (simp split: list.split)

lemma url_decode_encode [simp]: "url_decode (url_encode s) = s"
proof (induction s)
  case (Cons c cs)
  show ?case
  proof (cases "unreserved c")
    case True
    then show ?thesis using Cons unreserved_not_special by (simp add: url_decode_plain del: url_decode.simps)
  next
    case False
    then show ?thesis using Cons by simp
  qed
qed simp

lemma url_encode_chars: "c \<in> set (url_encode s) \<Longrightarrow> c \<noteq> CHR ''&'' \<and> c \<noteq> CHR ''='' \<and> c \<noteq> CHR ''+''"
proof (induction s)
  case (Cons a s)
  have hex: "hex_digit n \<noteq> CHR ''&'' \<and> hex_digit n \<noteq> CHR ''='' \<and> hex_digit n \<noteq> CHR ''+''" if "n < 16" for n
  proof -
    have "is_xdigit (hex_digit n)" using that by simp
    moreover have "\<not> is_xdigit (CHR ''&'')" "\<not> is_xdigit (CHR ''='')" "\<not> is_xdigit (CHR ''+'')"
      by (simp_all add: byte_simps)
    ultimately show ?thesis by metis
  qed
  show ?case using Cons hex unreserved_not_special[of a] by (auto split: if_splits)
qed simp

lemma query_part_render:
  "query_part (url_encode k @ CHR ''='' # url_encode v) q = omap_set k v q"
proof -
  have "CHR ''='' \<notin> set (url_encode k)" using url_encode_chars by blast
  then show ?thesis by (simp add: query_part_def find_char_append)
qed

lemma parse_query_loop_last:
  "CHR ''&'' \<notin> set part \<Longrightarrow> parse_query_loop part q = query_part part q"
  by (subst parse_query_loop.simps) (simp add: find_char_None[THEN iffD2])

lemma parse_query_loop_more:
  "CHR ''&'' \<notin> set part \<Longrightarrow>
     parse_query_loop (part @ CHR ''&'' # rest) q = parse_query_loop rest (query_part part q)"
  by (subst parse_query_loop.simps) (simp add: find_char_append)

lemma parse_query_loop_render:
  "kvs \<noteq> [] \<Longrightarrow> parse_query_loop (render_query kvs) q = std_map.store_all kvs q"
proof (induction kvs arbitrary: q rule: induct_list012)
  case (2 kv)
  obtain k v where kv: "kv = (k, v)" by (cases kv)
  have "CHR ''&'' \<notin> set (url_encode k @ CHR ''='' # url_encode v)"
    using url_encode_chars by auto
  then show ?case
    by (simp add: kv render_query_def std_map.store_all_def parse_query_loop_last query_part_render)
next
  case (3 kv kv' kvs)
  obtain k v where kv: "kv = (k, v)" by (cases kv)
  have "CHR ''&'' \<notin> set (url_encode k @ CHR ''='' # url_encode v)"
    using url_encode_chars by auto
  moreover have "render_query (kv # kv' # kvs) =
      (url_encode k @ CHR ''='' # url_encode v) @ CHR ''&'' # render_query (kv' # kvs)"
    by (simp add: kv render_query_def)
  ultimately show ?case
    using 3 by (simp add: kv parse_query_loop_more query_part_render std_map.store_all_def del: append_assoc append_Cons)
qed simp

end
