(* ===== verification/Stream_Request.thy ===== *)
theory Stream_Request
  imports Query Config
begin

text \<open>
  The parameters of \<open>/video\<close>: \<open>StreamRequest\<close>, \<open>parse_stream_request\<close>, the pass-through policy
  \<open>h264_copy_allowed\<close> and the playback speed commands.  A C++ \<open>double\<close> is one of the values below
  with the comparisons of IEEE 754; \<open>std::stod\<close>, whose result depends on the process locale
  (\<open>run_bridge\<close> sets it from the environment), is a parameter.
\<close>

section \<open>Doubles\<close>

datatype double = Fin rat | NaN | PosInf | NegInf

fun dbl_less :: "double \<Rightarrow> double \<Rightarrow> bool" where
  "dbl_less (Fin a) (Fin b) = (a < b)"
| "dbl_less NegInf (Fin _) = True"
| "dbl_less NegInf PosInf = True"
| "dbl_less (Fin _) PosInf = True"
| "dbl_less _ _ = False"

fun dbl_eq :: "double \<Rightarrow> double \<Rightarrow> bool" where
  "dbl_eq NaN _ = False"
| "dbl_eq _ NaN = False"
| "dbl_eq a b = (a = b)"

text \<open>\<open>std::set<double>::count\<close>: an element is found when neither it nor the key is less.\<close>

definition set_count :: "double list \<Rightarrow> double \<Rightarrow> bool" where
  "set_count xs x \<longleftrightarrow> (\<exists>y\<in>set xs. \<not> dbl_less y x \<and> \<not> dbl_less x y)"

section \<open>The request\<close>

datatype option_kind = RealPlay | Playback
datatype stream_kind = MainStream | SubStream
datatype video_codec = CodecUnknown | H264 | H265
datatype channel_type = ChanAuto | ChanAnalog | ChanDigital | ChanDigitalIndex

record stream_request =
  sr_option :: option_kind
  sr_ip :: string
  sr_port :: int
  sr_username :: string
  sr_password :: string
  sr_camera :: int
  sr_channel_type :: channel_type
  sr_stream :: stream_kind
  sr_speed :: double
  sr_start :: int
  sr_end :: int
  sr_sid :: string
  sr_generation :: string

definition valid_speeds :: "double list" where
  "valid_speeds = map Fin [16, 8, 4, 2, 1, 1/2, 1/4, 1/8, 1/16]"

definition parse_option :: "string \<Rightarrow> option_kind res" where
  "parse_option s =
     (if s = ''realplay'' then Inr RealPlay
      else if s = ''playback'' then Inr Playback
      else Inl invalid_parameter)"

definition parse_channel_type :: "string \<Rightarrow> channel_type res" where
  "parse_channel_type s =
     (if s = ''auto'' then Inr ChanAuto
      else if s = ''analog'' then Inr ChanAnalog
      else if s = ''digital'' \<or> s = ''ip'' then Inr ChanDigital
      else if s = ''digitalIndex'' then Inr ChanDigitalIndex
      else Inl invalid_parameter)"

definition parse_stream :: "string \<Rightarrow> stream_kind res" where
  "parse_stream s =
     (if s = ''main'' then Inr MainStream
      else if s = ''sub'' then Inr SubStream
      else Inl invalid_parameter)"

definition parse_speed :: "(string \<Rightarrow> double option) \<Rightarrow> string \<Rightarrow> double res" where
  "parse_speed stod s =
     bind_res (res_of_option invalid_parameter (stod s)) (\<lambda>v.
       if \<not> set_count valid_speeds v then Inl invalid_parameter else Inr v)"

definition query_default :: "query \<Rightarrow> string \<Rightarrow> string \<Rightarrow> string" where
  "query_default q name d = (case omap_find q name of None \<Rightarrow> d | Some v \<Rightarrow> v)"

definition limits_exceeded :: "stream_request \<Rightarrow> bool" where
  "limits_exceeded r \<longleftrightarrow>
     sr_port r < 1 \<or> sr_port r > 65535 \<or> sr_camera r < 0 \<or>
     (sr_channel_type r \<noteq> ChanDigitalIndex \<and> sr_camera r < 1) \<or>
     length (sr_ip r) > 128 \<or> length (sr_username r) > 63 \<or> length (sr_password r) > 63 \<or>
     length (sr_sid r) > 128 \<or> \<not> is_safe_session_id (sr_sid r)"

definition parse_range :: "query \<Rightarrow> config \<Rightarrow> stream_request \<Rightarrow> stream_request res" where
  "parse_range q c r =
     (if sr_option r = Playback then
        bind_res (bind_res (required q ''start'') parse_long) (\<lambda>s.
        bind_res (bind_res (required q ''end'') parse_long) (\<lambda>e.
          if s < 0 \<or> e \<le> s \<or> e - s > max_playback_seconds c then Inl invalid_parameter
          else Inr (r\<lparr>sr_start := s, sr_end := e\<rparr>)))
      else if \<not> dbl_eq (sr_speed r) (Fin 1) then Inl invalid_parameter
      else Inr r)"

text \<open>The parameters up to the speed, and then the checks on them.\<close>

definition parse_fields :: "(string \<Rightarrow> double option) \<Rightarrow> query \<Rightarrow> stream_request res" where
  "parse_fields stod q =
     bind_res (bind_res (required q ''option'') parse_option) (\<lambda>opt.
     bind_res (required q ''ip'') (\<lambda>ip.
     bind_res (bind_res (required q ''port'') parse_int) (\<lambda>port.
     bind_res (required q ''username'') (\<lambda>username.
     bind_res (required q ''password'') (\<lambda>password.
     bind_res (bind_res (required q ''camera'') parse_int) (\<lambda>camera.
     bind_res (required q ''sid'') (\<lambda>sid.
     bind_res (parse_channel_type (query_default q ''channelType'' ''auto'')) (\<lambda>chan.
     bind_res (parse_stream (query_default q ''stream'' ''main'')) (\<lambda>stream.
     bind_res (parse_speed stod (query_default q ''speed'' ''1'')) (\<lambda>speed.
     Inr \<lparr>sr_option = opt, sr_ip = ip, sr_port = port, sr_username = username,
          sr_password = password, sr_camera = camera, sr_channel_type = chan,
          sr_stream = stream, sr_speed = speed, sr_start = 0, sr_end = 0, sr_sid = sid,
          sr_generation = []\<rparr>))))))))))"

definition parse_stream_request ::
    "(string \<Rightarrow> double option) \<Rightarrow> query \<Rightarrow> config \<Rightarrow> stream_request res" where
  "parse_stream_request stod q c =
     bind_res (parse_fields stod q) (\<lambda>r.
       if limits_exceeded r then Inl invalid_parameter
       else bind_res (parse_range q c r) (\<lambda>r.
         Inr (r\<lparr>sr_generation := query_default q ''generation'' []\<rparr>)))"

section \<open>Policies on the request\<close>

datatype platform = Linux | Windows

definition h264_copy_allowed :: "platform \<Rightarrow> stream_request \<Rightarrow> bool" where
  "h264_copy_allowed p r =
     (if \<not> dbl_eq (sr_speed r) (Fin 1) then False
      else case p of Windows \<Rightarrow> True | Linux \<Rightarrow> sr_option r = RealPlay)"

definition linux_h264_playback_transcode_policy :: "platform \<Rightarrow> stream_request \<Rightarrow> bool" where
  "linux_h264_playback_transcode_policy p r =
     (case p of Windows \<Rightarrow> False | Linux \<Rightarrow> sr_option r = Playback)"


text \<open>
  \<open>start_playback\<close> asks the device for \<open>llround(|log2(speed)|)\<close> steps faster or slower.  What
  \<open>llround\<close> returns for a NaN or an infinity is unspecified: the parameter \<open>unspec\<close>.
\<close>

datatype play_command = PlayFast | PlaySlow

definition log2_steps :: "nat \<Rightarrow> double \<Rightarrow> nat" where
  "log2_steps unspec v =
     (case v of Fin r \<Rightarrow> nat (round \<bar>log 2 (real_of_rat r)\<bar>) | _ \<Rightarrow> unspec)"

definition speed_commands :: "nat \<Rightarrow> double \<Rightarrow> play_command list" where
  "speed_commands unspec v =
     (if dbl_eq v (Fin 1) then []
      else replicate (log2_steps unspec v) (if dbl_less (Fin 1) v then PlayFast else PlaySlow))"

section \<open>Facts\<close>

lemma set_count_Fin: "set_count (map Fin xs) (Fin v) \<longleftrightarrow> v \<in> set xs"
  by (auto simp: set_count_def not_less)

lemma set_count_valid: "set_count valid_speeds v \<longleftrightarrow> v \<in> set valid_speeds \<or> v = NaN"
proof (cases v)
  case (Fin r)
  have "set_count valid_speeds (Fin r) \<longleftrightarrow> Fin r \<in> set valid_speeds"
    unfolding valid_speeds_def set_count_Fin by auto
  then show ?thesis using Fin by simp
qed (auto simp: set_count_def valid_speeds_def)

lemma one_is_valid [simp]: "Fin 1 \<in> set valid_speeds"
  by (simp add: valid_speeds_def)

lemma parse_speed_valid: "parse_speed stod s = Inr v \<Longrightarrow> v \<in> set valid_speeds \<or> v = NaN"
  by (auto simp: parse_speed_def res_simps set_count_valid split: if_splits)

lemma log2_steps_power [simp]:
  "log2_steps unspec (Fin (2 ^ n)) = n"
  "log2_steps unspec (Fin (1 / 2 ^ n)) = n"
proof -
  have "log 2 (2 ^ n :: real) = n" by (simp add: log_nat_power)
  then show "log2_steps unspec (Fin (2 ^ n)) = n" "log2_steps unspec (Fin (1 / 2 ^ n)) = n"
    by (simp_all add: log2_steps_def of_rat_power of_rat_divide log_divide)
qed

definition request_wf :: "config \<Rightarrow> stream_request \<Rightarrow> bool" where
  "request_wf c r \<longleftrightarrow>
     sr_port r \<in> {1..65535} \<and> sr_camera r \<in> {0..2 ^ 31 - 1} \<and>
     (sr_channel_type r \<noteq> ChanDigitalIndex \<longrightarrow> 1 \<le> sr_camera r) \<and>
     sr_ip r \<noteq> [] \<and> length (sr_ip r) \<le> 128 \<and>
     sr_username r \<noteq> [] \<and> length (sr_username r) \<le> 63 \<and>
     sr_password r \<noteq> [] \<and> length (sr_password r) \<le> 63 \<and>
     sr_sid r \<noteq> [] \<and> length (sr_sid r) \<le> 128 \<and> is_safe_session_id (sr_sid r) \<and>
     (case sr_option r of
        RealPlay \<Rightarrow> sr_speed r = Fin 1 \<and> sr_start r = 0 \<and> sr_end r = 0
      | Playback \<Rightarrow> (sr_speed r \<in> set valid_speeds \<or> sr_speed r = NaN) \<and>
          0 \<le> sr_start r \<and> sr_start r < sr_end r \<and> sr_end r < 2 ^ 63 \<and>
          sr_end r - sr_start r \<le> max_playback_seconds c)"

lemma required_Some: "required q n = Inr v \<longleftrightarrow> omap_find q n = Some v \<and> v \<noteq> []"
  by (auto simp: required_def split: option.splits)

lemma dbl_eq_Fin1: "dbl_eq v (Fin 1) \<longleftrightarrow> v = Fin 1"
  by (cases v) auto

lemma parse_range_fields:
  assumes "parse_range q c r = Inr r'"
  shows "r' = r\<lparr>sr_start := sr_start r', sr_end := sr_end r'\<rparr>"
    and "sr_option r = RealPlay \<Longrightarrow> r' = r \<and> sr_speed r = Fin 1"
    and "sr_option r = Playback \<Longrightarrow> 0 \<le> sr_start r' \<and> sr_start r' < sr_end r' \<and>
       in_int64 (sr_end r') \<and> sr_end r' - sr_start r' \<le> max_playback_seconds c"
proof -
  show "r' = r\<lparr>sr_start := sr_start r', sr_end := sr_end r'\<rparr>"
    using assms by (auto simp: parse_range_def res_simps split: if_splits)
  show "sr_option r = RealPlay \<Longrightarrow> r' = r \<and> sr_speed r = Fin 1"
    using assms by (simp add: parse_range_def dbl_eq_Fin1 split: if_splits)
  show "sr_option r = Playback \<Longrightarrow> 0 \<le> sr_start r' \<and> sr_start r' < sr_end r' \<and>
       in_int64 (sr_end r') \<and> sr_end r' - sr_start r' \<le> max_playback_seconds c"
    using assms by (auto simp: parse_range_def res_simps dest: parse_long_range)
qed

lemma parse_fields_facts:
  assumes "parse_fields stod q = Inr r"
  shows "in_int32 (sr_camera r)" "sr_ip r \<noteq> []" "sr_username r \<noteq> []" "sr_password r \<noteq> []"
    "sr_sid r \<noteq> []" "sr_speed r \<in> set valid_speeds \<or> sr_speed r = NaN"
    "sr_start r = 0" "sr_end r = 0"
proof -
  obtain opt ip port username password camera sid chan stream speed camera_text where
    "parse_int camera_text = Inr camera" "ip \<noteq> []" "username \<noteq> []" "password \<noteq> []" "sid \<noteq> []"
    "parse_speed stod (query_default q ''speed'' ''1'') = Inr speed"
    "r = \<lparr>sr_option = opt, sr_ip = ip, sr_port = port, sr_username = username,
          sr_password = password, sr_camera = camera, sr_channel_type = chan,
          sr_stream = stream, sr_speed = speed, sr_start = 0, sr_end = 0, sr_sid = sid,
          sr_generation = []\<rparr>"
    using assms unfolding parse_fields_def bind_res_eq_Inr required_Some
    by (elim exE conjE) (drule sym[of "Inr _" "Inr _"], blast)
  then show "in_int32 (sr_camera r)" "sr_ip r \<noteq> []" "sr_username r \<noteq> []" "sr_password r \<noteq> []"
    "sr_sid r \<noteq> []" "sr_speed r \<in> set valid_speeds \<or> sr_speed r = NaN"
    "sr_start r = 0" "sr_end r = 0"
    using parse_int_range parse_speed_valid by auto
qed

lemma parse_stream_request_accepts:
  assumes "parse_stream_request stod q c = Inr r"
  shows "request_wf c r"
proof -
  obtain r0 r1 where f: "parse_fields stod q = Inr r0" and r0: "\<not> limits_exceeded r0"
      "parse_range q c r0 = Inr r1" "r = r1\<lparr>sr_generation := query_default q ''generation'' []\<rparr>"
    using assms by (auto simp: parse_stream_request_def res_simps)
  have r1: "r1 = r0\<lparr>sr_start := sr_start r1, sr_end := sr_end r1\<rparr>"
    using r0(2) by (rule parse_range_fields(1))
  have same: "sr_port r1 = sr_port r0" "sr_camera r1 = sr_camera r0" "sr_ip r1 = sr_ip r0"
      "sr_username r1 = sr_username r0" "sr_password r1 = sr_password r0" "sr_sid r1 = sr_sid r0"
      "sr_channel_type r1 = sr_channel_type r0" "sr_option r1 = sr_option r0" "sr_speed r1 = sr_speed r0"
    by (subst r1, simp)+
  show ?thesis
    using r0 parse_range_fields(2,3)[OF r0(2)] parse_fields_facts[OF f]
    by (cases "sr_option r0")
       (auto simp: request_wf_def same limits_exceeded_def in_int32_def in_int64_def)
qed

section \<open>What a client sends\<close>

definition option_text :: "option_kind \<Rightarrow> string" where
  "option_text o' = (case o' of RealPlay \<Rightarrow> ''realplay'' | Playback \<Rightarrow> ''playback'')"

definition channel_text :: "channel_type \<Rightarrow> string" where
  "channel_text t = (case t of ChanAuto \<Rightarrow> ''auto'' | ChanAnalog \<Rightarrow> ''analog''
     | ChanDigital \<Rightarrow> ''digital'' | ChanDigitalIndex \<Rightarrow> ''digitalIndex'')"

definition stream_text :: "stream_kind \<Rightarrow> string" where
  "stream_text t = (case t of MainStream \<Rightarrow> ''main'' | SubStream \<Rightarrow> ''sub'')"

definition request_params :: "string \<Rightarrow> stream_request \<Rightarrow> (string \<times> string) list" where
  "request_params speed r =
     [(''option'', option_text (sr_option r)), (''ip'', sr_ip r), (''port'', show_int (sr_port r)),
      (''username'', sr_username r), (''password'', sr_password r),
      (''camera'', show_int (sr_camera r)), (''channelType'', channel_text (sr_channel_type r)),
      (''stream'', stream_text (sr_stream r)), (''speed'', speed), (''sid'', sr_sid r),
      (''start'', show_int (sr_start r)), (''end'', show_int (sr_end r)),
      (''generation'', sr_generation r)]"

lemma parse_option_text [simp]: "parse_option (option_text o') = Inr o'"
  by (cases o') (simp_all add: parse_option_def option_text_def)

lemma parse_channel_text [simp]: "parse_channel_type (channel_text t) = Inr t"
  by (cases t) (simp_all add: parse_channel_type_def channel_text_def)

lemma parse_stream_text [simp]: "parse_stream (stream_text s) = Inr s"
  by (cases s) (simp_all add: parse_stream_def stream_text_def)

lemma texts_not_Nil [simp]: "option_text o' \<noteq> []" "channel_text t \<noteq> []" "stream_text s \<noteq> []"
  by (simp_all add: option_text_def channel_text_def stream_text_def
      split: option_kind.split channel_type.split stream_kind.split)

lemma parse_query_params:
  "distinct (map fst kvs) \<Longrightarrow> kvs \<noteq> [] \<Longrightarrow> omap_find (parse_query (render_query kvs)) k = map_of kvs k"
  by (simp add: parse_query_def parse_query_loop_render std_map.lookup_store_all_distinct)

lemma request_params_find:
  "omap_find (parse_query (render_query (request_params speed r))) k = map_of (request_params speed r) k"
  by (rule parse_query_params) (simp_all add: request_params_def)


lemma params_map:
  "map_of (request_params speed r) ''option'' = Some (option_text (sr_option r))"
  "map_of (request_params speed r) ''ip'' = Some (sr_ip r)"
  "map_of (request_params speed r) ''port'' = Some (show_int (sr_port r))"
  "map_of (request_params speed r) ''username'' = Some (sr_username r)"
  "map_of (request_params speed r) ''password'' = Some (sr_password r)"
  "map_of (request_params speed r) ''camera'' = Some (show_int (sr_camera r))"
  "map_of (request_params speed r) ''channelType'' = Some (channel_text (sr_channel_type r))"
  "map_of (request_params speed r) ''stream'' = Some (stream_text (sr_stream r))"
  "map_of (request_params speed r) ''speed'' = Some speed"
  "map_of (request_params speed r) ''sid'' = Some (sr_sid r)"
  "map_of (request_params speed r) ''start'' = Some (show_int (sr_start r))"
  "map_of (request_params speed r) ''end'' = Some (show_int (sr_end r))"
  "map_of (request_params speed r) ''generation'' = Some (sr_generation r)"
  by (simp_all add: request_params_def)

lemma parse_request_params:
  assumes wf: "request_wf c r" and speed: "stod speed = Some (sr_speed r)" "speed \<noteq> []"
  shows "parse_stream_request stod (parse_query (render_query (request_params speed r))) c = Inr r"
proof -
  let ?q = "parse_query (render_query (request_params speed r))"
  have i32: "in_int32 (sr_port r)" "in_int32 (sr_camera r)"
    using wf by (auto simp: request_wf_def in_int32_def)
  have i64: "in_int64 (sr_start r)" "in_int64 (sr_end r)"
    using wf by (auto simp: request_wf_def in_int64_def split: option_kind.splits)
  have valid: "set_count valid_speeds (sr_speed r)"
    using wf by (auto simp: request_wf_def set_count_valid split: option_kind.splits)
  have req: "required ?q n = Inr v" if "map_of (request_params speed r) n = Some v" "v \<noteq> []" for n v
    using that by (simp add: required_Some request_params_find)
  have def': "query_default ?q n d = v" if "map_of (request_params speed r) n = Some v" for n d v
    using that by (simp add: query_default_def request_params_find)
  have fields: "required ?q ''option'' = Inr (option_text (sr_option r))"
      "required ?q ''ip'' = Inr (sr_ip r)" "required ?q ''port'' = Inr (show_int (sr_port r))"
      "required ?q ''username'' = Inr (sr_username r)" "required ?q ''password'' = Inr (sr_password r)"
      "required ?q ''camera'' = Inr (show_int (sr_camera r))" "required ?q ''sid'' = Inr (sr_sid r)"
      "required ?q ''start'' = Inr (show_int (sr_start r))" "required ?q ''end'' = Inr (show_int (sr_end r))"
    using wf by (simp_all add: request_wf_def req params_map)
  have defaults: "query_default ?q ''channelType'' d = channel_text (sr_channel_type r)"
      "query_default ?q ''stream'' d = stream_text (sr_stream r)" "query_default ?q ''speed'' d = speed"
      "query_default ?q ''generation'' d = sr_generation r" for d
    by (simp_all add: def' params_map)
  have lim: "\<not> limits_exceeded r" using wf by (auto simp: request_wf_def limits_exceeded_def)
  then have lim': "\<not> limits_exceeded (r\<lparr>sr_start := 0, sr_end := 0, sr_generation := []\<rparr>)"
    by (simp add: limits_exceeded_def)
  have range: "parse_range ?q c (r\<lparr>sr_start := 0, sr_end := 0, sr_generation := []\<rparr>) =
      Inr (r\<lparr>sr_generation := []\<rparr>)"
    using wf by (cases "sr_option r")
      (auto simp: parse_range_def fields parse_long_show i64 request_wf_def dbl_eq_Fin1)
  have "parse_fields stod ?q = Inr (r\<lparr>sr_start := 0, sr_end := 0, sr_generation := []\<rparr>)"
    using speed(1) valid
    by (simp add: parse_fields_def fields defaults parse_int_show i32 parse_speed_def res_of_option_def)
  then show ?thesis
    using lim' range by (simp add: parse_stream_request_def defaults)
qed


section \<open>Properties\<close>

text \<open>Percent-encoding and query parsing fit together: parsing the encoding of any non-empty
  list of parameters, whatever bytes the names and values contain, gives each name the value it
  was last given, and no other name a value.\<close>

theorem parse_query_roundtrip:
  "kvs \<noteq> [] \<Longrightarrow> omap_find (parse_query (render_query kvs)) k = map_of (rev kvs) k"
  by (simp add: parse_query_def parse_query_loop_render std_map.lookup_store_all split: option.split)

theorem parse_query_roundtrip_witness:
  "omap_find (parse_query (render_query [(''a&b'', ''1+1=2''), (''x'', ''%'')])) ''a&b'' = Some ''1+1=2''"
  by (simp add: parse_query_roundtrip)

text \<open>C29: Every request \<open>parse_stream_request\<close> accepts is well-formed: port, channel and text
  lengths in range, a session id of safe characters only, live requests at speed 1, playback
  requests with a non-empty range inside the configured maximum and one of the nine speeds (or the
  NaN of the next property).\<close>

theorem accepted_request_wf: "parse_stream_request stod q c = Inr r \<Longrightarrow> request_wf c r"
  by (rule parse_stream_request_accepts)

definition example_request :: stream_request where
  "example_request = \<lparr>sr_option = Playback, sr_ip = ''192.0.2.10'', sr_port = 8000,
     sr_username = ''admin'', sr_password = ''p&w'', sr_camera = 33, sr_channel_type = ChanAuto,
     sr_stream = SubStream, sr_speed = Fin (1/2), sr_start = 1783998000, sr_end = 1783998300,
     sr_sid = ''vod-001'', sr_generation = ''7-0''\<rparr>"

lemma example_request_wf: "request_wf default_config example_request"
  by (simp add: request_wf_def example_request_def default_config_def is_safe_session_id_def
      safe_char_def byte_simps valid_speeds_def)

theorem accepted_request_wf_witness:
  "request_wf default_config example_request"
  by (rule accepted_request_wf[OF parse_request_params[where stod = "\<lambda>s. if s = ''0.5'' then Some (Fin (1/2)) else None",
        OF example_request_wf, of "''0.5''"]]) (simp_all add: example_request_def)

text \<open>C30: A well-formed request, sent as percent-encoded parameters, is parsed back to exactly
  itself; all a client has to know of \<open>std::stod\<close> is that it reads the text it sends for the speed.\<close>

theorem request_roundtrip:
  assumes "request_wf c r" and "stod speed = Some (sr_speed r)" and "speed \<noteq> []"
  shows "parse_stream_request stod (parse_query (render_query (request_params speed r))) c = Inr r"
  using assms by (rule parse_request_params)

theorem request_roundtrip_witness:
  "parse_stream_request (\<lambda>s. if s = ''0.5'' then Some (Fin (1/2)) else None)
     (parse_query (render_query (request_params ''0.5'' example_request))) default_config = Inr example_request"
  by (rule request_roundtrip[OF example_request_wf]) (simp_all add: example_request_def)

text \<open>The membership test on a set of doubles accepts a NaN, because neither it nor an element
  is less than the other: whenever \<open>std::stod\<close> yields NaN (it does for the input \<open>nan\<close>), a playback
  request with that speed passes validation.\<close>

theorem nan_speed_accepted:
  assumes "request_wf c r" and "sr_option r = Playback" and "stod speed = Some NaN" and "speed \<noteq> []"
  shows "parse_stream_request stod (parse_query (render_query (request_params speed (r\<lparr>sr_speed := NaN\<rparr>)))) c
    = Inr (r\<lparr>sr_speed := NaN\<rparr>)"
  using assms by (intro parse_request_params) (simp_all add: request_wf_def)

theorem nan_speed_accepted_witness:
  "parse_stream_request (\<lambda>s. if s = ''nan'' then Some NaN else None)
     (parse_query (render_query (request_params ''nan'' (example_request\<lparr>sr_speed := NaN\<rparr>)))) default_config
   = Inr (example_request\<lparr>sr_speed := NaN\<rparr>)"
  by (rule nan_speed_accepted[OF example_request_wf]) (simp_all add: example_request_def)

text \<open>The documented effect of the two playback commands of the device: twice or half the speed.\<close>

fun commanded_speed :: "play_command list \<Rightarrow> rat \<Rightarrow> rat" where
  "commanded_speed [] v = v"
| "commanded_speed (PlayFast # cs) v = commanded_speed cs (2 * v)"
| "commanded_speed (PlaySlow # cs) v = commanded_speed cs (v / 2)"

lemma commanded_speed_replicate:
  "commanded_speed (replicate n PlayFast) v = 2 ^ n * v"
  "commanded_speed (replicate n PlaySlow) v = v / 2 ^ n"
  by (induction n arbitrary: v) (simp_all add: field_simps)

lemma fast_commands: "0 < n \<Longrightarrow> speed_commands unspec (Fin (2 ^ n)) = replicate n PlayFast"
proof -
  assume n: "0 < n"
  then have "(1::rat) < 2 ^ n" by simp
  then have "(2::rat) ^ n \<noteq> 1" "(1::rat) < 2 ^ n" by linarith+
  then show ?thesis by (simp add: speed_commands_def)
qed

lemma slow_commands: "0 < n \<Longrightarrow> speed_commands unspec (Fin (1 / 2 ^ n)) = replicate n PlaySlow"
proof -
  assume n: "0 < n"
  then have "(1::rat) < 2 ^ n" by simp
  then have "\<not> 1 < 1 / (2::rat) ^ n" "1 / (2::rat) ^ n \<noteq> 1" by (auto simp: field_simps)
  then show ?thesis by (simp add: speed_commands_def)
qed

text \<open>From normal speed, the commands issued for each of the nine playback speeds bring the
  device to exactly that speed.\<close>

theorem speed_commands_reach:
  assumes "Fin v \<in> set valid_speeds"
  shows "commanded_speed (speed_commands unspec (Fin v)) 1 = v"
proof -
  have "v = 1 \<or> (\<exists>n\<in>{1, 2, 3, 4}. v = 2 ^ n) \<or> (\<exists>n\<in>{1, 2, 3, 4}. v = 1 / 2 ^ n)"
    using assms by (auto simp: valid_speeds_def)
  then show ?thesis
  proof (elim disjE bexE)
    assume "v = 1"
    then show ?thesis by (simp add: speed_commands_def)
  next
    fix n :: nat assume "n \<in> {1, 2, 3, 4}" "v = 2 ^ n"
    moreover from this have "0 < n" by auto
    ultimately show ?thesis by (simp add: fast_commands commanded_speed_replicate)
  next
    fix n :: nat assume "n \<in> {1, 2, 3, 4}" "v = 1 / 2 ^ n"
    moreover from this have "0 < n" by auto
    ultimately show ?thesis by (simp add: slow_commands commanded_speed_replicate)
  qed
qed

theorem speed_commands_reach_witness: "commanded_speed (speed_commands 0 (Fin (1/8))) 1 = 1/8"
  by (rule speed_commands_reach) (simp add: valid_speeds_def)

end
