(* ===== verification/Machine.thy ===== *)
theory Machine
  imports Bridge_Prelude
begin

text \<open>
  The shared shape of the bridge's stateful components: a state, events that change it one
  mutex-protected step at a time, and an invariant every step keeps.  A run is the list of steps
  in the order the mutex lets them through, so a fact about all runs covers every interleaving of
  the threads.  Components interpret \<open>machine\<close> (or \<open>ordered_machine\<close>, when states only ever move
  forward) and get the facts about runs from here.
\<close>

locale machine =
  fixes step :: "'e \<Rightarrow> 's \<Rightarrow> 's"
    and inv :: "'s \<Rightarrow> bool"
  assumes step_inv: "inv s \<Longrightarrow> inv (step e s)"
begin

definition run :: "'e list \<Rightarrow> 's \<Rightarrow> 's" where
  "run es s = fold step es s"

lemma run_simps [simp]:
  "run [] s = s"
  "run (e # es) s = run es (step e s)"
  by (simp_all add: run_def)

lemma run_append: "run (es @ fs) s = run fs (run es s)"
  by (simp add: run_def)

lemma run_inv: "inv s \<Longrightarrow> inv (run es s)"
  by (induction es arbitrary: s) (auto intro: step_inv)

end

locale ordered_machine = machine step inv
  for step :: "'e \<Rightarrow> 's \<Rightarrow> 's" and inv :: "'s \<Rightarrow> bool" +
  fixes le :: "'s \<Rightarrow> 's \<Rightarrow> bool"
  assumes le_refl: "le s s"
    and le_trans: "le s t \<Longrightarrow> le t u \<Longrightarrow> le s u"
    and step_le: "inv s \<Longrightarrow> le s (step e s)"
begin

lemma run_le: "inv s \<Longrightarrow> le s (run es s)"
proof (induction es arbitrary: s)
  case Nil
  show ?case by (simp add: le_refl)
next
  case (Cons e es)
  have "le (step e s) (run es (step e s))"
    using Cons by (blast intro: step_inv)
  then show ?case using Cons.prems step_le le_trans by simp blast
qed

end

end
