(* ===== verification/Byte_Queue.thy ===== *)
theory Byte_Queue
  imports Machine "HOL-Library.Word"
begin

text \<open>
  \<open>ByteQueue\<close>: the bounded queue between the SDK callback and the FFmpeg input thread.  Every
  method runs under the queue's mutex, and a thread gives the mutex up only while it waits, so the
  atomic steps are: entering \<open>push\<close>, resuming a waiting \<open>push\<close> (because the predicate became true
  or the deadline passed), \<open>pop\<close> at the end of its wait, and \<open>close\<close>.  Sizes are \<open>size_t\<close>; they are
  modelled as \<open>nat\<close>, and \<open>queue_sums_fit\<close> shows that no sum wraps even where \<open>size_t\<close> has 32 bits.
\<close>

type_synonym bytes = "8 word list"

section \<open>The code\<close>

record byte_queue =
  q_limit :: nat
  q_items :: "bytes list"
  q_bytes :: nat
  q_peak_bytes :: nat
  q_backpressure_events :: nat
  q_closed :: bool

definition new_queue :: "nat \<Rightarrow> byte_queue" where
  "new_queue limit = \<lparr>q_limit = limit, q_items = [], q_bytes = 0, q_peak_bytes = 0,
     q_backpressure_events = 0, q_closed = False\<rparr>"

datatype push_result = PushRejected | PushStored | PushWaiting

definition push_commit :: "bytes \<Rightarrow> byte_queue \<Rightarrow> push_result \<times> byte_queue" where
  "push_commit data q =
     (if q_closed q then (PushRejected, q)
      else let b = q_bytes q + length data
           in (PushStored, q\<lparr>q_bytes := b, q_peak_bytes := max (q_peak_bytes q) b,
                             q_items := q_items q @ [data]\<rparr>))"

definition queue_full :: "bytes \<Rightarrow> byte_queue \<Rightarrow> bool" where
  "queue_full data q \<longleftrightarrow> \<not> q_closed q \<and> q_bytes q + length data > q_limit q"

text \<open>\<open>push\<close> up to its wait; \<open>expired\<close> says that the deadline has passed already.\<close>

definition push_enter :: "bytes \<Rightarrow> bool \<Rightarrow> byte_queue \<Rightarrow> push_result \<times> byte_queue" where
  "push_enter data expired q =
     (if q_closed q \<or> data = [] \<or> length data > q_limit q then (PushRejected, q)
      else if queue_full data q then
        (if expired then PushRejected else PushWaiting,
         q\<lparr>q_backpressure_events := q_backpressure_events q + 1\<rparr>)
      else push_commit data q)"

text \<open>The end of the wait: its predicate decides, whether it was woken or timed out.\<close>

definition push_resume :: "bytes \<Rightarrow> byte_queue \<Rightarrow> push_result \<times> byte_queue" where
  "push_resume data q = (if queue_full data q then (PushRejected, q) else push_commit data q)"

definition pop :: "byte_queue \<Rightarrow> bytes option \<times> byte_queue" where
  "pop q =
     (case q_items q of
        [] \<Rightarrow> (None, q)
      | x # xs \<Rightarrow> (Some x, q\<lparr>q_bytes := q_bytes q - length x, q_items := xs\<rparr>))"

definition close :: "byte_queue \<Rightarrow> byte_queue" where
  "close q = q\<lparr>q_closed := True\<rparr>"

definition queue_closed :: "byte_queue \<Rightarrow> bool" where
  "queue_closed q \<longleftrightarrow> q_closed q \<and> q_items q = []"

section \<open>Threads using the queue\<close>

text \<open>The packets whose \<open>push\<close> is waiting, and two history variables: what was stored and what was
  popped, in order.\<close>

record queue_system =
  qs_queue :: byte_queue
  qs_waiting :: "bytes list"
  qs_stored :: "bytes list"
  qs_popped :: "bytes list"

datatype queue_event = EnterPush bytes bool | ResumePush nat | Pop | Close

definition new_system :: "nat \<Rightarrow> queue_system" where
  "new_system limit = \<lparr>qs_queue = new_queue limit, qs_waiting = [], qs_stored = [], qs_popped = []\<rparr>"

definition note_push :: "bytes \<Rightarrow> push_result \<times> byte_queue \<Rightarrow> queue_system \<Rightarrow> queue_system" where
  "note_push data res s =
     (case res of
        (PushRejected, q) \<Rightarrow> s\<lparr>qs_queue := q\<rparr>
      | (PushStored, q) \<Rightarrow> s\<lparr>qs_queue := q, qs_stored := qs_stored s @ [data]\<rparr>
      | (PushWaiting, q) \<Rightarrow> s\<lparr>qs_queue := q, qs_waiting := qs_waiting s @ [data]\<rparr>)"

fun queue_step :: "queue_event \<Rightarrow> queue_system \<Rightarrow> queue_system" where
  "queue_step (EnterPush data expired) s = note_push data (push_enter data expired (qs_queue s)) s"
| "queue_step (ResumePush i) s =
     (if i < length (qs_waiting s) then
        let data = qs_waiting s ! i
        in note_push data (push_resume data (qs_queue s))
             (s\<lparr>qs_waiting := take i (qs_waiting s) @ drop (i + 1) (qs_waiting s)\<rparr>)
      else s)"
| "queue_step Pop s =
     (case pop (qs_queue s) of
        (None, q) \<Rightarrow> s\<lparr>qs_queue := q\<rparr>
      | (Some x, q) \<Rightarrow> s\<lparr>qs_queue := q, qs_popped := qs_popped s @ [x]\<rparr>)"
| "queue_step Close s = s\<lparr>qs_queue := close (qs_queue s)\<rparr>"

section \<open>Invariant\<close>

definition packet_ok :: "nat \<Rightarrow> bytes \<Rightarrow> bool" where
  "packet_ok limit d \<longleftrightarrow> d \<noteq> [] \<and> length d \<le> limit"

definition queue_wf :: "byte_queue \<Rightarrow> bool" where
  "queue_wf q \<longleftrightarrow>
     q_bytes q = sum_list (map length (q_items q)) \<and> q_bytes q \<le> q_peak_bytes q \<and>
     q_peak_bytes q \<le> q_limit q \<and> (\<forall>d\<in>set (q_items q). packet_ok (q_limit q) d)"

definition system_wf :: "queue_system \<Rightarrow> bool" where
  "system_wf s \<longleftrightarrow>
     queue_wf (qs_queue s) \<and> qs_stored s = qs_popped s @ q_items (qs_queue s) \<and>
     (\<forall>d\<in>set (qs_waiting s). packet_ok (q_limit (qs_queue s)) d)"

lemma queue_wf_new: "queue_wf (new_queue limit)"
  by (simp add: queue_wf_def new_queue_def)

lemma push_commit_wf:
  "queue_wf q \<Longrightarrow> packet_ok (q_limit q) d \<Longrightarrow> \<not> queue_full d q \<Longrightarrow> queue_wf (snd (push_commit d q))"
  by (auto simp: push_commit_def queue_wf_def queue_full_def Let_def)

lemma push_commit_items:
  "fst (push_commit d q) = PushStored \<Longrightarrow> q_items (snd (push_commit d q)) = q_items q @ [d]"
  "fst (push_commit d q) \<noteq> PushStored \<Longrightarrow> snd (push_commit d q) = q"
  "fst (push_commit d q) \<noteq> PushWaiting"
  "q_limit (snd (push_commit d q)) = q_limit q"
  "fst (push_commit d q) = PushStored \<longleftrightarrow> \<not> q_closed q"
  by (auto simp: push_commit_def Let_def split: if_splits)

lemma push_enter_wf:
  assumes "queue_wf q"
  shows "queue_wf (snd (push_enter d e q))"
proof (cases "q_closed q \<or> d = [] \<or> length d > q_limit q \<or> queue_full d q")
  case True
  then show ?thesis using assms by (auto simp: push_enter_def queue_wf_def)
next
  case False
  then show ?thesis using push_commit_wf[OF assms, of d] by (auto simp: push_enter_def packet_ok_def)
qed

lemma push_enter_items:
  "fst (push_enter d e q) = PushStored \<Longrightarrow> q_items (snd (push_enter d e q)) = q_items q @ [d]"
  "fst (push_enter d e q) \<noteq> PushStored \<Longrightarrow> q_items (snd (push_enter d e q)) = q_items q"
  "q_limit (snd (push_enter d e q)) = q_limit q"
  "fst (push_enter d e q) \<noteq> PushRejected \<Longrightarrow> packet_ok (q_limit q) d"
  by (auto simp: push_enter_def push_commit_items packet_ok_def split: if_splits)

lemma push_resume_wf:
  "queue_wf q \<Longrightarrow> packet_ok (q_limit q) d \<Longrightarrow> queue_wf (snd (push_resume d q))"
  by (auto simp: push_resume_def push_commit_wf)

lemma push_resume_items:
  "fst (push_resume d q) = PushStored \<Longrightarrow> q_items (snd (push_resume d q)) = q_items q @ [d]"
  "fst (push_resume d q) \<noteq> PushStored \<Longrightarrow> q_items (snd (push_resume d q)) = q_items q"
  "fst (push_resume d q) \<noteq> PushWaiting"
  "q_limit (snd (push_resume d q)) = q_limit q"
  by (auto simp: push_resume_def push_commit_items split: if_splits)

lemma pop_wf: "queue_wf q \<Longrightarrow> queue_wf (snd (pop q))"
  by (auto simp: pop_def queue_wf_def split: list.split)

lemma pop_items:
  "fst (pop q) = None \<Longrightarrow> q_items q = [] \<and> snd (pop q) = q"
  "fst (pop q) = Some x \<Longrightarrow> q_items q = x # q_items (snd (pop q))"
  "q_limit (snd (pop q)) = q_limit q"
  "q_closed (snd (pop q)) = q_closed q"
  by (auto simp: pop_def split: list.splits)

lemma note_push_wf:
  assumes "queue_wf q'" "q_limit q' = q_limit (qs_queue s)" "system_wf s"
    and "res = PushStored \<Longrightarrow> q_items q' = q_items (qs_queue s) @ [d]"
    and "res \<noteq> PushStored \<Longrightarrow> q_items q' = q_items (qs_queue s)"
    and "res = PushWaiting \<Longrightarrow> packet_ok (q_limit q') d"
  shows "system_wf (note_push d (res, q') s)"
  using assms by (cases res) (auto simp: note_push_def system_wf_def)

lemma queue_step_wf: "system_wf s \<Longrightarrow> system_wf (queue_step e s)"
proof (induction e s rule: queue_step.induct)
  case (1 d e s)
  then have "queue_wf (qs_queue s)" by (simp add: system_wf_def)
  then show ?case
    using 1 push_enter_items[of d e "qs_queue s"] note_push_wf[of "snd (push_enter d e (qs_queue s))" s "fst (push_enter d e (qs_queue s))" d]
    by (simp add: push_enter_wf)
next
  case (2 i s)
  let ?s = "s\<lparr>qs_waiting := take i (qs_waiting s) @ drop (i + 1) (qs_waiting s)\<rparr>"
  let ?d = "qs_waiting s ! i"
  have q: "queue_wf (qs_queue s)" using 2 by (simp add: system_wf_def)
  show ?case
  proof (cases "i < length (qs_waiting s)")
    case True
    then have d: "packet_ok (q_limit (qs_queue s)) ?d"
      using 2 by (simp add: system_wf_def)
    have "system_wf ?s"
      using 2 by (auto simp: system_wf_def dest: in_set_takeD in_set_dropD)
    then show ?thesis
      using True push_resume_wf[OF q d] push_resume_items[of ?d "qs_queue s"]
        note_push_wf[of "snd (push_resume ?d (qs_queue s))" ?s "fst (push_resume ?d (qs_queue s))" ?d]
      by (simp add: Let_def)
  qed (use 2 in simp)
next
  case (3 s)
  then show ?case
    using pop_wf[of "qs_queue s"] pop_items[of "qs_queue s"]
    by (auto simp: system_wf_def split: prod.split option.split)
next
  case (4 s)
  then show ?case by (simp add: system_wf_def close_def queue_wf_def)
qed

interpretation queue_machine: machine queue_step system_wf
  by unfold_locales (rule queue_step_wf)

lemma system_wf_new: "system_wf (new_system limit)"
  by (simp add: system_wf_def new_system_def queue_wf_new) (simp add: new_queue_def)

lemma queue_step_limit: "q_limit (qs_queue (queue_step e s)) = q_limit (qs_queue s)"
  by (induction e s rule: queue_step.induct)
     (auto simp: note_push_def push_enter_def push_resume_def push_commit_def pop_def close_def Let_def
       split: prod.split option.split push_result.split list.split)

lemma run_limit: "q_limit (qs_queue (queue_machine.run es s)) = q_limit (qs_queue s)"
  by (induction es arbitrary: s) (simp_all add: queue_step_limit)


section \<open>The queue as its users see it\<close>

text \<open>What the SDK callback and the FFmpeg input thread rely on: packets come out in the order
  they were accepted, a refused packet changes nothing that can be taken out, and a shut queue
  accepts nothing more but can still be emptied.\<close>

locale byte_fifo =
  fixes put :: "bytes \<Rightarrow> 'q \<Rightarrow> bool \<times> 'q"
    and take_out :: "'q \<Rightarrow> bytes option \<times> 'q"
    and shut :: "'q \<Rightarrow> 'q"
    and contents :: "'q \<Rightarrow> bytes list"
    and is_shut :: "'q \<Rightarrow> bool"
  assumes put_accepted: "fst (put d q) \<Longrightarrow> contents (snd (put d q)) = contents q @ [d]"
    and put_refused: "\<not> fst (put d q) \<Longrightarrow> contents (snd (put d q)) = contents q"
    and put_shut: "is_shut q \<Longrightarrow> \<not> fst (put d q)"
    and put_is_shut: "is_shut (snd (put d q)) = is_shut q"
    and take_first: "fst (take_out q) = (case contents q of [] \<Rightarrow> None | d # ds \<Rightarrow> Some d)"
    and take_rest: "contents (snd (take_out q)) = tl (contents q)"
    and take_is_shut: "is_shut (snd (take_out q)) = is_shut q"
    and shut_contents: "contents (shut q) = contents q"
    and shut_is_shut: "is_shut (shut q)"
begin

text \<open>What \<open>accept_data\<close> does with a packet: a refused one shuts the queue.\<close>

definition offer :: "bytes \<Rightarrow> 'q \<Rightarrow> bool \<times> 'q" where
  "offer d q = (if fst (put d q) then put d q else (False, shut (snd (put d q))))"

lemma offer_contents: "contents (snd (offer d q)) = contents q @ (if fst (offer d q) then [d] else [])"
  by (simp add: offer_def put_accepted put_refused shut_contents)

lemma offer_refused_shuts: "\<not> fst (offer d q) \<Longrightarrow> is_shut (snd (offer d q))"
  by (simp add: offer_def shut_is_shut split: if_splits)

lemma offer_shut: "is_shut q \<Longrightarrow> \<not> fst (offer d q) \<and> contents (snd (offer d q)) = contents q"
  using offer_contents[of d q] put_shut[of q d] by (simp add: offer_def)

text \<open>The input thread takes packets until the queue has none.\<close>

primrec drain :: "nat \<Rightarrow> 'q \<Rightarrow> bytes list \<times> 'q" where
  "drain 0 q = ([], q)"
| "drain (Suc n) q =
     (case take_out q of
        (None, q') \<Rightarrow> ([], q')
      | (Some d, q') \<Rightarrow> (d # fst (drain n q'), snd (drain n q')))"

lemma drain_Suc:
  "drain (Suc n) q =
     (case contents q of
        [] \<Rightarrow> ([], snd (take_out q))
      | d # ds \<Rightarrow> (d # fst (drain n (snd (take_out q))), snd (drain n (snd (take_out q)))))"
  using take_first[of q] by (cases "take_out q") (auto split: list.splits)

lemma drain_order: "fst (drain n q) = take n (contents q)"
  by (induction n arbitrary: q) (auto simp: drain_Suc take_rest simp del: drain.simps(2) split: list.split)

lemma drain_contents: "contents (snd (drain n q)) = drop n (contents q)"
  by (induction n arbitrary: q) (auto simp: drain_Suc take_rest simp del: drain.simps(2) split: list.split)

end

definition push_now :: "bytes \<Rightarrow> byte_queue \<Rightarrow> bool \<times> byte_queue" where
  "push_now d q = (fst (push_enter d True q) = PushStored, snd (push_enter d True q))"

lemma push_enter_closed:
  "q_closed (snd (push_enter d e q)) = q_closed q"
  "q_closed q \<Longrightarrow> push_enter d e q = (PushRejected, q)"
  by (auto simp: push_enter_def push_commit_def Let_def)

lemma push_resume_closed:
  "q_closed (snd (push_resume d q)) = q_closed q"
  "q_closed q \<Longrightarrow> push_resume d q = (PushRejected, q)"
  by (auto simp: push_resume_def push_commit_def Let_def queue_full_def)

lemma push_now_facts:
  "fst (push_now d q) \<Longrightarrow> q_items (snd (push_now d q)) = q_items q @ [d]"
  "\<not> fst (push_now d q) \<Longrightarrow> q_items (snd (push_now d q)) = q_items q"
  "q_closed q \<Longrightarrow> \<not> fst (push_now d q)"
  "q_closed (snd (push_now d q)) = q_closed q"
  unfolding push_now_def fst_conv snd_conv
  using push_enter_items(1)[of d True q] push_enter_items(2)[of d True q]
    push_enter_closed(1)[of d True q] push_enter_closed(2)[of q d True]
  by simp_all

lemma pop_facts:
  "fst (pop q) = (case q_items q of [] \<Rightarrow> None | d # ds \<Rightarrow> Some d)"
  "q_items (snd (pop q)) = tl (q_items q)"
  by (simp_all add: pop_def split: list.split)

interpretation media_queue: byte_fifo push_now pop close q_items q_closed
  by unfold_locales (simp_all add: push_now_facts pop_facts pop_items(4), simp_all add: close_def)

lemma closed_step:
  "q_closed (qs_queue s) \<Longrightarrow> q_closed (qs_queue (queue_step e s)) \<and> qs_stored (queue_step e s) = qs_stored s"
  by (induction e s rule: queue_step.induct)
     (simp_all add: push_enter_closed(2) push_resume_closed(2) note_push_def close_def Let_def pop_def
       split: list.split)

lemma closed_run:
  "q_closed (qs_queue s) \<Longrightarrow> qs_stored (queue_machine.run es s) = qs_stored s"
  by (induction es arbitrary: s) (simp_all add: closed_step)

section \<open>Properties\<close>

text \<open>C14: In every interleaving of pushing, waiting, popping and closing threads, the packets that
  were stored are exactly the packets that were popped followed by those still queued, in order: no
  packet is lost, duplicated or reordered once \<open>push\<close> has returned true.\<close>

theorem queue_fifo:
  "qs_stored (queue_machine.run es (new_system limit)) =
     qs_popped (queue_machine.run es (new_system limit)) @
     q_items (qs_queue (queue_machine.run es (new_system limit)))"
  using queue_machine.run_inv[OF system_wf_new, of es limit] by (simp add: system_wf_def)

text \<open>In every interleaving the byte counter is the number of queued bytes, and neither it nor
  the reported peak ever exceeds the configured limit.\<close>

theorem queue_bounded:
  "q_bytes (qs_queue (queue_machine.run es (new_system limit))) =
     sum_list (map length (q_items (qs_queue (queue_machine.run es (new_system limit))))) \<and>
   q_bytes (qs_queue (queue_machine.run es (new_system limit))) \<le>
     q_peak_bytes (qs_queue (queue_machine.run es (new_system limit))) \<and>
   q_peak_bytes (qs_queue (queue_machine.run es (new_system limit))) \<le> limit"
  using queue_machine.run_inv[OF system_wf_new, of es limit] run_limit[of es "new_system limit"]
  by (simp add: system_wf_def queue_wf_def) (simp add: new_system_def new_queue_def)

text \<open>The sum \<open>bytes_ + data.size()\<close> that \<open>push\<close> compares with the limit does not wrap around
  even in 32-bit arithmetic, for a packet that passed the size check and a limit that came from a
  configuration.\<close>

theorem queue_sums_fit:
  assumes "limit < 2 ^ 31" and "length d \<le> limit"
  shows "unat (of_nat (q_bytes (qs_queue (queue_machine.run es (new_system limit)))) + of_nat (length d) :: 32 word)
    = q_bytes (qs_queue (queue_machine.run es (new_system limit))) + length d"
proof -
  have "q_bytes (qs_queue (queue_machine.run es (new_system limit))) \<le> limit"
    using queue_machine.run_inv[OF system_wf_new, of es limit] run_limit[of es "new_system limit"]
    by (simp add: system_wf_def queue_wf_def) (simp add: new_system_def new_queue_def)
  then have "q_bytes (qs_queue (queue_machine.run es (new_system limit))) + length d < 2 ^ 32"
    using assms by simp
  then show ?thesis
    by (simp flip: of_nat_add add: unat_of_nat take_bit_nat_eq_self)
qed

theorem queue_sums_fit_witness:
  "unat (of_nat (q_bytes (qs_queue (queue_machine.run [EnterPush [1, 2, 3] False] (new_system 10)))) +
     of_nat (length [4, 5 :: 8 word]) :: 32 word)
   = q_bytes (qs_queue (queue_machine.run [EnterPush [1, 2, 3] False] (new_system 10))) + 2"
  using queue_sums_fit[of 10 "[4, 5]" "[EnterPush [1, 2, 3] False]"] by simp

text \<open>Once the queue is closed nothing is stored any more, not even by a push that was already
  waiting, and emptying it delivers exactly what was queued, in order.\<close>

theorem close_is_final:
  "qs_stored (queue_machine.run es (queue_step Close s)) = qs_stored s \<and>
   fst (media_queue.drain (length (q_items (qs_queue s))) (qs_queue (queue_step Close s))) = q_items (qs_queue s)"
  using closed_run[of "queue_step Close s" es]
  by (simp add: close_def media_queue.drain_order)

end
