(* ===== verification/Channel_Topology.thy ===== *)
theory Channel_Topology
  imports Stream_Request "HOL-Library.Word"
begin

unbundle bit_operations_syntax

text \<open>
  \<open>NvrChannelTopology\<close>: which channels the device has, from the login information and (when the
  call succeeds) the IP channel configuration, and how a requested camera becomes an SDK channel.
  The two structures are the vendor's; the model has the fields the code reads, at their width.
  The vendor's constant \<open>MAX_CHANNUM_V30\<close>, the length of the enable array, is a parameter.
\<close>

section \<open>The code\<close>

record device_info =
  by_chan_num :: "8 word"
  by_start_chan :: "8 word"
  by_start_dchan :: "8 word"
  by_ip_chan_num :: "8 word"
  by_high_dchan_num :: "8 word"

record ip_config =
  dw_achan_num :: "32 word"
  dw_dchan_num :: "32 word"
  dw_start_dchan :: "32 word"
  by_analog_chan_enable :: "8 word list"

record topology =
  analog_start :: int
  analog_count :: int
  digital_start :: int
  digital_count :: int
  analog_enabled :: "bool list"
  ip_parameter_config_read :: bool

datatype resolved_type = ResolvedAnalog | ResolvedDigital | ResolvedUnknown

definition login_topology :: "nat \<Rightarrow> device_info \<Rightarrow> topology" where
  "login_topology max_chan d =
     (let count = uint (by_chan_num d); start = uint (by_start_chan d)
      in \<lparr>analog_start = (if count > 0 \<and> start = 0 then 1 else start), analog_count = count,
          digital_start = uint (by_start_dchan d),
          digital_count = uint (by_ip_chan_num d) OR push_bit 8 (uint (by_high_dchan_num d)),
          analog_enabled = map (\<lambda>index. int index < count) [0..<max_chan],
          ip_parameter_config_read = False\<rparr>)"

definition read_topology :: "nat \<Rightarrow> device_info \<Rightarrow> ip_config option \<Rightarrow> topology" where
  "read_topology max_chan d ip =
     (let t = login_topology max_chan d
      in case ip of
           None \<Rightarrow> t
         | Some c \<Rightarrow>
             t\<lparr>ip_parameter_config_read := True,
               analog_count := (if dw_achan_num c > 0 then max (analog_count t) (sint (dw_achan_num c))
                                else analog_count t),
               digital_count := (if dw_dchan_num c > 0 then max (digital_count t) (sint (dw_dchan_num c))
                                 else digital_count t),
               digital_start := (if dw_start_dchan c > 0 then sint (dw_start_dchan c) else digital_start t),
               analog_enabled := (if dw_achan_num c > 0
                                  then map (\<lambda>index. by_analog_chan_enable c ! index \<noteq> 0) [0..<max_chan]
                                  else analog_enabled t)\<rparr>)"

definition is_analog :: "topology \<Rightarrow> int \<Rightarrow> bool" where
  "is_analog t camera \<longleftrightarrow>
     analog_count t > 0 \<and> camera \<ge> analog_start t \<and> camera < analog_start t + analog_count t"

definition is_digital :: "topology \<Rightarrow> int \<Rightarrow> bool" where
  "is_digital t camera \<longleftrightarrow>
     digital_count t > 0 \<and> camera \<ge> digital_start t \<and> camera < digital_start t + digital_count t"

definition analog_disabled :: "topology \<Rightarrow> int \<Rightarrow> bool" where
  "analog_disabled t camera \<longleftrightarrow>
     (let index = camera - analog_start t
      in ip_parameter_config_read t \<and>
         (index < 0 \<or> index \<ge> int (length (analog_enabled t)) \<or> \<not> analog_enabled t ! nat index))"

definition ensure_analog_enabled :: "topology \<Rightarrow> int \<Rightarrow> unit res" where
  "ensure_analog_enabled t camera =
     reject_if (analog_disabled t camera) (BridgeError 422 ''ANALOG_CHANNEL_DISABLED'')"

definition resolve :: "topology \<Rightarrow> int \<Rightarrow> channel_type \<Rightarrow> (resolved_type \<times> int) res" where
  "resolve t camera requested =
     (if requested = ChanAnalog then
        if analog_count t \<le> 0 then Inl (BridgeError 422 ''ANALOG_CHANNEL_UNSUPPORTED'')
        else if \<not> is_analog t camera then Inl (BridgeError 422 ''ANALOG_CHANNEL_OUT_OF_RANGE'')
        else bind_res (ensure_analog_enabled t camera) (\<lambda>_. Inr (ResolvedAnalog, camera))
      else if requested = ChanDigital then
        if digital_count t \<le> 0 then Inl (BridgeError 422 ''DIGITAL_CHANNEL_UNSUPPORTED'')
        else if \<not> is_digital t camera then Inl (BridgeError 422 ''DIGITAL_CHANNEL_OUT_OF_RANGE'')
        else Inr (ResolvedDigital, camera)
      else if requested = ChanDigitalIndex then
        if digital_count t \<le> 0 then Inl (BridgeError 422 ''DIGITAL_CHANNEL_UNSUPPORTED'')
        else if camera < 0 \<or> camera \<ge> digital_count t
          then Inl (BridgeError 422 ''DIGITAL_CHANNEL_INDEX_OUT_OF_RANGE'')
        else Inr (ResolvedDigital, digital_start t + camera)
      else if is_analog t camera then
        bind_res (ensure_analog_enabled t camera) (\<lambda>_. Inr (ResolvedAnalog, camera))
      else if is_digital t camera then Inr (ResolvedDigital, camera)
      else Inl (BridgeError 422 ''CHANNEL_NOT_FOUND''))"

section \<open>Facts\<close>

lemma or_shift_add:
  fixes a b :: "8 word"
  shows "uint a OR push_bit 8 (uint b) = uint a + 256 * uint b"
proof -
  have "uint a AND push_bit 8 (uint b) = 0"
  proof (rule bit_eqI)
    fix n
    have "\<not> bit (uint a) n" if "8 \<le> n" using that by (auto simp: bit_uint_iff dest: bit_imp_le_length)
    then show "bit (uint a AND push_bit 8 (uint b)) n \<longleftrightarrow> bit (0 :: int) n"
      by (auto simp: bit_simps)
  qed
  then have "uint a OR push_bit 8 (uint b) = uint a + push_bit 8 (uint b)"
    by (simp add: disjunctive_add_eq_or)
  then show ?thesis by (simp add: push_bit_eq_mult)
qed

lemma uint8_bound [simp]: "0 \<le> uint (a :: 8 word)" "uint (a :: 8 word) < 256"
  using uint_lt2p[of a] by simp_all

text \<open>A device that reports less than the login did is not believed.\<close>

lemma read_topology_counts:
  "uint (by_chan_num d) \<le> analog_count (read_topology m d ip)"
  "uint (by_ip_chan_num d) + 256 * uint (by_high_dchan_num d) \<le> digital_count (read_topology m d ip)"
  by (auto simp: read_topology_def login_topology_def Let_def or_shift_add split: option.split)

lemma read_topology_enabled: "length (analog_enabled (read_topology m d ip)) = m"
  by (simp add: read_topology_def login_topology_def Let_def split: option.split)

lemma resolve_analog:
  "resolve t camera ty = Inr (ResolvedAnalog, ch) \<Longrightarrow>
     ch = camera \<and> is_analog t ch \<and> \<not> analog_disabled t ch \<and> (ty = ChanAnalog \<or> ty = ChanAuto)"
  by (cases ty) (auto simp: resolve_def ensure_analog_enabled_def res_simps split: if_splits)

lemma resolve_digital:
  "resolve t camera ty = Inr (ResolvedDigital, ch) \<Longrightarrow>
     is_digital t ch \<and> ch = (if ty = ChanDigitalIndex then digital_start t + camera else camera)"
  by (cases ty) (auto simp: resolve_def ensure_analog_enabled_def res_simps is_digital_def split: if_splits)

lemma resolve_known: "resolve t camera ty \<noteq> Inr (ResolvedUnknown, ch)"
  by (cases ty) (auto simp: resolve_def ensure_analog_enabled_def res_simps split: if_splits)

section \<open>Properties\<close>


definition example_device :: device_info where
  "example_device = \<lparr>by_chan_num = 4, by_start_chan = 0, by_start_dchan = 33, by_ip_chan_num = 16,
     by_high_dchan_num = 1\<rparr>"


text \<open>Digital indexes are a numbering of the digital channels from zero: the channels that index
  requests can reach are exactly the channels that direct digital requests can name, and different
  indexes reach different channels.\<close>

theorem digital_index_bijection:
  "bij_betw (\<lambda>i. digital_start t + i)
     {i. is_ok (resolve t i ChanDigitalIndex)} {ch. is_ok (resolve t ch ChanDigital)} \<and>
   (\<forall>i. is_ok (resolve t i ChanDigitalIndex) \<longrightarrow>
      resolve t i ChanDigitalIndex = resolve t (digital_start t + i) ChanDigital)"
proof -
  have i: "is_ok (resolve t i ChanDigitalIndex) \<longleftrightarrow> 0 \<le> i \<and> i < digital_count t" for i
    by (simp add: resolve_def not_less not_le)
  have c: "is_ok (resolve t ch ChanDigital) \<longleftrightarrow> is_digital t ch" for ch
    by (auto simp: resolve_def is_digital_def)
  have img: "(\<lambda>i. digital_start t + i) ` {i. 0 \<le> i \<and> i < digital_count t} = {ch. is_digital t ch}"
  proof (intro set_eqI iffI)
    fix ch assume "ch \<in> {ch. is_digital t ch}"
    then show "ch \<in> (\<lambda>i. digital_start t + i) ` {i. 0 \<le> i \<and> i < digital_count t}"
      by (intro image_eqI[of _ _ "ch - digital_start t"]) (auto simp: is_digital_def)
  qed (auto simp: is_digital_def)
  show ?thesis
    unfolding i c bij_betw_def using img
    by (auto simp: inj_on_def resolve_def is_digital_def)
qed

theorem digital_index_bijection_witness:
  "resolve (read_topology 64 example_device None) 7 ChanDigitalIndex =
   resolve (read_topology 64 example_device None) 40 ChanDigital"
proof -
  let ?t = "read_topology 64 example_device None"
  have start: "digital_start ?t = 33"
    by (simp add: read_topology_def login_topology_def example_device_def Let_def)
  have "is_ok (resolve ?t 7 ChanDigitalIndex)"
    by (simp add: resolve_def read_topology_def login_topology_def example_device_def Let_def or_shift_add
        push_bit_eq_mult)
  from conjunct2[OF digital_index_bijection, rule_format, OF this] start show ?thesis by simp
qed

text \<open>A device that has analog channels 1 to \<open>n\<close> and reads its IP configuration resolves an
  automatic request for an analog channel exactly when the configuration enables it; the error is
  then the disabled-channel error and never a silent switch to a digital channel.\<close>

theorem auto_analog_enabled:
  assumes "ip_parameter_config_read t" and "is_analog t camera"
    and "camera - analog_start t < int (length (analog_enabled t))"
  shows "resolve t camera ChanAuto =
    (if analog_enabled t ! nat (camera - analog_start t) then Inr (ResolvedAnalog, camera)
     else Inl (BridgeError 422 ''ANALOG_CHANNEL_DISABLED''))"
  using assms
  by (auto simp: resolve_def ensure_analog_enabled_def analog_disabled_def is_analog_def Let_def)

definition example_ip :: ip_config where
  "example_ip = \<lparr>dw_achan_num = 4, dw_dchan_num = 0, dw_start_dchan = 0,
     by_analog_chan_enable = [1, 0, 1, 1]\<rparr>"

theorem auto_analog_enabled_witness:
  "resolve (read_topology 4 example_device (Some example_ip)) 2 ChanAuto =
     Inl (BridgeError 422 ''ANALOG_CHANNEL_DISABLED'')"
  by (subst auto_analog_enabled)
     (simp_all add: read_topology_def login_topology_def example_device_def example_ip_def Let_def
       is_analog_def upt_rec)

end
