(* ===== verification/Session_Status.thy ===== *)
theory Session_Status
  imports Machine Ordered_Map "HOL-Library.Signed_Division"
begin

text \<open>
  \<open>StreamEndReason\<close> and \<open>SessionStatusRegistry\<close>: the short-lived record of every session that
  \<open>/session-status\<close> answers from.  Each method runs under the registry's mutex and is one
  function here.  The readings of the two clocks are arguments, in the order the code takes them:
  the steady clock in nanoseconds, \<open>std::time\<close> in seconds.  The messages are the UTF-8 bytes of the
  source's literals.
\<close>

section \<open>Why a stream ended\<close>

datatype stream_end_reason =
    Active | ManualCleanup | PlaybackEnd | PlaybackPositionError | QueueOverflow | SdkDataTimeout
  | SdkKeepAliveFailed | FfmpegExit | FfmpegOutputTimeout | ClientWriteTimeout | ClientReplaced
  | ServerStopped | StartupFailed | StreamEnded

fun end_reason_name :: "stream_end_reason \<Rightarrow> string" where
  "end_reason_name ManualCleanup = ''manual_cleanup''"
| "end_reason_name PlaybackEnd = ''playback_end''"
| "end_reason_name PlaybackPositionError = ''playback_position_error''"
| "end_reason_name QueueOverflow = ''queue_overflow''"
| "end_reason_name SdkDataTimeout = ''sdk_data_timeout''"
| "end_reason_name SdkKeepAliveFailed = ''sdk_keepalive_failed''"
| "end_reason_name FfmpegExit = ''ffmpeg_exit''"
| "end_reason_name FfmpegOutputTimeout = ''ffmpeg_output_timeout''"
| "end_reason_name ClientWriteTimeout = ''client_write_timeout''"
| "end_reason_name ClientReplaced = ''client_replaced''"
| "end_reason_name ServerStopped = ''server_stopped''"
| "end_reason_name StartupFailed = ''startup_failed''"
| "end_reason_name StreamEnded = ''stream_ended''"
| "end_reason_name Active = ''active''"

definition utf8 :: "nat list \<Rightarrow> string" where
  "utf8 = map char_of"

fun end_reason_message :: "stream_end_reason \<Rightarrow> string" where
  "end_reason_message ManualCleanup = utf8
       [230, 146, 173, 230, 148, 190, 229, 183, 178, 232, 162, 171, 230, 184, 133, 231,
        144, 134, 239, 188, 140, 232, 175, 183, 231, 130, 185, 229, 135, 187, 230,
        146, 173, 230, 148, 190, 233, 135, 141, 230, 150, 176, 232, 191, 158, 230,
        142, 165, 227, 128, 130]"
| "end_reason_message PlaybackEnd = utf8
       [229, 155, 158, 230, 148, 190, 229, 183, 178, 229, 136, 176, 232, 190, 190, 232,
        175, 183, 230, 177, 130, 231, 154, 132, 231, 187, 147, 230, 157, 159, 230,
        151, 182, 233, 151, 180]"
| "end_reason_message PlaybackPositionError = utf8
       [72, 67, 78, 101, 116, 83, 68, 75, 32, 229, 155, 158, 230, 148, 190, 228, 189, 141,
        231, 189, 174, 231, 138, 182, 230, 128, 129, 229, 188, 130, 229, 184, 184]"
| "end_reason_message QueueOverflow = utf8
       [72, 67, 78, 101, 116, 83, 68, 75, 32, 229, 170, 146, 228, 189, 147, 233, 152, 159,
        229, 136, 151, 229, 156, 168, 233, 153, 144, 229, 174, 154, 232, 131, 140,
        229, 142, 139, 229, 144, 142, 228, 187, 141, 230, 140, 129, 231, 187, 173,
        230, 187, 161, 232, 189, 189]"
| "end_reason_message SdkDataTimeout = utf8
       [72, 67, 78, 101, 116, 83, 68, 75, 32, 230, 156, 170, 231, 187, 167, 231, 187, 173,
        232, 190, 147, 229, 135, 186, 229, 170, 146, 228, 189, 147, 230, 149, 176,
        230, 141, 174]"
| "end_reason_message SdkKeepAliveFailed = utf8
       [72, 67, 78, 101, 116, 83, 68, 75, 32, 229, 155, 158, 230, 148, 190, 228, 191, 157,
        230, 180, 187, 232, 191, 158, 231, 187, 173, 229, 164, 177, 232, 180, 165]"
| "end_reason_message FfmpegExit = utf8
       [70, 70, 109, 112, 101, 103, 32, 229, 156, 168, 232, 167, 134, 233, 162, 145, 231,
        187, 147, 230, 157, 159, 229, 137, 141, 233, 128, 128, 229, 135, 186]"
| "end_reason_message FfmpegOutputTimeout = utf8
       [70, 70, 109, 112, 101, 103, 32, 230, 140, 129, 231, 187, 173, 230, 151, 160, 232,
        190, 147, 229, 135, 186, 239, 188, 140, 228, 188, 154, 232, 175, 157, 229,
        183, 178, 231, 187, 147, 230, 157, 159]"
| "end_reason_message ClientWriteTimeout = utf8
       [230, 181, 143, 232, 167, 136, 229, 153, 168, 230, 140, 129, 231, 187, 173, 230,
        156, 170, 230, 142, 165, 230, 148, 182, 232, 167, 134, 233, 162, 145, 239,
        188, 140, 228, 188, 154, 232, 175, 157, 229, 183, 178, 231, 187, 147, 230,
        157, 159]"
| "end_reason_message ClientReplaced = utf8
       [230, 181, 143, 232, 167, 136, 229, 153, 168, 228, 184, 187, 229, 138, 168, 229,
        129, 156, 230, 173, 162, 230, 136, 150, 230, 155, 191, 230, 141, 162, 228,
        186, 134, 232, 167, 134, 233, 162, 145, 230, 181, 129]"
| "end_reason_message ServerStopped = utf8
       [230, 161, 165, 230, 142, 165, 230, 156, 141, 229, 138, 161, 230, 173, 163, 229,
        156, 168, 229, 129, 156, 230, 173, 162]"
| "end_reason_message StartupFailed = utf8
       [232, 167, 134, 233, 162, 145, 230, 181, 129, 229, 144, 175, 229, 138, 168, 229,
        164, 177, 232, 180, 165]"
| "end_reason_message _ = utf8
       [232, 167, 134, 233, 162, 145, 230, 181, 129, 229, 188, 130, 229, 184, 184, 231,
        187, 147, 230, 157, 159]"

declare end_reason_message.simps [simp del]

section \<open>The code\<close>

record session_status =
  ss_sid :: string
  ss_status :: string
  ss_end_reason :: string
  ss_message :: string
  ss_queue_current :: nat
  ss_queue_peak :: nat
  ss_backpressure :: nat
  ss_updated :: int
  ss_started :: int
  ss_output_ready :: "int option"
  ss_first_frame :: "int option"
  ss_output_ready_utc :: "int option"
  ss_first_frame_utc :: "int option"
  ss_client_elapsed_ms :: int
  ss_updated_utc :: int

type_synonym statuses = "session_status omap"

text \<open>\<open>SessionStatus{sid}\<close>: the member initialisers read the clocks in declaration order.\<close>

definition new_status :: "int \<Rightarrow> int \<Rightarrow> int \<Rightarrow> string \<Rightarrow> session_status" where
  "new_status updated started utc sid =
     \<lparr>ss_sid = sid, ss_status = ''active'', ss_end_reason = ''active'', ss_message = [],
      ss_queue_current = 0, ss_queue_peak = 0, ss_backpressure = 0, ss_updated = updated,
      ss_started = started, ss_output_ready = None, ss_first_frame = None,
      ss_output_ready_utc = None, ss_first_frame_utc = None, ss_client_elapsed_ms = 0,
      ss_updated_utc = utc\<rparr>"

definition retention_ns :: int where
  "retention_ns = 10 * 60 * 1000000000"

definition cleanup_locked :: "int \<Rightarrow> statuses \<Rightarrow> statuses" where
  "cleanup_locked now m = omap_erase_if (\<lambda>v. ss_updated v < now - retention_ns) m"

definition set_active :: "int \<Rightarrow> int \<Rightarrow> int \<Rightarrow> int \<Rightarrow> string \<Rightarrow> statuses \<Rightarrow> statuses" where
  "set_active now updated started utc sid m =
     omap_set sid (new_status updated started utc sid) (cleanup_locked now m)"

record queue_figures =
  qf_current :: nat
  qf_peak :: nat
  qf_backpressure :: nat

definition no_figures :: queue_figures where
  "no_figures = \<lparr>qf_current = 0, qf_peak = 0, qf_backpressure = 0\<rparr>"

definition set_ended ::
  "int \<Rightarrow> session_status \<Rightarrow> int \<Rightarrow> int \<Rightarrow> string \<Rightarrow> stream_end_reason \<Rightarrow> string \<Rightarrow> queue_figures \<Rightarrow>
   statuses \<Rightarrow> statuses" where
  "set_ended now fresh updated utc sid reason message f m =
     (let m = cleanup_locked now m;
          v = (case omap_find m sid of None \<Rightarrow> fresh | Some v \<Rightarrow> v)
      in if ss_end_reason v = ''manual_cleanup'' then m
         else omap_set sid
           (v\<lparr>ss_sid := sid, ss_status := ''ended'', ss_end_reason := end_reason_name reason,
              ss_message := message, ss_queue_current := qf_current f, ss_queue_peak := qf_peak f,
              ss_backpressure := qf_backpressure f, ss_updated := updated, ss_updated_utc := utc\<rparr>) m)"

definition set_output_ready :: "int \<Rightarrow> int \<Rightarrow> string \<Rightarrow> statuses \<Rightarrow> statuses" where
  "set_output_ready now utc sid m =
     (case omap_find m sid of
        None \<Rightarrow> m
      | Some v \<Rightarrow> omap_set sid (v\<lparr>ss_output_ready := Some now, ss_updated := now,
                                   ss_output_ready_utc := Some utc, ss_updated_utc := utc\<rparr>) m)"

text \<open>\<open>duration_cast<milliseconds>\<close> truncates.\<close>

definition to_ms :: "int \<Rightarrow> int" where
  "to_ms ns = ns sdiv 1000000"

definition set_browser_first_frame ::
  "int \<Rightarrow> int \<Rightarrow> int \<Rightarrow> string \<Rightarrow> int \<Rightarrow> statuses \<Rightarrow> (int \<times> int) option \<times> statuses" where
  "set_browser_first_frame now frame_utc utc sid client_elapsed_ms m =
     (case omap_find m sid of
        None \<Rightarrow> (None, m)
      | Some v \<Rightarrow>
          let v = (if ss_first_frame v = None
                   then v\<lparr>ss_first_frame := Some now, ss_first_frame_utc := Some frame_utc\<rparr> else v);
              v = v\<lparr>ss_client_elapsed_ms := client_elapsed_ms, ss_updated := now, ss_updated_utc := utc\<rparr>;
              frame = the (ss_first_frame v);
              total = to_ms (frame - ss_started v);
              output_to_frame = (case ss_output_ready v of Some t \<Rightarrow> to_ms (frame - t) | None \<Rightarrow> -1)
          in (Some (total, output_to_frame), omap_set sid v m))"

definition get_status :: "int \<Rightarrow> string \<Rightarrow> statuses \<Rightarrow> session_status option \<times> statuses" where
  "get_status now sid m = (let m = cleanup_locked now m in (omap_find m sid, m))"

section \<open>Threads calling the registry\<close>

datatype status_event =
    SetActive int int int int string
  | SetEnded int int int int int int string stream_end_reason queue_figures
  | SetOutputReady int int string
  | SetFirstFrame int int int string int
  | GetStatus int string

fun status_step :: "status_event \<Rightarrow> statuses \<Rightarrow> statuses" where
  "status_step (SetActive now t1 t2 utc sid) m = set_active now t1 t2 utc sid m"
| "status_step (SetEnded now t1 t2 u1 updated utc sid reason f) m =
     set_ended now (new_status t1 t2 u1 []) updated utc sid reason (end_reason_message reason) f m"
| "status_step (SetOutputReady now utc sid) m = set_output_ready now utc sid m"
| "status_step (SetFirstFrame now u1 u2 sid ms) m = snd (set_browser_first_frame now u1 u2 sid ms m)"
| "status_step (GetStatus now sid) m = snd (get_status now sid m)"

text \<open>When an event has \<open>cleanup_locked\<close> run, and for which session it starts a new record.\<close>

fun cleanup_time :: "status_event \<Rightarrow> int option" where
  "cleanup_time (SetActive now _ _ _ _) = Some now"
| "cleanup_time (SetEnded now _ _ _ _ _ _ _ _) = Some now"
| "cleanup_time (GetStatus now _) = Some now"
| "cleanup_time _ = None"

fun activates :: "status_event \<Rightarrow> string \<Rightarrow> bool" where
  "activates (SetActive _ _ _ _ sid) k = (sid = k)"
| "activates _ k = False"

section \<open>Invariant\<close>

definition status_ok :: "string \<Rightarrow> session_status \<Rightarrow> bool" where
  "status_ok k v \<longleftrightarrow>
     ss_sid v = k \<and>
     (ss_status v = ''active'' \<and> ss_end_reason v = ''active'' \<or>
      ss_status v = ''ended'' \<and>
      (\<exists>r. ss_end_reason v = end_reason_name r \<and> ss_message v = end_reason_message r)) \<and>
     (ss_first_frame v = None \<longleftrightarrow> ss_first_frame_utc v = None) \<and>
     (ss_output_ready v = None \<longleftrightarrow> ss_output_ready_utc v = None)"

definition statuses_ok :: "statuses \<Rightarrow> bool" where
  "statuses_ok m \<longleftrightarrow> omap_ok m \<and> (\<forall>k v. omap_find m k = Some v \<longrightarrow> status_ok k v)"

lemma statuses_ok_omap [simp]: "statuses_ok m \<Longrightarrow> omap_ok m"
  by (simp add: statuses_ok_def)

lemma statuses_okD: "statuses_ok m \<Longrightarrow> omap_find m k = Some v \<Longrightarrow> status_ok k v"
  by (simp add: statuses_ok_def)

lemma statuses_ok_Nil [simp]: "statuses_ok []"
  by (simp add: statuses_ok_def omap_find_def omap_ok_def)

lemma statuses_ok_set [simp]: "statuses_ok m \<Longrightarrow> status_ok k v \<Longrightarrow> statuses_ok (omap_set k v m)"
  by (simp add: statuses_ok_def)

lemma cleanup_ok [simp]: "statuses_ok m \<Longrightarrow> statuses_ok (cleanup_locked now m)"
  by (auto simp: statuses_ok_def cleanup_locked_def dest: std_map.erase_if_sub)

lemma cleanup_find:
  "omap_ok m \<Longrightarrow> omap_find (cleanup_locked now m) k =
     (case omap_find m k of None \<Rightarrow> None
      | Some v \<Rightarrow> if ss_updated v < now - retention_ns then None else Some v)"
  by (simp add: cleanup_locked_def std_map.lookup_erase_if split: option.split)

lemma new_status_ok [simp]: "status_ok k (new_status t1 t2 u k)"
  by (simp add: status_ok_def new_status_def)

lemma set_active_ok [simp]: "statuses_ok m \<Longrightarrow> statuses_ok (set_active now t1 t2 u k m)"
  by (simp add: set_active_def)

lemma set_ended_ok [simp]:
  assumes "statuses_ok m"
  shows "statuses_ok (set_ended now (new_status t1 t2 u1 []) t u k r (end_reason_message r) f m)"
proof -
  let ?m = "cleanup_locked now m"
  have "status_ok k (w\<lparr>ss_sid := k, ss_status := ''ended'', ss_end_reason := end_reason_name r,
      ss_message := end_reason_message r, ss_queue_current := a, ss_queue_peak := b,
      ss_backpressure := c, ss_updated := t, ss_updated_utc := u\<rparr>)"
    if "w = new_status t1 t2 u1 [] \<or> status_ok k w" for w a b c
    using that by (auto simp: status_ok_def new_status_def)
  then show ?thesis
    using assms statuses_okD[OF cleanup_ok[OF assms, of now], of k]
    by (auto simp: set_ended_def Let_def split: option.split)
qed

lemma set_output_ready_ok [simp]:
  assumes "statuses_ok m" shows "statuses_ok (set_output_ready now u k m)"
proof (cases "omap_find m k")
  case (Some v)
  have "status_ok k v" using assms Some by (rule statuses_okD)
  then show ?thesis
    using assms Some unfolding set_output_ready_def by (auto intro!: statuses_ok_set simp: status_ok_def)
qed (use assms in \<open>simp add: set_output_ready_def\<close>)

lemma first_frame_ok [simp]:
  assumes "statuses_ok m" shows "statuses_ok (snd (set_browser_first_frame now u1 u2 k ms m))"
proof (cases "omap_find m k")
  case (Some v)
  have "status_ok k v" using assms Some by (rule statuses_okD)
  then show ?thesis
    using assms Some unfolding set_browser_first_frame_def Let_def
    by (auto intro!: statuses_ok_set simp: status_ok_def)
qed (use assms in \<open>simp add: set_browser_first_frame_def\<close>)

lemma get_status_ok [simp]: "statuses_ok m \<Longrightarrow> statuses_ok (snd (get_status now k m))"
  by (simp add: get_status_def Let_def)

interpretation status_machine: machine status_step statuses_ok
proof
  fix m e assume "statuses_ok m"
  then show "statuses_ok (status_step e m)" by (cases e) simp_all
qed

lemma end_reason_name_eq_manual: "end_reason_name r = ''manual_cleanup'' \<longleftrightarrow> r = ManualCleanup"
  by (cases r) simp_all

lemma end_reason_name_inject: "end_reason_name r = end_reason_name s \<longleftrightarrow> r = s"
  by (cases r; cases s) simp_all

section \<open>What other events leave alone\<close>

fun touches :: "status_event \<Rightarrow> string \<Rightarrow> bool" where
  "touches (SetActive _ _ _ _ sid) k = (sid = k)"
| "touches (SetEnded _ _ _ _ _ _ sid _ _) k = (sid = k)"
| "touches (SetOutputReady _ _ sid) k = (sid = k)"
| "touches (SetFirstFrame _ _ _ sid _) k = (sid = k)"
| "touches (GetStatus _ _) k = False"

lemma untouched_step:
  assumes "statuses_ok m" and "\<not> touches e k"
  shows "omap_find (status_step e m) k = omap_find m k \<or> omap_find (status_step e m) k = None"
  using assms
  by (cases e)
     (auto simp: set_active_def set_ended_def set_output_ready_def set_browser_first_frame_def
        get_status_def Let_def cleanup_find split: option.splits)

lemma untouched_run:
  assumes "statuses_ok m" and "\<forall>e\<in>set es. \<not> touches e k"
  shows "omap_find (status_machine.run es m) k \<in> {omap_find m k, None}"
  using assms
proof (induction es arbitrary: m)
  case (Cons e es)
  have "statuses_ok (status_step e m)" using Cons.prems(1) by (rule status_machine.step_inv)
  then show ?case using Cons untouched_step[OF Cons.prems(1), of e k] by fastforce
qed simp

text \<open>All steady-clock readings of an event lie in the ten minutes from \<open>t\<close> on.\<close>

fun timely :: "int \<Rightarrow> status_event \<Rightarrow> bool" where
  "timely t (SetActive now t1 t2 _ _) = ({now, t1, t2} \<subseteq> {t..t + retention_ns})"
| "timely t (SetEnded now t1 t2 _ upd _ _ _ _) = ({now, t1, t2, upd} \<subseteq> {t..t + retention_ns})"
| "timely t (SetOutputReady now _ _) = (now \<in> {t..t + retention_ns})"
| "timely t (SetFirstFrame now _ _ _ _) = (now \<in> {t..t + retention_ns})"
| "timely t (GetStatus now _) = (now \<in> {t..t + retention_ns})"

definition cleaned_since :: "int \<Rightarrow> string \<Rightarrow> statuses \<Rightarrow> bool" where
  "cleaned_since t k m \<longleftrightarrow>
     (\<exists>v. omap_find m k = Some v \<and> ss_status v = ''ended'' \<and> ss_end_reason v = ''manual_cleanup'' \<and>
          t \<le> ss_updated v)"

lemma cleaned_since_step:
  assumes "statuses_ok m" "cleaned_since t k m" "timely t e" "\<not> activates e k"
  shows "cleaned_since t k (status_step e m)"
  using assms
  by (cases e)
     (auto simp: cleaned_since_def set_active_def set_ended_def set_output_ready_def
        set_browser_first_frame_def get_status_def Let_def cleanup_find split: option.splits)

lemma cleaned_since_run:
  assumes "statuses_ok m" "cleaned_since t k m" "\<forall>e\<in>set es. timely t e \<and> \<not> activates e k"
  shows "cleaned_since t k (status_machine.run es m)"
  using assms
proof (induction es arbitrary: m)
  case (Cons e es)
  have "statuses_ok (status_step e m)" using Cons.prems(1) by (rule status_machine.step_inv)
  then show ?case using Cons cleaned_since_step[of m t k e] by simp
qed simp

lemma set_ended_find:
  assumes "statuses_ok m" and "omap_find m k = Some v" and "now - retention_ns \<le> ss_updated v"
    and "ss_end_reason v \<noteq> ''manual_cleanup''"
  shows "omap_find (set_ended now fresh t u k r msg f m) k =
    Some (v\<lparr>ss_sid := k, ss_status := ''ended'', ss_end_reason := end_reason_name r,
       ss_message := msg, ss_queue_current := qf_current f, ss_queue_peak := qf_peak f,
       ss_backpressure := qf_backpressure f, ss_updated := t, ss_updated_utc := u\<rparr>)"
  using assms by (simp add: set_ended_def cleanup_find)

section \<open>Properties\<close>

text \<open>C28: Whatever the threads do, in any order: every stored status belongs to the session it is
  stored under, an active one has no end reason, an ended one has the name of an end reason and its
  message, and the UTC stamps of the two milestones are present exactly when the milestones are.\<close>

theorem statuses_invariant:
  "statuses_ok (status_machine.run es []) \<and>
   (\<forall>sid now v. fst (get_status now sid (status_machine.run es [])) = Some v \<longrightarrow> status_ok sid v)"
proof -
  have ok: "statuses_ok (status_machine.run es [])" by (rule status_machine.run_inv) simp
  then show ?thesis
    using statuses_okD[OF cleanup_ok[OF ok]] by (simp add: get_status_def Let_def)
qed

lemmas status_eval = set_active_def set_ended_def get_status_def set_browser_first_frame_def
  cleanup_locked_def omap_erase_if_def omap_find_def retention_ns_def new_status_def Let_def

theorem statuses_invariant_witness:
  "status_ok ''a'' (the (fst (get_status 5 ''a'' (status_machine.run [SetActive 1 1 1 0 ''a''] []))))"
  by (rule statuses_invariant[THEN conjunct2, rule_format, of 5 _ "[SetActive 1 1 1 0 ''a'']"])
     (simp add: status_eval)

definition active_example :: statuses where
  "active_example = status_machine.run [SetActive 0 0 0 0 ''a''] []"

lemma active_example:
  "statuses_ok active_example" "omap_find active_example ''a'' = Some (new_status 0 0 0 ''a'')"
  unfolding active_example_def by (rule status_machine.run_inv) (simp_all add: status_eval)

text \<open>A manual cleanup is the last word on a session: for the ten minutes the status is kept, no
  late callback of the session, browser report or query changes the reason, whatever the order; only
  a new session with the same id does.\<close>

theorem manual_cleanup_sticky:
  assumes "statuses_ok m" and "cleaned_since t sid m"
    and "\<forall>e\<in>set es. timely t e \<and> \<not> activates e sid" and "now \<in> {t..t + retention_ns}"
  shows "\<exists>v. fst (get_status now sid (status_machine.run es m)) = Some v \<and>
             ss_status v = ''ended'' \<and> ss_end_reason v = ''manual_cleanup''"
proof -
  let ?m = "status_machine.run es m"
  have "statuses_ok ?m" using assms(1) by (rule status_machine.run_inv)
  moreover have "cleaned_since t sid ?m" using assms(1-3) by (rule cleaned_since_run)
  ultimately show ?thesis
    using assms(4) by (auto simp: cleaned_since_def get_status_def Let_def cleanup_find)
qed

definition cleaned_example :: statuses where
  "cleaned_example = status_machine.run
     [SetActive 0 0 0 0 ''a'', SetEnded 1 1 1 0 1 0 ''a'' ManualCleanup no_figures] []"

theorem manual_cleanup_sticky_witness:
  "\<exists>v. fst (get_status 9 ''a'' (status_machine.run
      [SetEnded 2 2 2 0 3 0 ''a'' FfmpegExit no_figures, SetFirstFrame 4 0 0 ''a'' 100] cleaned_example)) = Some v \<and>
    ss_status v = ''ended'' \<and> ss_end_reason v = ''manual_cleanup''"
proof (rule manual_cleanup_sticky)
  show "statuses_ok cleaned_example"
    unfolding cleaned_example_def by (rule status_machine.run_inv) simp
  show "cleaned_since 1 ''a'' cleaned_example"
    by (simp add: cleaned_since_def cleaned_example_def status_eval)
qed (simp_all add: retention_ns_def)

text \<open>The end of a session whose status is still kept is recorded in full: the reason, the message
  and the queue's figures, with the start and the milestones of the session unchanged.\<close>

theorem set_ended_records:
  assumes "statuses_ok m" and "omap_find m sid = Some v" and "now \<le> ss_updated v + retention_ns"
    and "ss_end_reason v \<noteq> ''manual_cleanup''" and "later \<le> t + retention_ns"
  shows "fst (get_status later sid
           (set_ended now (new_status t1 t2 u1 []) t u sid r (end_reason_message r) f m)) =
    Some (v\<lparr>ss_status := ''ended'', ss_end_reason := end_reason_name r,
       ss_message := end_reason_message r, ss_queue_current := qf_current f,
       ss_queue_peak := qf_peak f, ss_backpressure := qf_backpressure f, ss_updated := t,
       ss_updated_utc := u\<rparr>)"
proof -
  have "ss_sid v = sid" using assms by (auto simp: status_ok_def dest: statuses_okD)
  moreover have "now - retention_ns \<le> ss_updated v" using assms(3) by simp
  ultimately show ?thesis
    using assms set_ended_find[OF assms(1,2) _ assms(4)]
    by (simp add: get_status_def Let_def cleanup_find)
qed

theorem set_ended_records_witness:
  "ss_end_reason (the (fst (get_status 9 ''a''
     (set_ended 3 (new_status 3 3 0 []) 4 0 ''a'' PlaybackEnd (end_reason_message PlaybackEnd) no_figures
       active_example)))) = ''playback_end''"
  by (subst set_ended_records[OF active_example]) (simp_all add: retention_ns_def new_status_def)

text \<open>The first browser report fixes the first frame: later reports, at any time and with any
  client figure, return the same two durations and do not move the milestone.\<close>

theorem first_frame_once:
  assumes "statuses_ok m" and "fst (set_browser_first_frame t u1 u2 sid ms m) = Some r"
  shows "fst (set_browser_first_frame t' u1' u2' sid ms'
           (snd (set_browser_first_frame t u1 u2 sid ms m))) = Some r \<and>
    map_option ss_first_frame (omap_find (snd (set_browser_first_frame t' u1' u2' sid ms'
           (snd (set_browser_first_frame t u1 u2 sid ms m)))) sid) =
    map_option ss_first_frame (omap_find (snd (set_browser_first_frame t u1 u2 sid ms m)) sid)"
  using assms
  by (cases "omap_find m sid") (auto simp: set_browser_first_frame_def Let_def split: option.splits)

theorem first_frame_once_witness:
  "fst (set_browser_first_frame 9000000 0 0 ''a'' 1
     (snd (set_browser_first_frame 5000000 0 0 ''a'' 1 active_example))) = Some (5, -1)"
proof (rule first_frame_once[THEN conjunct1, OF active_example(1)])
  show "fst (set_browser_first_frame 5000000 0 0 ''a'' 1 active_example) = Some (5, -1)"
    by (simp add: set_browser_first_frame_def active_example(2) new_status_def to_ms_def
        signed_divide_int_def)
qed

text \<open>A status is forgotten ten minutes after its last update even while its session is still
  running: a stream that plays longer than that answers \<open>SESSION_NOT_FOUND\<close>.\<close>

theorem active_status_expires:
  assumes "statuses_ok m" and "\<forall>e\<in>set es. \<not> touches e sid" and "now > updated + retention_ns"
  shows "fst (get_status now sid (status_machine.run es (set_active t updated started utc sid m))) = None"
proof -
  let ?start = "set_active t updated started utc sid m"
  let ?m = "status_machine.run es ?start"
  have ok0: "statuses_ok ?start" using assms(1) by simp
  have ok: "statuses_ok ?m" using ok0 by (rule status_machine.run_inv)
  have "omap_find ?start sid = Some (new_status updated started utc sid)"
    using assms(1) by (simp add: set_active_def)
  moreover have "ss_updated (new_status updated started utc sid) = updated"
    by (simp add: new_status_def)
  ultimately show ?thesis
    using untouched_run[OF ok0 assms(2)] ok assms(3)
    by (auto simp: get_status_def Let_def cleanup_find)
qed

theorem active_status_expires_witness:
  "fst (get_status 600000000001 ''a'' (status_machine.run [GetStatus 5 ''a'', SetActive 9 9 9 0 ''b'']
     (set_active 0 0 0 0 ''a'' []))) = None"
  by (rule active_status_expires) (simp_all add: retention_ns_def)

end
