(* ===== verification/Session_Registry.thy ===== *)
theory Session_Registry
  imports Session_Status "HOL-Library.Word"
begin

text \<open>
  \<open>SessionRegistry\<close>: the bounded table of running sessions, the leases on its slots, and the
  cleanup with its generation token.  Every method runs under the registry's mutex and is one
  function.  The callbacks \<open>initialize\<close> of \<open>reserve\<close> and \<open>mark\<close> of \<open>clean\<close> act on a state \<open>'w\<close>
  of their own, which the functions thread through; \<open>handle_video\<close> and \<open>handle_connection\<close> pass
  operations of the status registry.  The identity of a \<open>shared_ptr<State>\<close> is a number the
  registry hands out.
\<close>

section \<open>The code\<close>

record session_state =
  st_ref :: nat
  st_sid :: string
  st_fd :: "int option"
  st_generation :: string
  st_cancelled :: bool

record registry =
  reg_max :: int
  reg_states :: "session_state list"
  reg_epoch :: string
  reg_generation :: string
  reg_sequence :: "64 word"
  reg_cleaned :: bool
  reg_next_ref :: nat

definition new_registry :: "int \<Rightarrow> string \<Rightarrow> registry" where
  "new_registry maximum epoch =
     \<lparr>reg_max = maximum, reg_states = [], reg_epoch = epoch, reg_generation = epoch @ ''-0'',
      reg_sequence = 0, reg_cleaned = False, reg_next_ref = 0\<rparr>"

definition manual_restart_required :: failure where
  "manual_restart_required = BridgeError 409 ''MANUAL_RESTART_REQUIRED''"

definition refused_generation :: "string \<Rightarrow> registry \<Rightarrow> bool" where
  "refused_generation generation r \<longleftrightarrow>
     (generation = [] \<and> reg_cleaned r) \<or> (generation \<noteq> [] \<and> generation \<noteq> reg_generation r)"

text \<open>\<open>static_cast<size_t>(max_)\<close>.\<close>

definition slots :: "registry \<Rightarrow> nat" where
  "slots r = unat (word_of_int (reg_max r) :: 64 word)"

definition reserve ::
  "string \<Rightarrow> int option \<Rightarrow> string \<Rightarrow> ('w \<Rightarrow> 'w) \<Rightarrow> registry \<Rightarrow> 'w \<Rightarrow>
   session_state option res \<times> registry \<times> 'w" where
  "reserve sid fd generation initialize r w =
     (if refused_generation generation r then (Inl manual_restart_required, r, w)
      else if length (reg_states r) \<ge> slots r then (Inr None, r, w)
      else let state = \<lparr>st_ref = reg_next_ref r, st_sid = sid, st_fd = fd,
                        st_generation = reg_generation r, st_cancelled = False\<rparr>
           in (Inr (Some state),
               r\<lparr>reg_states := reg_states r @ [state], reg_next_ref := reg_next_ref r + 1\<rparr>,
               initialize w))"

fun clean_loop ::
  "(string \<Rightarrow> 'w \<Rightarrow> 'w) \<Rightarrow> session_state list \<Rightarrow> 'w \<Rightarrow> session_state list \<times> nat \<times> int list \<times> 'w" where
  "clean_loop mark [] w = ([], 0, [], w)"
| "clean_loop mark (s # ss) w =
     (if st_cancelled s
      then case clean_loop mark ss w of (ss', n, fds, w') \<Rightarrow> (s # ss', n, fds, w')
      else case clean_loop mark ss (mark (st_sid s) w) of
             (ss', n, fds, w') \<Rightarrow>
               (s\<lparr>st_cancelled := True\<rparr> # ss', n + 1,
                (case st_fd s of None \<Rightarrow> fds | Some fd \<Rightarrow> fd # fds), w'))"

text \<open>The result is the number of sessions affected, and the sockets that were shut down.\<close>

definition clean :: "(string \<Rightarrow> 'w \<Rightarrow> 'w) \<Rightarrow> registry \<Rightarrow> 'w \<Rightarrow> nat \<times> int list \<times> registry \<times> 'w" where
  "clean mark r w =
     (let sequence = reg_sequence r + 1;
          r = r\<lparr>reg_sequence := sequence,
                reg_generation := reg_epoch r @ ''-'' @ show_nat (unat sequence), reg_cleaned := True\<rparr>
      in case clean_loop mark (reg_states r) w of
           (states, affected, fds, w') \<Rightarrow> (affected, fds, r\<lparr>reg_states := states\<rparr>, w'))"

definition release :: "nat \<Rightarrow> registry \<Rightarrow> registry" where
  "release ref r = r\<lparr>reg_states := filter (\<lambda>s. st_ref s \<noteq> ref) (reg_states r)\<rparr>"

definition counts :: "registry \<Rightarrow> int \<times> int \<times> int" where
  "counts r = (let n = int (length (reg_states r)) in (n, reg_max r, reg_max r - n))"

definition cleaning :: "registry \<Rightarrow> nat" where
  "cleaning r = length (filter st_cancelled (reg_states r))"

text \<open>\<open>session_counts_json\<close>.\<close>

definition session_counts_json :: "registry \<Rightarrow> string" where
  "session_counts_json r =
     (case counts r of (active, maximum, available) \<Rightarrow>
        ''\"activeSessions\":'' @ show_int active @ '',\"maxSessions\":'' @ show_int maximum @
        '',\"availableSessions\":'' @ show_int available)"

section \<open>The two registries together\<close>

text \<open>
  How the callers use them: \<open>handle_video\<close> reserves with \<open>set_active\<close> as the callback and gives
  its lease back when it leaves, \<open>handle_connection\<close> cleans with \<open>set_ended\<close> as the callback, and
  any thread calls the status registry.  A cleanup has one reading of the clocks.
\<close>

definition mark_cleaned :: "int \<Rightarrow> int \<Rightarrow> string \<Rightarrow> statuses \<Rightarrow> statuses" where
  "mark_cleaned t utc sid m =
     set_ended t (new_status t t utc []) t utc sid ManualCleanup (end_reason_message ManualCleanup)
       no_figures m"

datatype session_event =
    Reserve int int int int string "int option" string
  | Clean int int
  | Release nat
  | StatusOp status_event

fun session_step :: "session_event \<Rightarrow> registry \<times> statuses \<Rightarrow> registry \<times> statuses" where
  "session_step (Reserve t t1 t2 utc sid fd generation) (r, m) =
     snd (reserve sid fd generation (set_active t t1 t2 utc sid) r m)"
| "session_step (Clean t utc) (r, m) = snd (snd (clean (mark_cleaned t utc) r m))"
| "session_step (Release ref) (r, m) = (release ref r, m)"
| "session_step (StatusOp e) (r, m) = (r, status_step e m)"

definition is_clean :: "session_event \<Rightarrow> bool" where
  "is_clean e = (case e of Clean _ _ \<Rightarrow> True | _ \<Rightarrow> False)"

section \<open>What a cleanup does\<close>

definition cancel :: "session_state \<Rightarrow> session_state" where
  "cancel s = s\<lparr>st_cancelled := True\<rparr>"

definition running :: "registry \<Rightarrow> session_state list" where
  "running r = filter (\<lambda>s. \<not> st_cancelled s) (reg_states r)"

lemma clean_loop_eq:
  "clean_loop mark ss w =
     (let live = filter (\<lambda>s. \<not> st_cancelled s) ss
      in (map cancel ss, length live, List.map_filter st_fd live, fold mark (map st_sid live) w))"
  by (induction mark ss w rule: clean_loop.induct)
     (auto simp: Let_def cancel_def map_filter_simps split: option.split)

lemma clean_eq:
  "clean mark r w =
     (length (running r), List.map_filter st_fd (running r),
      r\<lparr>reg_sequence := reg_sequence r + 1,
        reg_generation := reg_epoch r @ ''-'' @ show_nat (unat (reg_sequence r + 1)),
        reg_cleaned := True, reg_states := map cancel (reg_states r)\<rparr>,
      fold mark (map st_sid (running r)) w)"
  by (simp add: clean_def clean_loop_eq Let_def running_def)

lemma cancel_simps [simp]:
  "st_cancelled (cancel s)" "st_ref (cancel s) = st_ref s" "st_sid (cancel s) = st_sid s"
  "st_fd (cancel s) = st_fd s" "st_generation (cancel s) = st_generation s"
  by (simp_all add: cancel_def)

section \<open>Invariant\<close>

definition generation_of :: "string \<Rightarrow> 64 word \<Rightarrow> string" where
  "generation_of epoch n = epoch @ ''-'' @ show_nat (unat n)"

definition registry_ok :: "registry \<Rightarrow> bool" where
  "registry_ok r \<longleftrightarrow>
     1 \<le> reg_max r \<and> reg_max r < 2 ^ 31 \<and> int (length (reg_states r)) \<le> reg_max r \<and>
     distinct (map st_ref (reg_states r)) \<and> (\<forall>s\<in>set (reg_states r). st_ref s < reg_next_ref r) \<and>
     reg_generation r = generation_of (reg_epoch r) (reg_sequence r) \<and>
     (\<forall>s\<in>set (running r). st_generation s = reg_generation r)"

lemma slots_eq: "registry_ok r \<Longrightarrow> int (slots r) = reg_max r"
  by (simp add: registry_ok_def slots_def unat_eq_nat_uint uint_word_of_int)

definition registry_le :: "registry \<Rightarrow> registry \<Rightarrow> bool" where
  "registry_le r r' \<longleftrightarrow>
     reg_max r' = reg_max r \<and> reg_epoch r' = reg_epoch r \<and> (reg_cleaned r \<longrightarrow> reg_cleaned r') \<and>
     reg_next_ref r \<le> reg_next_ref r'"

lemma reserve_cases:
  obtains (refused) "refused_generation g r" "reserve sid fd g f r w = (Inl manual_restart_required, r, w)"
  | (full) "\<not> refused_generation g r" "slots r \<le> length (reg_states r)"
      "reserve sid fd g f r w = (Inr None, r, w)"
  | (granted) s where "\<not> refused_generation g r" "length (reg_states r) < slots r"
      "s = \<lparr>st_ref = reg_next_ref r, st_sid = sid, st_fd = fd, st_generation = reg_generation r,
            st_cancelled = False\<rparr>"
      "reserve sid fd g f r w = (Inr (Some s),
         r\<lparr>reg_states := reg_states r @ [s], reg_next_ref := reg_next_ref r + 1\<rparr>, f w)"
  by (cases "refused_generation g r"; cases "slots r \<le> length (reg_states r)")
     (auto simp: reserve_def Let_def not_le)

lemma reserve_ok:
  assumes "registry_ok r"
  shows "registry_ok (fst (snd (reserve sid fd g f r w)))"
proof (cases rule: reserve_cases[of g r sid fd f w])
  case (granted s)
  then have "int (length (reg_states r)) < reg_max r"
    using slots_eq[OF assms] by simp
  then show ?thesis
    using assms granted by (auto simp: registry_ok_def running_def less_Suc_eq)
qed (use assms in simp_all)

lemma clean_ok:
  assumes "registry_ok r"
  shows "registry_ok (fst (snd (snd (clean mark r w))))"
  using assms
  by (auto simp: clean_eq registry_ok_def generation_of_def running_def comp_def)

lemma release_ok:
  assumes "registry_ok r"
  shows "registry_ok (release ref r)"
proof -
  let ?keep = "filter (\<lambda>s. st_ref s \<noteq> ref) (reg_states r)"
  have "int (length (reg_states r)) \<le> reg_max r" using assms by (simp add: registry_ok_def)
  then have "int (length ?keep) \<le> reg_max r"
    using length_filter_le[of "\<lambda>s. st_ref s \<noteq> ref" "reg_states r"] by linarith
  moreover have "set (running (release ref r)) \<subseteq> set (running r)"
    by (auto simp: running_def release_def)
  ultimately show ?thesis
    using assms by (auto simp: registry_ok_def release_def distinct_map_filter)
qed

definition sessions_ok :: "registry \<times> statuses \<Rightarrow> bool" where
  "sessions_ok s \<longleftrightarrow> registry_ok (fst s) \<and> statuses_ok (snd s)"

lemma mark_cleaned_ok [simp]: "statuses_ok m \<Longrightarrow> statuses_ok (mark_cleaned t u sid m)"
  by (simp add: mark_cleaned_def)

lemma fold_mark_ok [simp]: "statuses_ok m \<Longrightarrow> statuses_ok (fold (mark_cleaned t u) sids m)"
  by (induction sids arbitrary: m) simp_all

lemma session_step_ok: "sessions_ok s \<Longrightarrow> sessions_ok (session_step e s)"
proof (induction e s rule: session_step.induct)
  case (1 t t1 t2 u sid fd g r m)
  then show ?case
    using reserve_ok[of r sid fd g "set_active t t1 t2 u sid" m]
    by (cases rule: reserve_cases[of g r sid fd "set_active t t1 t2 u sid" m])
       (simp_all add: sessions_ok_def)
next
  case (2 t u r m)
  then show ?case
    using clean_ok[of r "mark_cleaned t u" m] by (simp add: sessions_ok_def) (simp add: clean_eq)
next
  case (4 e r m)
  then show ?case using status_machine.step_inv[of m e] by (simp add: sessions_ok_def)
qed (simp_all add: sessions_ok_def release_ok)

interpretation session_machine: ordered_machine session_step sessions_ok
  "\<lambda>s t. registry_le (fst s) (fst t)"
proof
  fix s e assume "sessions_ok s"
  then show "registry_le (fst s) (fst (session_step e s))"
  proof (induction e s rule: session_step.induct)
    case (1 t t1 t2 u sid fd g r m)
    then show ?case
      by (cases rule: reserve_cases[of g r sid fd "set_active t t1 t2 u sid" m])
         (simp_all add: registry_le_def)
  qed (simp_all add: registry_le_def clean_eq release_def)
qed (auto simp: registry_le_def session_step_ok)

section \<open>Tokens\<close>

lemma show_nat_inject [simp]: "show_nat m = show_nat n \<longleftrightarrow> m = n"
  using show_int_inject[of "int m" "int n"] by (simp add: show_int_def)

lemma generation_of_inject [simp]: "generation_of e m = generation_of e n \<longleftrightarrow> m = n"
  by (simp add: generation_of_def word_unat_eq_iff)

lemma step_sequence:
  "reg_sequence (fst (session_step e s)) = reg_sequence (fst s) + (if is_clean e then 1 else 0)"
proof (induction e s rule: session_step.induct)
  case (1 t t1 t2 u sid fd g r m)
  then show ?case
    by (cases rule: reserve_cases[of g r sid fd "set_active t t1 t2 u sid" m])
       (simp_all add: is_clean_def)
qed (simp_all add: clean_eq release_def is_clean_def)

lemma run_sequence:
  "reg_sequence (fst (session_machine.run es s)) =
     reg_sequence (fst s) + of_nat (length (filter is_clean es))"
  by (induction es arbitrary: s) (simp_all add: step_sequence)

lemma step_cleaned: "is_clean e \<Longrightarrow> reg_cleaned (fst (session_step e s))"
  by (cases s; cases e) (simp_all add: is_clean_def clean_eq)

lemma run_cleaned:
  assumes "sessions_ok s" and "e \<in> set es" and "is_clean e"
  shows "reg_cleaned (fst (session_machine.run es s))"
  using assms
proof (induction es arbitrary: s)
  case (Cons a es)
  have ok: "sessions_ok (session_step a s)" using Cons.prems(1) by (rule session_step_ok)
  show ?case
  proof (cases "is_clean a")
    case True
    then show ?thesis
      using session_machine.run_le[OF ok, of es] step_cleaned[OF True, of s]
      by (simp add: registry_le_def)
  next
    case False
    then show ?thesis using Cons.IH[OF ok] Cons.prems by auto
  qed
qed simp

lemma run_generation:
  assumes "sessions_ok s"
  shows "reg_generation (fst (session_machine.run es s)) =
    generation_of (reg_epoch (fst s)) (reg_sequence (fst s) + of_nat (length (filter is_clean es)))"
  using session_machine.run_inv[OF assms, of es] session_machine.run_le[OF assms, of es]
  by (simp add: sessions_ok_def registry_ok_def registry_le_def run_sequence)

section \<open>Slots\<close>

definition refs :: "registry \<Rightarrow> nat set" where
  "refs r = st_ref ` set (reg_states r)"

lemma step_keeps_ref:
  assumes "ref \<in> refs (fst s)" and "e \<noteq> Release ref"
  shows "ref \<in> refs (fst (session_step e s))"
  using assms
proof (induction e s rule: session_step.induct)
  case (1 t t1 t2 u sid fd g r m)
  then show ?case
    by (cases rule: reserve_cases[of g r sid fd "set_active t t1 t2 u sid" m]) (auto simp: refs_def)
qed (auto simp: clean_eq refs_def release_def image_image)

lemma run_keeps_ref:
  "ref \<in> refs (fst s) \<Longrightarrow> Release ref \<notin> set es \<Longrightarrow> ref \<in> refs (fst (session_machine.run es s))"
proof (induction es arbitrary: s)
  case (Cons e es)
  then show ?case using step_keeps_ref[of ref s e] by fastforce
qed simp

lemma length_release:
  assumes "registry_ok r" and "ref \<in> refs r"
  shows "length (reg_states (release ref r)) + 1 = length (reg_states r)"
proof -
  have "distinct (map st_ref (reg_states r))" using assms(1) by (simp add: registry_ok_def)
  then show ?thesis
    using assms(2) unfolding refs_def release_def
  proof (induction "reg_states r" arbitrary: r)
    case (Cons s ss)
    have IH: "length (filter (\<lambda>s. st_ref s \<noteq> ref) ss) + 1 = length ss"
      if "ref \<in> st_ref ` set ss"
      using Cons.hyps(1)[of "r\<lparr>reg_states := ss\<rparr>"] Cons.prems Cons.hyps(2)[symmetric] that by simp
    have no: "ref \<notin> st_ref ` set ss \<Longrightarrow> filter (\<lambda>s. st_ref s \<noteq> ref) ss = ss"
      by (auto simp: filter_id_conv)
    show ?case
      using Cons.prems IH no unfolding Cons.hyps(2)[symmetric] by auto
  qed simp
qed

section \<open>Published reasons\<close>

definition marked :: "int \<Rightarrow> string \<Rightarrow> statuses \<Rightarrow> bool" where
  "marked t sid m \<longleftrightarrow>
     (\<exists>v. omap_find m sid = Some v \<and> ss_status v = ''ended'' \<and>
          ss_end_reason v = ''manual_cleanup'' \<and> t - retention_ns \<le> ss_updated v)"

lemma mark_marks: "statuses_ok m \<Longrightarrow> marked t sid (mark_cleaned t u sid m)"
  using statuses_okD[of m sid]
  by (auto simp: marked_def mark_cleaned_def set_ended_def Let_def cleanup_find status_ok_def
      retention_ns_def new_status_def split: option.split)

lemma mark_keeps: "statuses_ok m \<Longrightarrow> marked t sid m \<Longrightarrow> marked t sid (mark_cleaned t u sid' m)"
  by (auto simp: marked_def mark_cleaned_def set_ended_def Let_def cleanup_find
      split: option.split)

lemma fold_mark_keeps:
  "statuses_ok m \<Longrightarrow> marked t sid m \<Longrightarrow> marked t sid (fold (mark_cleaned t u) sids m)"
  by (induction sids arbitrary: m) (simp_all add: mark_keeps)

lemma fold_mark_marks:
  "statuses_ok m \<Longrightarrow> sid \<in> set sids \<Longrightarrow> marked t sid (fold (mark_cleaned t u) sids m)"
proof (induction sids arbitrary: m)
  case (Cons s sids)
  then show ?case by (cases "sid = s") (simp_all add: mark_marks fold_mark_keeps)
qed simp

section \<open>Properties\<close>

lemma digit_0: "digit 0 = CHR ''0''"
  by code_simp

definition fresh :: "int \<Rightarrow> string \<Rightarrow> registry \<times> statuses" where
  "fresh maximum epoch = (new_registry maximum epoch, [])"

lemma fresh_ok [simp]: "1 \<le> maximum \<Longrightarrow> maximum < 2 ^ 31 \<Longrightarrow> sessions_ok (fresh maximum epoch)"
  by (simp add: sessions_ok_def fresh_def registry_ok_def new_registry_def generation_of_def
      running_def show_nat.simps digit_0)

text \<open>C12: Whatever requests, cleanups and leaving sessions interleave, the number of sessions never
  exceeds the configured maximum, the reported counts add up, and every session that has not been
  cancelled was started under the current generation.\<close>

theorem session_capacity:
  assumes "1 \<le> maximum" and "maximum < 2 ^ 31"
  shows "\<exists>n. counts (fst (session_machine.run es (fresh maximum epoch))) = (n, maximum, maximum - n) \<and>
             0 \<le> n \<and> n \<le> maximum \<and>
     (\<forall>s\<in>set (running (fst (session_machine.run es (fresh maximum epoch)))).
        st_generation s = reg_generation (fst (session_machine.run es (fresh maximum epoch))))"
proof -
  have ok: "sessions_ok (fresh maximum epoch)" using assms by simp
  show ?thesis
    using session_machine.run_inv[OF ok, of es] session_machine.run_le[OF ok, of es]
    by (simp add: counts_def Let_def sessions_ok_def registry_ok_def registry_le_def)
       (simp add: fresh_def new_registry_def)
qed

theorem session_capacity_witness:
  "\<exists>n. counts (fst (session_machine.run
      [Reserve 0 0 0 0 ''a'' None [], Reserve 0 0 0 0 ''b'' None []] (fresh 1 ''9''))) = (n, 1, 1 - n) \<and> n \<le> 1"
  using session_capacity[of 1 "[Reserve 0 0 0 0 ''a'' None [], Reserve 0 0 0 0 ''b'' None []]" "''9''"]
  by auto

text \<open>C13: A token from before a cleanup, or no token at all, never starts a session again: it is
  refused with 409 and changes nothing, as long as fewer than \<open>2^64\<close> cleanups lie in between.\<close>

theorem stale_generation_rejected:
  assumes "sessions_ok s" and "filter is_clean es \<noteq> []" and "length (filter is_clean es) < 2 ^ 64"
    and "generation = [] \<or> generation = reg_generation (fst s)"
  shows "reserve sid fd generation f (fst (session_machine.run es s)) w =
    (Inl manual_restart_required, fst (session_machine.run es s), w)"
proof -
  let ?k = "length (filter is_clean es)" and ?r = "fst (session_machine.run es s)"
  obtain e where "e \<in> set es" "is_clean e"
    using assms(2) by (auto simp: filter_empty_conv)
  then have cleaned: "reg_cleaned ?r" using assms(1) by (rule run_cleaned[rotated])
  have "0 < ?k" using assms(2) by (cases "filter is_clean es") simp_all
  then have "(of_nat ?k :: 64 word) \<noteq> 0"
    using assms(3) by (simp add: word_of_nat_eq_0_iff) (auto dest: nat_dvd_not_less)
  then have "reg_generation ?r \<noteq> reg_generation (fst s)"
    using assms(1) run_generation[OF assms(1), of es]
    by (simp add: sessions_ok_def registry_ok_def)
  then have "refused_generation generation ?r"
    using assms(4) cleaned by (auto simp: refused_generation_def)
  then show ?thesis by (simp add: reserve_def)
qed

theorem stale_generation_rejected_witness:
  "fst (reserve ''a'' None ''9-0'' id (fst (session_machine.run [Clean 5 5] (fresh 1 ''9''))) ()) =
     Inl manual_restart_required"
proof -
  have "reg_generation (fst (fresh 1 ''9'')) = ''9-0''" by (simp add: fresh_def new_registry_def)
  then show ?thesis
    using stale_generation_rejected[of "fresh 1 ''9''" "[Clean 5 5]" "''9-0''" "''a''" None id "()"]
    by (simp add: is_clean_def del: session_machine.run_simps)
qed

text \<open>A cleanup cancels every session, counts and disconnects exactly the sessions that were still
  running, and has published \<open>manual_cleanup\<close> as the reason of each of them.\<close>

theorem clean_cancels_all:
  assumes "statuses_ok m"
  shows "case clean (mark_cleaned t u) r m of (affected, fds, r', m') \<Rightarrow>
    (\<forall>s\<in>set (reg_states r'). st_cancelled s) \<and> cleaning r' = length (reg_states r) \<and>
    map st_ref (reg_states r') = map st_ref (reg_states r) \<and>
    affected = length (running r) \<and> fds = List.map_filter st_fd (running r) \<and>
    (\<forall>s\<in>set (running r). \<exists>v. fst (get_status t (st_sid s) m') = Some v \<and>
        ss_status v = ''ended'' \<and> ss_end_reason v = ''manual_cleanup'')"
proof -
  let ?m = "fold (mark_cleaned t u) (map st_sid (running r)) m"
  have "\<exists>v. fst (get_status t (st_sid s) ?m) = Some v \<and>
        ss_status v = ''ended'' \<and> ss_end_reason v = ''manual_cleanup''"
    if "s \<in> set (running r)" for s
    using fold_mark_marks[OF assms, of "st_sid s" "map st_sid (running r)" t u] that assms
    by (auto simp: marked_def get_status_def Let_def cleanup_find)
  then show ?thesis
    by (simp add: clean_eq cleaning_def filter_id_conv comp_def)
qed

theorem clean_cancels_all_witness:
  "case clean (mark_cleaned 5 5) (fst (session_machine.run [Reserve 0 0 0 0 ''a'' (Some 7) []] (fresh 2 ''9'')))
     (snd (session_machine.run [Reserve 0 0 0 0 ''a'' (Some 7) []] (fresh 2 ''9'')))
   of (affected, fds, r', m') \<Rightarrow> \<forall>s\<in>set (reg_states r'). st_cancelled s"
proof -
  let ?s = "session_machine.run [Reserve 0 0 0 0 ''a'' (Some 7) []] (fresh 2 ''9'')"
  have "sessions_ok ?s" by (rule session_machine.run_inv) simp
  then have "statuses_ok (snd ?s)" by (simp add: sessions_ok_def)
  from clean_cancels_all[OF this, where t = 5 and u = 5 and r = "fst ?s"] show ?thesis
    by (auto split: prod.splits)
qed

text \<open>A granted lease holds its slot through everything, cleanups included, until it is released;
  the release gives back exactly one slot.\<close>

theorem lease_holds_slot:
  assumes "sessions_ok (r, m)"
    and "reserve sid fd g (set_active t t1 t2 u sid) r m = (Inr (Some lease), r', m')"
    and "Release (st_ref lease) \<notin> set es"
  shows "st_ref lease \<in> refs (fst (session_machine.run es (r', m'))) \<and>
    st_ref lease \<notin> refs (release (st_ref lease) (fst (session_machine.run es (r', m')))) \<and>
    length (reg_states (release (st_ref lease) (fst (session_machine.run es (r', m'))))) + 1 =
      length (reg_states (fst (session_machine.run es (r', m'))))"
proof -
  let ?s = "session_machine.run es (r', m')"
  have "sessions_ok (r', m')"
    using session_step_ok[OF assms(1), of "Reserve t t1 t2 u sid fd g"] assms(2) by simp
  then have "sessions_ok ?s" by (rule session_machine.run_inv)
  then have ok: "registry_ok (fst ?s)" by (simp add: sessions_ok_def)
  have "st_ref lease \<in> refs r'"
    using assms(2) by (auto simp: reserve_def refs_def Let_def split: if_splits)
  then have "st_ref lease \<in> refs (fst ?s)" using assms(3) by (intro run_keeps_ref) simp_all
  then show ?thesis
    using length_release[OF ok] by (auto simp: refs_def release_def)
qed

theorem lease_holds_slot_witness:
  "length (reg_states (release 0 (fst (session_machine.run [Clean 5 5]
     (snd (reserve ''a'' None [] (set_active 0 0 0 0 ''a'') (new_registry 1 ''9'') [])))))) = 0"
proof -
  let ?lease = "\<lparr>st_ref = 0, st_sid = ''a'', st_fd = None, st_generation = ''9-0'', st_cancelled = False\<rparr>"
  let ?r = "new_registry 1 ''9''"
  have ok: "sessions_ok (?r, [])" using fresh_ok[of 1 "''9''"] by (simp add: fresh_def)
  have res: "reserve ''a'' None [] (set_active 0 0 0 0 ''a'') ?r [] =
      (Inr (Some ?lease), ?r\<lparr>reg_states := [?lease], reg_next_ref := 1\<rparr>, set_active 0 0 0 0 ''a'' [])"
    by (simp add: reserve_def refused_generation_def slots_def new_registry_def Let_def)
  from lease_holds_slot[OF ok res, of "[Clean 5 5]"] show ?thesis
    by (simp add: res clean_eq)
qed

text \<open>A session id used again after a cleanup inherits the reason of its predecessor: when the
  cancelled session leaves late, the status of the running session becomes ended with
  \<open>manual_cleanup\<close>, and stays so.\<close>

theorem reused_sid_status:
  "let s = session_machine.run
       [Reserve 0 0 0 0 sid None [], Clean 1 1, Reserve 2 2 2 2 sid None (generation_of epoch 1),
        StatusOp (SetEnded 3 3 3 3 3 3 sid ManualCleanup no_figures)] (fresh 2 epoch)
   in (\<exists>x\<in>set (running (fst s)). st_sid x = sid) \<and>
      (\<exists>v. fst (get_status 4 sid (snd s)) = Some v \<and> ss_status v = ''ended'' \<and>
           ss_end_reason v = ''manual_cleanup'')"
  by (simp add: fresh_def new_registry_def reserve_def refused_generation_def slots_def clean_eq
      running_def generation_of_def mark_cleaned_def status_eval cancel_def Let_def) force

end
