(* ===== verification/Codec_Cache.thy ===== *)
theory Codec_Cache
  imports Machine Stream_Request
begin

text \<open>
  \<open>VideoCodecCache\<close>: which codec a channel of a device had, kept in memory and in a file of one
  line per entry (expiry, codec, key in hexadecimal, separated by tabs).  The file system is the
  argument \<open>outcome\<close> of the functions that write: the temporary file could not be opened, it
  replaced the old file, or the old file was removed and the renaming then failed.
\<close>

section \<open>The code\<close>

record cache_entry =
  ce_codec :: video_codec
  ce_expires :: int

record codec_cache =
  cc_ttl :: int
  cc_path :: string
  cc_items :: "cache_entry omap"

datatype persist_outcome = NotWritten | Replaced | LostFile

definition channel_code :: "channel_type \<Rightarrow> int" where
  "channel_code t = (case t of ChanAuto \<Rightarrow> 0 | ChanAnalog \<Rightarrow> 1 | ChanDigital \<Rightarrow> 2 | ChanDigitalIndex \<Rightarrow> 3)"

definition stream_code :: "stream_kind \<Rightarrow> int" where
  "stream_code s = (case s of MainStream \<Rightarrow> 0 | SubStream \<Rightarrow> 1)"

abbreviation newline :: char where
  "newline \<equiv> CHR 0x0A"

abbreviation tab :: char where
  "tab \<equiv> CHR 0x09"

definition make_key :: "stream_request \<Rightarrow> string" where
  "make_key r =
     sr_ip r @ [newline] @ show_int (sr_port r) @ [newline] @ show_int (sr_camera r) @ [newline] @
     show_int (channel_code (sr_channel_type r)) @ [newline] @ show_int (stream_code (sr_stream r))"

definition hex_low :: "nat \<Rightarrow> char" where
  "hex_low n = (if n < 10 then char_of (48 + n) else char_of (87 + n))"

definition hex_encode :: "string \<Rightarrow> string" where
  "hex_encode s = concat (map (\<lambda>c. [hex_low (byte c div 16), hex_low (byte c mod 16)]) s)"

fun hex_decode_loop :: "string \<Rightarrow> string option" where
  "hex_decode_loop (a # b # rest) =
     (if \<not> is_xdigit a \<or> \<not> is_xdigit b then None
      else map_option (Cons (char_of (16 * hex_value a + hex_value b))) (hex_decode_loop rest))"
| "hex_decode_loop _ = Some []"

definition hex_decode :: "string \<Rightarrow> string option" where
  "hex_decode s = (if length s mod 2 \<noteq> 0 then None else hex_decode_loop s)"

text \<open>\<open>std::getline(row, field, d)\<close>: it fails when nothing is left.\<close>

definition get_field :: "char \<Rightarrow> string \<Rightarrow> (string \<times> string) option" where
  "get_field d s =
     (if s = [] then None
      else case find_char d s of
             None \<Rightarrow> Some (s, [])
           | Some i \<Rightarrow> Some (take i s, drop (i + 1) s))"

definition codec_text :: "video_codec \<Rightarrow> string" where
  "codec_text c = (if c = H264 then ''h264'' else ''h265'')"

definition read_codec :: "string \<Rightarrow> video_codec" where
  "read_codec s = (if s = ''h264'' then H264 else if s = ''h265'' then H265 else CodecUnknown)"

definition read_row :: "int \<Rightarrow> string \<Rightarrow> (string \<times> cache_entry) option" where
  "read_row now line =
     Option.bind (get_field tab line) (\<lambda>(expires_text, rest).
     Option.bind (get_field tab rest) (\<lambda>(codec_text, rest).
     Option.bind (get_field newline rest) (\<lambda>(encoded_key, _).
     Option.bind (stoll expires_text) (\<lambda>(expires, _).
     Option.bind (hex_decode encoded_key) (\<lambda>key.
       if expires \<le> now \<or> read_codec codec_text = CodecUnknown then None
       else Some (key, \<lparr>ce_codec = read_codec codec_text, ce_expires = expires\<rparr>))))))"

definition load_row :: "int \<Rightarrow> string \<Rightarrow> cache_entry omap \<Rightarrow> cache_entry omap" where
  "load_row now line m = (case read_row now line of None \<Rightarrow> m | Some (k, e) \<Rightarrow> omap_set k e m)"

definition load_cache :: "int \<Rightarrow> int \<Rightarrow> string \<Rightarrow> string option \<Rightarrow> codec_cache" where
  "load_cache now ttl path disk =
     \<lparr>cc_ttl = ttl, cc_path = path,
      cc_items =
        (if ttl \<le> 0 \<or> path = [] then []
         else case disk of
                None \<Rightarrow> []
              | Some text \<Rightarrow> fold (load_row now) (getlines newline text) [])\<rparr>"

definition row_text :: "string \<times> cache_entry \<Rightarrow> string" where
  "row_text x =
     show_int (ce_expires (snd x)) @ [tab] @ codec_text (ce_codec (snd x)) @ [tab] @ hex_encode (fst x)"

definition file_text :: "int \<Rightarrow> cache_entry omap \<Rightarrow> string" where
  "file_text now m =
     concat (map (\<lambda>x. row_text x @ [newline]) (filter (\<lambda>(k, e). \<not> ce_expires e \<le> now) m))"

definition persist_locked ::
  "int \<Rightarrow> persist_outcome \<Rightarrow> codec_cache \<Rightarrow> string option \<Rightarrow> string option" where
  "persist_locked now outcome c disk =
     (if cc_ttl c \<le> 0 \<or> cc_path c = [] then disk
      else case outcome of
             NotWritten \<Rightarrow> disk
           | Replaced \<Rightarrow> Some (file_text now (cc_items c))
           | LostFile \<Rightarrow> None)"

text \<open>\<open>try_get\<close> returns whether the codec is known, and sets it.\<close>

definition try_get ::
  "int \<Rightarrow> int \<Rightarrow> persist_outcome \<Rightarrow> stream_request \<Rightarrow> codec_cache \<Rightarrow> string option \<Rightarrow>
   bool \<times> video_codec \<times> codec_cache \<times> string option" where
  "try_get now now' outcome r c disk =
     (if cc_ttl c \<le> 0 then (False, CodecUnknown, c, disk)
      else case omap_find (cc_items c) (make_key r) of
             None \<Rightarrow> (False, CodecUnknown, c, disk)
           | Some e \<Rightarrow>
               if ce_expires e \<le> now
               then let c = c\<lparr>cc_items := omap_erase (make_key r) (cc_items c)\<rparr>
                    in (False, CodecUnknown, c, persist_locked now' outcome c disk)
               else (ce_codec e = H264 \<or> ce_codec e = H265, ce_codec e, c, disk))"

definition set_codec ::
  "int \<Rightarrow> int \<Rightarrow> persist_outcome \<Rightarrow> stream_request \<Rightarrow> video_codec \<Rightarrow> codec_cache \<Rightarrow> string option \<Rightarrow>
   codec_cache \<times> string option" where
  "set_codec now now' outcome r codec c disk =
     (if cc_ttl c \<le> 0 \<or> (codec \<noteq> H264 \<and> codec \<noteq> H265) then (c, disk)
      else let c = c\<lparr>cc_items := omap_set (make_key r)
                       \<lparr>ce_codec = codec, ce_expires = now + cc_ttl c\<rparr> (cc_items c)\<rparr>
           in (c, persist_locked now' outcome c disk))"

section \<open>Keys\<close>

lemma last_split:
  "x \<notin> set b \<Longrightarrow> x \<notin> set b' \<Longrightarrow> a @ x # b = a' @ x # b' \<longleftrightarrow> a = a' \<and> b = b'"
  by (auto simp: append_eq_append_conv2 append_eq_Cons_conv Cons_eq_append_conv)

lemma show_int_no_control: "byte c < 32 \<Longrightarrow> c \<notin> set (show_int i)"
  using show_int_chars[of c i] by (auto simp: byte_simps)

lemma show_int_no_separator [simp]: "newline \<notin> set (show_int i)" "tab \<notin> set (show_int i)"
  by (simp_all add: show_int_no_control)

lemma make_key_eq:
  "make_key r = make_key r' \<longleftrightarrow>
     sr_ip r = sr_ip r' \<and> sr_port r = sr_port r' \<and> sr_camera r = sr_camera r' \<and>
     sr_channel_type r = sr_channel_type r' \<and> sr_stream r = sr_stream r'"
proof -
  have chan: "channel_code a = channel_code b \<longleftrightarrow> a = b" for a b
    by (cases a; cases b) (simp_all add: channel_code_def)
  have stream: "stream_code a = stream_code b \<longleftrightarrow> a = b" for a b
    by (cases a; cases b) (simp_all add: stream_code_def)
  have shape: "make_key q =
      (((sr_ip q @ newline # show_int (sr_port q)) @ newline # show_int (sr_camera q)) @
       newline # show_int (channel_code (sr_channel_type q))) @ newline # show_int (stream_code (sr_stream q))"
    for q by (simp add: make_key_def)
  show ?thesis
    unfolding shape by (subst last_split, simp, simp)+ (auto simp: chan stream)
qed

section \<open>Hexadecimal\<close>

lemma hex_low_value [simp]: "n < 16 \<Longrightarrow> hex_value (hex_low n) = n"
  by (auto simp: hex_low_def hex_value_def byte_simps)

lemma hex_low_xdigit [simp]: "n < 16 \<Longrightarrow> is_xdigit (hex_low n)"
  by (auto simp: hex_low_def byte_simps)

lemma hex_encode_Cons:
  "hex_encode (c # s) = hex_low (byte c div 16) # hex_low (byte c mod 16) # hex_encode s"
  by (simp add: hex_encode_def)

lemma hex_decode_encode [simp]: "hex_decode (hex_encode s) = Some s"
proof -
  have "length (hex_encode s) = 2 * length s" by (induction s) (simp_all add: hex_encode_def)
  moreover have "hex_decode_loop (hex_encode s) = Some s"
    by (induction s) (simp_all add: hex_encode_Cons, simp add: hex_encode_def)
  ultimately show ?thesis by (simp add: hex_decode_def)
qed

lemma hex_encode_xdigit: "c \<in> set (hex_encode s) \<Longrightarrow> is_xdigit c"
  by (induction s) (auto simp: hex_encode_def)

lemma hex_encode_no_control: "byte c < 32 \<Longrightarrow> c \<notin> set (hex_encode s)"
  using hex_encode_xdigit[of c s] by (auto simp: byte_simps)

section \<open>The file\<close>

definition entry_ok :: "cache_entry \<Rightarrow> bool" where
  "entry_ok e \<longleftrightarrow> ce_codec e \<in> {H264, H265}"

definition kept :: "int \<Rightarrow> cache_entry \<Rightarrow> bool" where
  "kept now e \<longleftrightarrow> in_int64 (ce_expires e) \<and> \<not> ce_expires e \<le> now"

lemma get_field_until: "d \<notin> set a \<Longrightarrow> get_field d (a @ d # rest) = Some (a, rest)"
  by (simp add: get_field_def find_char_append)

lemma get_field_last: "d \<notin> set a \<Longrightarrow> a \<noteq> [] \<Longrightarrow> get_field d a = Some (a, [])"
  by (simp add: get_field_def find_char_None[THEN iffD2])

lemma codec_text_facts [simp]:
  "tab \<notin> set (codec_text c)" "newline \<notin> set (codec_text c)"
  "c \<in> {H264, H265} \<Longrightarrow> read_codec (codec_text c) = c"
  by (auto simp: codec_text_def read_codec_def)

lemma read_row_text:
  assumes "entry_ok e" and "k \<noteq> []"
  shows "read_row now (row_text (k, e)) = (if kept now e then Some (k, e) else None)"
proof -
  have "hex_encode k \<noteq> []" using assms(2) by (cases k) (simp_all add: hex_encode_def)
  then have fields: "get_field newline (hex_encode k) = Some (hex_encode k, [])"
    by (simp add: get_field_last hex_encode_no_control)
  have codec: "read_codec (codec_text (ce_codec e)) = ce_codec e" "ce_codec e \<noteq> CodecUnknown"
    using assms(1) by (auto simp: entry_ok_def)
  show ?thesis
    using assms(1)
    by (simp add: read_row_def row_text_def get_field_until fields codec kept_def stoll_def)
qed

lemma row_text_no_newline: "newline \<notin> set (row_text x)"
  by (simp add: row_text_def hex_encode_no_control)

lemma getlines_file:
  "getlines newline (file_text now m) = map row_text (filter (\<lambda>(k, e). \<not> ce_expires e \<le> now) m)"
proof -
  have "concat (map (\<lambda>x. row_text x @ [newline]) xs) = concat (map (\<lambda>l. l @ [newline]) (map row_text xs))" for xs
    by (simp add: comp_def)
  then show ?thesis
    unfolding file_text_def by (simp only:) (rule getlines_concat, auto simp: row_text_no_newline)
qed

definition items_ok :: "cache_entry omap \<Rightarrow> bool" where
  "items_ok m \<longleftrightarrow> omap_ok m \<and> (\<forall>(k, e)\<in>set m. k \<noteq> [] \<and> entry_ok e)"

lemma fold_load_rows:
  assumes "\<forall>(k, e)\<in>set xs. k \<noteq> [] \<and> entry_ok e"
  shows "fold (load_row now) (map row_text xs) m = std_map.store_all (filter (\<lambda>(k, e). kept now e) xs) m"
  using assms
proof (induction xs arbitrary: m)
  case (Cons x xs)
  obtain k e where x: "x = (k, e)" by (cases x)
  then show ?case
    using Cons by (simp add: load_row_def read_row_text std_map.store_all_def)
qed (simp add: std_map.store_all_def)

lemma load_file_items:
  assumes "items_ok m" and "now \<le> now'" and "0 < ttl" and "path \<noteq> []"
  shows "cc_items (load_cache now' ttl path (Some (file_text now m))) =
    std_map.store_all (filter (\<lambda>(k, e). kept now' e) m) []"
proof -
  let ?live = "filter (\<lambda>(k, e). \<not> ce_expires e \<le> now) m"
  have "filter (\<lambda>(k, e). kept now' e) ?live = filter (\<lambda>(k, e). kept now' e) m"
    unfolding filter_filter using assms(2) by (intro filter_cong) (auto simp: kept_def)
  moreover have "fold (load_row now') (map row_text ?live) [] =
      std_map.store_all (filter (\<lambda>(k, e). kept now' e) ?live) []"
    using assms(1) by (intro fold_load_rows) (auto simp: items_ok_def)
  ultimately show ?thesis
    using assms(3,4) by (simp add: load_cache_def getlines_file)
qed

lemma load_file:
  assumes "items_ok m" and "now \<le> now'" and "0 < ttl" and "path \<noteq> []"
  shows "omap_find (cc_items (load_cache now' ttl path (Some (file_text now m)))) k =
    (case omap_find m k of None \<Rightarrow> None | Some e \<Rightarrow> if kept now' e then Some e else None)"
proof -
  have erased: "filter (\<lambda>(k, e). kept now' e) m = omap_erase_if (\<lambda>e. \<not> kept now' e) m"
    by (simp add: omap_erase_if_def)
  have "distinct (map fst (filter (\<lambda>(k, e). kept now' e) m))"
    using assms(1) by (simp add: items_ok_def omap_ok_distinct distinct_map_filter)
  from std_map.lookup_store_all_distinct[OF this, of k] show ?thesis
    unfolding load_file_items[OF assms]
    using assms(1) omap_find_erase_if[of m "\<lambda>e. \<not> kept now' e" k]
    by (simp add: items_ok_def erased omap_find_def split: option.splits)
qed

section \<open>The cache over time\<close>

text \<open>
  What threads and restarts do to the cache and its file.  The history is the specification's: every
  entry that was ever stored, under its key.
\<close>

record cache_system =
  cs_cache :: codec_cache
  cs_disk :: "string option"
  cs_history :: "(string \<times> cache_entry) list"

datatype cache_event =
    CacheGet int int persist_outcome stream_request
  | CacheSet int int persist_outcome stream_request video_codec
  | Restart int int string

definition stored_entry :: "int \<Rightarrow> stream_request \<Rightarrow> video_codec \<Rightarrow> codec_cache \<Rightarrow> string \<times> cache_entry" where
  "stored_entry now r codec c = (make_key r, \<lparr>ce_codec = codec, ce_expires = now + cc_ttl c\<rparr>)"

fun cache_step :: "cache_event \<Rightarrow> cache_system \<Rightarrow> cache_system" where
  "cache_step (CacheGet now now' outcome r) s =
     (case try_get now now' outcome r (cs_cache s) (cs_disk s) of
        (_, _, c, disk) \<Rightarrow> s\<lparr>cs_cache := c, cs_disk := disk\<rparr>)"
| "cache_step (CacheSet now now' outcome r codec) s =
     (case set_codec now now' outcome r codec (cs_cache s) (cs_disk s) of
        (c, disk) \<Rightarrow> s\<lparr>cs_cache := c, cs_disk := disk,
                        cs_history := cs_history s @ [stored_entry now r codec (cs_cache s)]\<rparr>)"
| "cache_step (Restart now ttl path) s = s\<lparr>cs_cache := load_cache now ttl path (cs_disk s)\<rparr>"

definition from_history :: "(string \<times> cache_entry) list \<Rightarrow> cache_entry omap \<Rightarrow> bool" where
  "from_history h m \<longleftrightarrow> items_ok m \<and> set m \<subseteq> set h"

definition cache_inv :: "cache_system \<Rightarrow> bool" where
  "cache_inv s \<longleftrightarrow>
     from_history (cs_history s) (cc_items (cs_cache s)) \<and>
     (\<forall>text. cs_disk s = Some text \<longrightarrow>
        (\<exists>rows. text = concat (map (\<lambda>x. row_text x @ [newline]) rows) \<and> set rows \<subseteq> set (cs_history s) \<and>
           (\<forall>(k, e)\<in>set rows. k \<noteq> [] \<and> entry_ok e)))"

lemma omap_set_subset: "set (omap_set k v m) \<subseteq> insert (k, v) (set m)"
  by (induction k v m rule: omap_set.induct) auto

lemma items_ok_set: "items_ok m \<Longrightarrow> k \<noteq> [] \<Longrightarrow> entry_ok e \<Longrightarrow> items_ok (omap_set k e m)"
  using omap_set_subset[of k e m] by (auto simp: items_ok_def)

lemma from_history_set:
  "from_history h m \<Longrightarrow> k \<noteq> [] \<Longrightarrow> entry_ok e \<Longrightarrow> from_history (h @ [(k, e)]) (omap_set k e m)"
  using omap_set_subset[of k e m] by (auto simp: from_history_def items_ok_set)

lemma from_history_erase: "from_history h m \<Longrightarrow> from_history h (omap_erase k m)"
  by (auto simp: from_history_def items_ok_def omap_ok_erase) (auto simp: omap_erase_def)

lemma from_history_store_all:
  assumes "\<forall>(k, e)\<in>set xs. k \<noteq> [] \<and> entry_ok e" and "set xs \<subseteq> set h" and "from_history h m"
  shows "from_history h (std_map.store_all xs m)"
  using assms
proof (induction xs arbitrary: m)
  case (Cons x xs)
  obtain k e where x: "x = (k, e)" by (cases x)
  have "from_history h (omap_set k e m)"
    using Cons.prems x omap_set_subset[of k e m] by (auto simp: from_history_def items_ok_set)
  then show ?case using Cons x by (simp add: std_map.store_all_def)
qed (simp add: std_map.store_all_def)

lemma persist_inv:
  assumes "from_history h (cc_items c)" and "cache_inv (s\<lparr>cs_history := h\<rparr>)"
  shows "cache_inv \<lparr>cs_cache = c, cs_disk = persist_locked now outcome c (cs_disk s), cs_history = h\<rparr>"
proof -
  let ?rows = "filter (\<lambda>(k, e). \<not> ce_expires e \<le> now) (cc_items c)"
  have "file_text now (cc_items c) = concat (map (\<lambda>x. row_text x @ [newline]) ?rows) \<and>
      set ?rows \<subseteq> set h \<and> (\<forall>(k, e)\<in>set ?rows. k \<noteq> [] \<and> entry_ok e)"
    using assms(1) by (auto simp: file_text_def from_history_def items_ok_def)
  then have "\<exists>rows. file_text now (cc_items c) = concat (map (\<lambda>x. row_text x @ [newline]) rows) \<and>
      set rows \<subseteq> set h \<and> (\<forall>(k, e)\<in>set rows. k \<noteq> [] \<and> entry_ok e)" by blast
  then show ?thesis
    using assms by (cases outcome) (simp_all add: cache_inv_def persist_locked_def)
qed

lemma make_key_not_Nil [simp]: "make_key r \<noteq> []"
  by (simp add: make_key_def)

lemma from_history_more: "from_history h m \<Longrightarrow> from_history (h @ [x]) m"
  by (auto simp: from_history_def)

lemma cache_inv_more: "cache_inv s \<Longrightarrow> cache_inv (s\<lparr>cs_history := cs_history s @ [x]\<rparr>)"
  by (fastforce simp: cache_inv_def from_history_more)

lemma load_inv:
  assumes "cache_inv s"
  shows "from_history (cs_history s) (cc_items (load_cache now ttl path (cs_disk s)))"
proof -
  have empty: "from_history h []" for h
    by (simp add: from_history_def items_ok_def omap_ok_def)
  show ?thesis
  proof (cases "cs_disk s")
    case (Some disk)
    then obtain rows where rows: "disk = concat (map (\<lambda>l. l @ [newline]) (map row_text rows))"
      "set rows \<subseteq> set (cs_history s)" "\<forall>(k, e)\<in>set rows. k \<noteq> [] \<and> entry_ok e"
      using assms by (auto simp: cache_inv_def comp_def)
    have "getlines newline disk = map row_text rows"
      unfolding rows(1) by (rule getlines_concat) (auto simp: row_text_no_newline)
    then show ?thesis
      using Some rows(2,3) empty from_history_store_all[of "filter (\<lambda>(k, e). kept now e) rows" "cs_history s" "[]"]
      by (auto simp: load_cache_def fold_load_rows)
  qed (simp add: load_cache_def empty)
qed

lemma cache_step_inv: "cache_inv s \<Longrightarrow> cache_inv (cache_step e s)"
proof (induction e s rule: cache_step.induct)
  case (1 now now' outcome r s)
  let ?c = "(cs_cache s)\<lparr>cc_items := omap_erase (make_key r) (cc_items (cs_cache s))\<rparr>"
  have "from_history (cs_history s) (cc_items ?c)"
    using 1 by (simp add: cache_inv_def from_history_erase)
  from persist_inv[OF this, of s now' outcome] 1
  show ?case by (cases s) (auto simp: try_get_def Let_def split: option.split)
next
  case (2 now now' outcome r codec s)
  let ?x = "stored_entry now r codec (cs_cache s)"
  let ?c = "(cs_cache s)\<lparr>cc_items := omap_set (fst ?x) (snd ?x) (cc_items (cs_cache s))\<rparr>"
  have more: "cache_inv (s\<lparr>cs_history := cs_history s @ [?x]\<rparr>)" using 2 by (rule cache_inv_more)
  show ?case
  proof (cases "cc_ttl (cs_cache s) \<le> 0 \<or> codec \<noteq> H264 \<and> codec \<noteq> H265")
    case False
    then have "from_history (cs_history s @ [?x]) (cc_items ?c)"
      using 2 from_history_set[of "cs_history s" "cc_items (cs_cache s)" "fst ?x" "snd ?x"]
      by (auto simp: cache_inv_def stored_entry_def entry_ok_def)
    from persist_inv[OF this more, of now' outcome] False
    show ?thesis by (cases s) (auto simp: set_codec_def stored_entry_def Let_def)
  qed (use more in \<open>simp add: set_codec_def\<close>)
next
  case (3 now ttl path s)
  then show ?case using load_inv[OF 3, of now ttl path] by (simp add: cache_inv_def)
qed

interpretation cache_machine: machine cache_step cache_inv
  by unfold_locales (rule cache_step_inv)

definition new_cache_system :: "int \<Rightarrow> int \<Rightarrow> string \<Rightarrow> cache_system" where
  "new_cache_system now ttl path =
     \<lparr>cs_cache = load_cache now ttl path None, cs_disk = None, cs_history = []\<rparr>"

lemma new_cache_inv: "cache_inv (new_cache_system now ttl path)"
  by (simp add: cache_inv_def new_cache_system_def load_cache_def from_history_def items_ok_def omap_ok_def)

section \<open>Properties\<close>

text \<open>Two requests share a cache entry exactly when they name the same device address, port,
  camera, kind of channel and stream, even for addresses that contain the separator; user name,
  password and session never matter.\<close>

theorem cache_key_identity:
  "make_key r = make_key r' \<longleftrightarrow>
     sr_ip r = sr_ip r' \<and> sr_port r = sr_port r' \<and> sr_camera r = sr_camera r' \<and>
     sr_channel_type r = sr_channel_type r' \<and> sr_stream r = sr_stream r'"
  by (rule make_key_eq)

text \<open>C36: A restart after the cache was written reads back every entry that has not expired since,
  under its key and with its codec and expiry, and nothing else.\<close>

theorem cache_file_roundtrip:
  assumes "items_ok (cc_items c)" and "0 < cc_ttl c" and "cc_path c \<noteq> []" and "now \<le> now'"
    and "\<forall>(k, e)\<in>set (cc_items c). in_int64 (ce_expires e)"
  shows "omap_find (cc_items (load_cache now' (cc_ttl c) (cc_path c) (persist_locked now Replaced c disk))) k =
    (case omap_find (cc_items c) k of
       None \<Rightarrow> None | Some e \<Rightarrow> if ce_expires e \<le> now' then None else Some e)"
proof -
  have "in_int64 (ce_expires e)" if "omap_find (cc_items c) k = Some e" for e
    using that assms(1,5) by (auto simp: items_ok_def omap_find_in)
  then show ?thesis
    using load_file[OF assms(1,4,2,3), of k] assms(2,3)
    by (auto simp: persist_locked_def kept_def split: option.split)
qed

theorem cache_file_roundtrip_witness:
  "omap_find (cc_items (load_cache 2 900 ''f'' (persist_locked 1 Replaced
     \<lparr>cc_ttl = 900, cc_path = ''f'', cc_items = [(''k'', \<lparr>ce_codec = H265, ce_expires = 5\<rparr>)]\<rparr> None))) ''k'' =
   Some \<lparr>ce_codec = H265, ce_expires = 5\<rparr>"
  using cache_file_roundtrip[of "\<lparr>cc_ttl = 900, cc_path = ''f'',
      cc_items = [(''k'', \<lparr>ce_codec = H265, ce_expires = 5\<rparr>)]\<rparr>" 1 2 None "''k''"]
  by (simp add: items_ok_def entry_ok_def omap_ok_def omap_find_def in_int64_def)

text \<open>The cache never invents a codec: in any sequence of lookups, stores, failing writes and
  restarts, a lookup that succeeds returns a codec that was once stored for the same device channel
  and stream, with an expiry that has not passed.\<close>

theorem cache_answers_from_history:
  assumes "s = cache_machine.run es (new_cache_system t ttl path)"
    and "try_get now now' outcome r (cs_cache s) (cs_disk s) = (True, codec, c, disk)"
  shows "\<exists>e. (make_key r, e) \<in> set (cs_history s) \<and> ce_codec e = codec \<and> now < ce_expires e \<and>
             codec \<in> {H264, H265}"
proof -
  have "cache_inv s" unfolding assms(1) by (rule cache_machine.run_inv) (rule new_cache_inv)
  then have h: "from_history (cs_history s) (cc_items (cs_cache s))" by (simp add: cache_inv_def)
  obtain e where e: "omap_find (cc_items (cs_cache s)) (make_key r) = Some e" "\<not> ce_expires e \<le> now"
      "ce_codec e = codec" "codec \<in> {H264, H265}"
    using assms(2) by (auto simp: try_get_def Let_def split: if_splits option.splits)
  then have "(make_key r, e) \<in> set (cc_items (cs_cache s))"
    using h by (simp add: from_history_def items_ok_def omap_find_in)
  then show ?thesis using e h by (auto simp: from_history_def)
qed

definition cache_example_request :: stream_request where
  "cache_example_request =
     \<lparr>sr_option = RealPlay, sr_ip = ''n'', sr_port = 8000, sr_username = ''u'', sr_password = ''p'',
      sr_camera = 1, sr_channel_type = ChanAuto, sr_stream = MainStream, sr_speed = Fin 1, sr_start = 0,
      sr_end = 0, sr_sid = ''s'', sr_generation = []\<rparr>"

definition cache_example :: cache_system where
  "cache_example = cache_machine.run [CacheSet 1 1 Replaced cache_example_request H264] (new_cache_system 0 900 ''f'')"

theorem cache_answers_from_history_witness:
  "\<exists>e. (make_key cache_example_request, e) \<in> set (cs_history cache_example) \<and> ce_codec e = H264 \<and>
       2 < ce_expires e \<and> H264 \<in> {H264, H265}"
proof (rule cache_answers_from_history[OF cache_example_def])
  show "try_get 2 2 Replaced cache_example_request (cs_cache cache_example) (cs_disk cache_example) =
      (True, H264, cs_cache cache_example, cs_disk cache_example)"
    by (simp add: cache_example_def new_cache_system_def load_cache_def set_codec_def try_get_def
        omap_find_def Let_def)
qed

text \<open>A codec that was stored is found for the same channel until its lifetime ends and not
  afterwards, whatever was stored for other channels in between.\<close>

theorem cache_lifetime:
  assumes "items_ok (cc_items c)" and "codec \<in> {H264, H265}" and "0 < cc_ttl c"
    and "make_key r' \<noteq> make_key r"
  shows "fst (try_get now now' o1 r
      (fst (set_codec t2 t2' o2 r' codec' (fst (set_codec t t' o3 r codec c d)) d')) d'') =
      (now < t + cc_ttl c) \<and>
    (now < t + cc_ttl c \<longrightarrow>
      fst (snd (try_get now now' o1 r
        (fst (set_codec t2 t2' o2 r' codec' (fst (set_codec t t' o3 r codec c d)) d')) d'')) = codec)"
  using assms
  by (auto simp: set_codec_def try_get_def Let_def items_ok_def)

theorem cache_lifetime_witness:
  "fst (try_get 5 5 NotWritten cache_example_request
      (fst (set_codec 2 2 NotWritten (cache_example_request\<lparr>sr_camera := 2\<rparr>) H265
         (fst (set_codec 1 1 NotWritten cache_example_request H264
            \<lparr>cc_ttl = 900, cc_path = [], cc_items = []\<rparr> None)) None)) None)"
proof -
  let ?c = "\<lparr>cc_ttl = 900, cc_path = [], cc_items = []\<rparr>"
  have "make_key (cache_example_request\<lparr>sr_camera := 2\<rparr>) \<noteq> make_key cache_example_request"
    by (simp add: make_key_eq cache_example_request_def)
  then show ?thesis
    using cache_lifetime[of ?c H264 "cache_example_request\<lparr>sr_camera := 2\<rparr>" cache_example_request
        5 5 NotWritten 2 2 NotWritten H265 1 1 NotWritten None None None]
    by (simp add: items_ok_def omap_ok_def)
qed

end
