(* ===== verification/Http_Request.thy ===== *)
theory Http_Request
  imports Query Config
begin

text \<open>
  \<open>read_http_request\<close>: collecting the bytes of a request until the blank line, and taking the
  method, the path, the query and the headers out of them.  What \<open>poll\<close>, \<open>recv\<close> and the clock do
  in each round of the loop is the list of events the loop is run on.
\<close>

section \<open>The code\<close>

definition crlf :: string where
  "crlf = [CHR 0x0D, CHR 0x0A]"

datatype recv_event =
    ServerStopping              \<comment> \<open>\<open>g_running\<close> is false at the top of the round\<close>
  | DeadlineReached             \<comment> \<open>15 s have passed\<close>
  | NothingYet                  \<comment> \<open>\<open>poll\<close> timed out, or \<open>recv\<close> would block or was interrupted\<close>
  | PeerGone                    \<comment> \<open>\<open>recv\<close> returned 0 or an error\<close>
  | Received string

definition header_limit :: nat where
  "header_limit = 16384"

definition recv_buffer :: nat where
  "recv_buffer = 4096"

definition header_complete :: "string \<Rightarrow> bool" where
  "header_complete raw \<longleftrightarrow> find_sub (crlf @ crlf) raw \<noteq> None \<or> length raw \<ge> header_limit"

text \<open>\<open>None\<close>: the loop still waits after these rounds.\<close>

fun read_raw :: "recv_event list \<Rightarrow> string \<Rightarrow> string res option" where
  "read_raw es raw =
     (if header_complete raw then Some (Inr raw)
      else case es of
             [] \<Rightarrow> None
           | ServerStopping # es \<Rightarrow> Some (Inl ClientDisconnected)
           | DeadlineReached # es \<Rightarrow> Some (Inl (BridgeError 400 ''REQUEST_TIMEOUT''))
           | NothingYet # es \<Rightarrow> read_raw es raw
           | PeerGone # es \<Rightarrow> Some (Inl ClientDisconnected)
           | Received d # es \<Rightarrow> read_raw es (raw @ d))"

declare read_raw.simps [simp del]

text \<open>\<open>stream >> word\<close>: skip white space, take what is not; fail when nothing is left.\<close>

definition next_word :: "string \<Rightarrow> (string \<times> string) option" where
  "next_word s =
     (let r = dropWhile is_space s
      in if r = [] then None
         else Some (takeWhile (\<lambda>c. \<not> is_space c) r, dropWhile (\<lambda>c. \<not> is_space c) r))"

record http_request =
  rq_method :: string
  rq_path :: string
  rq_query :: query
  rq_headers :: query

definition header_line :: "string \<Rightarrow> query \<Rightarrow> query" where
  "header_line line hs =
     (case find_char (CHR '':'') line of
        None \<Rightarrow> hs
      | Some i \<Rightarrow> omap_set (map to_lower (take i line)) (trim (drop (i + 1) line)) hs)"

definition header_lines :: "string \<Rightarrow> query \<Rightarrow> query" where
  "header_lines s hs = fold header_line (takeWhile (\<lambda>l. l \<noteq> [CHR 0x0D]) (getlines (CHR 0x0A) s)) hs"

definition bad_request :: failure where
  "bad_request = BridgeError 400 ''BAD_REQUEST''"

definition request_line :: "string \<Rightarrow> (string \<times> string \<times> string) option" where
  "request_line s =
     Option.bind (next_word s) (\<lambda>(method, s).
     Option.bind (next_word s) (\<lambda>(target, s).
     Option.bind (next_word s) (\<lambda>(version, s). Some (method, target, version))))"

definition parse_http_request :: "string \<Rightarrow> http_request res" where
  "parse_http_request raw =
     (case find_sub crlf raw of
        None \<Rightarrow> Inl bad_request
      | Some line_end \<Rightarrow>
          bind_res (res_of_option bad_request (request_line (take line_end raw))) (\<lambda>(method, target, _).
            let query_at = find_char (CHR ''?'') target
            in Inr \<lparr>rq_method = method,
                    rq_path = (case query_at of None \<Rightarrow> target | Some i \<Rightarrow> take i target),
                    rq_query = (case query_at of None \<Rightarrow> [] | Some i \<Rightarrow> parse_query (drop (i + 1) target)),
                    rq_headers = header_lines (drop (line_end + 2) raw) []\<rparr>))"

definition read_http_request :: "recv_event list \<Rightarrow> http_request res option" where
  "read_http_request es = map_option (\<lambda>m. bind_res m parse_http_request) (read_raw es [])"

section \<open>Collecting\<close>

definition chunk_ok :: "recv_event \<Rightarrow> bool" where
  "chunk_ok e = (case e of Received d \<Rightarrow> d \<noteq> [] \<and> length d \<le> recv_buffer | _ \<Rightarrow> True)"

definition received :: "recv_event list \<Rightarrow> string" where
  "received es = concat (map (\<lambda>e. case e of Received d \<Rightarrow> d | _ \<Rightarrow> []) es)"

lemma read_raw_done: "header_complete raw \<Longrightarrow> read_raw es raw = Some (Inr raw)"
  by (subst read_raw.simps) simp

lemma read_raw_more:
  "\<not> header_complete raw \<Longrightarrow> read_raw [] raw = None"
  "\<not> header_complete raw \<Longrightarrow> read_raw (ServerStopping # es) raw = Some (Inl ClientDisconnected)"
  "\<not> header_complete raw \<Longrightarrow> read_raw (DeadlineReached # es) raw = Some (Inl (BridgeError 400 ''REQUEST_TIMEOUT''))"
  "\<not> header_complete raw \<Longrightarrow> read_raw (NothingYet # es) raw = read_raw es raw"
  "\<not> header_complete raw \<Longrightarrow> read_raw (PeerGone # es) raw = Some (Inl ClientDisconnected)"
  "\<not> header_complete raw \<Longrightarrow> read_raw (Received d # es) raw = read_raw es (raw @ d)"
  by (simp add: read_raw.simps[of "[]"], simp_all add: read_raw.simps[of "e # es" for e])

lemma received_simps [simp]:
  "received [] = []"
  "received (NothingYet # es) = received es"
  "received (Received d # es) = d @ received es"
  by (simp_all add: received_def)

lemma read_raw_complete: "read_raw es raw = Some (Inr r) \<Longrightarrow> header_complete r"
proof (induction es arbitrary: raw)
  case (Cons e es)
  then show ?case
    by (cases "header_complete raw"; cases e) (auto simp: read_raw_done read_raw_more)
qed (auto simp: read_raw.simps split: if_splits)

lemma read_raw_length:
  "read_raw es raw = Some (Inr r) \<Longrightarrow> \<forall>e\<in>set es. chunk_ok e \<Longrightarrow>
     length raw < header_limit + recv_buffer \<Longrightarrow> length r < header_limit + recv_buffer"
proof (induction es arbitrary: raw)
  case (Cons e es)
  show ?case
  proof (cases "header_complete raw")
    case False
    then have "length raw < header_limit" by (simp add: header_complete_def)
    then show ?thesis
      using False Cons by (cases e) (fastforce simp: read_raw_more chunk_ok_def)+
  qed (use Cons in \<open>simp add: read_raw_done\<close>)
qed (auto simp: read_raw.simps split: if_splits)

text \<open>Reading on until the whole text has come, however it is cut into pieces.\<close>

lemma read_raw_waits:
  assumes "\<forall>e\<in>set es. e = NothingYet \<or> (\<exists>d. e = Received d)"
    and "header_complete (raw @ received es)"
    and "\<And>u. strict_prefix u (raw @ received es) \<Longrightarrow> \<not> header_complete u"
  shows "read_raw es raw = Some (Inr (raw @ received es))"
  using assms
proof (induction es arbitrary: raw)
  case Nil
  then show ?case by (simp add: read_raw_done)
next
  case (Cons e es)
  show ?case
  proof (cases "header_complete raw")
    case True
    then have "\<not> strict_prefix raw (raw @ received (e # es))" using Cons.prems(3) by blast
    then have "received (e # es) = []" by (simp add: strict_prefix_def)
    then show ?thesis using True by (simp add: read_raw_done)
  next
    case False
    consider "e = NothingYet" | d where "e = Received d" using Cons.prems(1) by auto
    then show ?thesis
    proof cases
      case 1
      then show ?thesis using Cons False by (simp add: read_raw_more)
    next
      case (2 d)
      then show ?thesis
        using Cons.IH[of "raw @ d"] Cons.prems False by (simp add: read_raw_more)
    qed
  qed
qed

section \<open>Rendering\<close>

text \<open>A head of lines, each ended by CR LF, and the blank line after them.\<close>

definition head_text :: "string list \<Rightarrow> string" where
  "head_text ls = concat (map (\<lambda>l. l @ crlf) ls) @ crlf"

definition line_ok :: "string \<Rightarrow> bool" where
  "line_ok l \<longleftrightarrow> l \<noteq> [] \<and> CHR 0x0D \<notin> set l \<and> CHR 0x0A \<notin> set l"

definition header_ok :: "string \<times> string \<Rightarrow> bool" where
  "header_ok h \<longleftrightarrow>
     CHR '':'' \<notin> set (fst h) \<and> CHR 0x0D \<notin> set (fst h @ snd h) \<and> CHR 0x0A \<notin> set (fst h @ snd h) \<and>
     (snd h = [] \<or> \<not> ws_char (hd (snd h)) \<and> \<not> ws_char (last (snd h)))"

definition word_ok :: "string \<Rightarrow> bool" where
  "word_ok w \<longleftrightarrow> w \<noteq> [] \<and> (\<forall>c\<in>set w. \<not> is_space c)"

definition header_text :: "string \<times> string \<Rightarrow> string" where
  "header_text h = fst h @ '': '' @ snd h"

definition first_line :: "string \<Rightarrow> string \<Rightarrow> string" where
  "first_line method target = method @ '' '' @ target @ '' HTTP/1.1''"

definition render_request :: "string \<Rightarrow> string \<Rightarrow> (string \<times> string) list \<Rightarrow> string" where
  "render_request method target hs = head_text (first_line method target # map header_text hs)"

definition request_of :: "string \<Rightarrow> string \<Rightarrow> (string \<times> string) list \<Rightarrow> http_request" where
  "request_of method target hs =
     (let query_at = find_char (CHR ''?'') target
      in \<lparr>rq_method = method,
          rq_path = (case query_at of None \<Rightarrow> target | Some i \<Rightarrow> take i target),
          rq_query = (case query_at of None \<Rightarrow> [] | Some i \<Rightarrow> parse_query (drop (i + 1) target)),
          rq_headers = std_map.store_all (map (\<lambda>h. (map to_lower (fst h), snd h)) hs) []\<rparr>)"

lemma head_text_Cons: "head_text (l # ls) = l @ crlf @ head_text ls"
  by (simp add: head_text_def)

text \<open>The blank line is the first place where two line ends meet.\<close>

lemma blank_line_last:
  assumes "\<forall>l\<in>set ls. line_ok l" and "prefix (crlf @ crlf) (drop i (head_text ls))"
  shows "i + 4 = length (head_text ls)"
  using assms
proof (induction ls arbitrary: i)
  case Nil
  then show ?case by (auto simp: head_text_def crlf_def drop_Cons' prefix_def split: if_splits)
next
  case (Cons l ls)
  have l: "line_ok l" using Cons.prems(1) by simp
  have "i < length l \<or> i = length l \<or> i = length l + 1 \<or> (\<exists>j. i = length l + 2 + j)"
    by presburger
  then consider "i < length l" | "i = length l" | "i = length l + 1" | j where "i = length l + 2 + j"
    by blast
  then show ?case
  proof cases
    case 1
    then have "prefix (crlf @ crlf) (drop i l @ crlf @ head_text ls)"
      using Cons.prems(2) by (simp add: head_text_Cons)
    moreover have "hd (drop i l) \<in> set l" "drop i l \<noteq> []"
      using 1 by (simp_all add: hd_drop_conv_nth)
    ultimately have "CHR 0x0D \<in> set l" by (cases "drop i l") (auto simp: crlf_def)
    then show ?thesis using l by (simp add: line_ok_def)
  next
    case 2
    then have p: "prefix crlf (head_text ls)"
      using Cons.prems(2) by (simp add: head_text_Cons crlf_def)
    show ?thesis
    proof (cases ls)
      case Nil
      then show ?thesis using 2 by (simp add: head_text_def crlf_def)
    next
      case (Cons l' ls')
      then show ?thesis
        using p Cons.prems Cons.prems(1) \<open>\<forall>l\<in>set (l # ls). line_ok l\<close>
        by (cases l') (auto simp: head_text_Cons line_ok_def crlf_def)
    qed
  next
    case 3
    then show ?thesis using Cons.prems(2) by (simp add: head_text_Cons crlf_def)
  next
    case (4 j)
    then show ?thesis using Cons.IH[of j] Cons.prems by (simp add: head_text_Cons crlf_def)
  qed
qed

lemma no_early_blank_line:
  assumes "\<forall>l\<in>set ls. line_ok l" and "strict_prefix u (head_text ls)"
  shows "find_sub (crlf @ crlf) u = None"
proof (rule ccontr)
  assume "find_sub (crlf @ crlf) u \<noteq> None"
  then obtain i where i: "find_sub (crlf @ crlf) u = Some i" by auto
  have "prefix (crlf @ crlf) (drop i u)" using i by (simp add: find_sub_Some)
  moreover have "i + 4 \<le> length u" using find_sub_bound[OF i] by (simp add: crlf_def)
  moreover obtain v where v: "head_text ls = u @ v" "v \<noteq> []"
    using assms(2) by (auto simp: strict_prefix_def prefix_def)
  ultimately have "i + 4 = length (head_text ls)"
    using assms(1) by (intro blank_line_last) auto
  then show False using v \<open>i + 4 \<le> length u\<close> by simp
qed

lemma blank_line_found: "ls \<noteq> [] \<Longrightarrow> find_sub (crlf @ crlf) (head_text ls) \<noteq> None"
proof (induction ls rule: rev_induct)
  case (snoc l ls)
  have "head_text (ls @ [l]) = (concat (map (\<lambda>l. l @ crlf) ls) @ l) @ (crlf @ crlf)"
    by (simp add: head_text_def)
  then have "sublist (crlf @ crlf) (head_text (ls @ [l]))" by (metis sublist_appendI append_Nil2)
  then show ?case by (metis find_sub_sublist)
qed simp

lemma find_line_end: "line_ok l \<Longrightarrow> find_sub crlf (l @ crlf @ rest) = Some (length l)"
proof (induction l)
  case (Cons c l)
  then show ?case
    by (cases "l = []") (auto simp: line_ok_def crlf_def)
qed (simp add: line_ok_def)

lemma next_word_first:
  assumes "word_ok w" and "rest = [] \<or> is_space (hd rest)"
  shows "next_word (w @ rest) = Some (w, rest)" "next_word (CHR '' '' # w @ rest) = Some (w, rest)"
proof -
  have w: "w \<noteq> []" "\<And>c. c \<in> set w \<Longrightarrow> \<not> is_space c" using assms(1) by (auto simp: word_ok_def)
  have skip: "dropWhile is_space (w @ rest) = w @ rest" using w by (cases w) auto
  have keep: "takeWhile (\<lambda>c. \<not> is_space c) (w @ rest) = w"
    using w assms(2) by (subst takeWhile_append2) (auto simp: takeWhile_eq_Nil_iff)
  have "dropWhile (\<lambda>c. \<not> is_space c) (w @ rest) = rest"
    using w assms(2) by (subst dropWhile_append2) (auto simp: dropWhile_eq_self_iff)
  then show "next_word (w @ rest) = Some (w, rest)" "next_word (CHR '' '' # w @ rest) = Some (w, rest)"
    using w skip keep by (simp_all add: next_word_def Let_def byte_simps)
qed

lemma request_line_first:
  assumes "word_ok method" and "word_ok target"
  shows "request_line (first_line method target) = Some (method, target, ''HTTP/1.1'')"
proof -
  have sp: "is_space (CHR '' '')" by (simp add: byte_simps)
  have v: "word_ok ''HTTP/1.1''" by (simp add: word_ok_def byte_simps)
  show ?thesis
    using next_word_first(1)[OF assms(1), of "CHR '' '' # target @ '' HTTP/1.1''"]
      next_word_first(2)[OF assms(2), of "'' HTTP/1.1''"] next_word_first(2)[OF v, of "[]"] sp
    by (simp add: request_line_def first_line_def)
qed

lemma trim_padded:
  assumes "v = [] \<or> \<not> ws_char (hd v) \<and> \<not> ws_char (last v)"
  shows "trim (CHR '' '' # v @ [CHR 0x0D]) = v"
proof -
  have ws: "ws_char (CHR '' '')" "ws_char (CHR 0x0D)" by (simp_all add: ws_char_def)
  show ?thesis
  proof (cases "v = []")
    case False
    then obtain c cs where v: "v = c # cs" by (cases v) auto
    have "dropWhile ws_char (v @ [CHR 0x0D]) = v @ [CHR 0x0D]" using assms False v by simp
    moreover have "dropWhile ws_char (rev v) = rev v"
      using assms False by (simp add: dropWhile_eq_self_iff hd_rev)
    ultimately show ?thesis using ws by (simp add: trim_def)
  qed (simp add: trim_def ws)
qed

lemma header_line_text:
  assumes "header_ok h"
  shows "header_line (header_text h @ [CHR 0x0D]) hs = omap_set (map to_lower (fst h)) (snd h) hs"
proof -
  have "find_char (CHR '':'') (fst h @ CHR '':'' # CHR '' '' # snd h @ [CHR 0x0D]) = Some (length (fst h))"
    using assms by (intro find_char_append) (simp add: header_ok_def)
  moreover have "trim (CHR '' '' # snd h @ [CHR 0x0D]) = snd h"
    using assms by (intro trim_padded) (simp add: header_ok_def)
  ultimately show ?thesis by (simp add: header_line_def header_text_def)
qed

text \<open>Whatever follows the blank line is not read.\<close>

lemma header_lines_body:
  assumes "\<forall>h\<in>set hs. header_ok h"
  shows "header_lines (head_text (map header_text hs) @ body) m =
    std_map.store_all (map (\<lambda>h. (map to_lower (fst h), snd h)) hs) m"
proof -
  let ?lines = "map (\<lambda>h. header_text h @ [CHR 0x0D]) hs"
  have "head_text (map header_text hs) = concat (map (\<lambda>l. l @ [CHR 0x0A]) (?lines @ [[CHR 0x0D]]))"
    by (simp add: head_text_def crlf_def comp_def)
  moreover have "\<forall>l\<in>set (?lines @ [[CHR 0x0D]]). CHR 0x0A \<notin> set l"
    using assms by (auto simp: header_text_def header_ok_def)
  ultimately have "getlines (CHR 0x0A) (head_text (map header_text hs) @ body) =
      (?lines @ [[CHR 0x0D]]) @ getlines (CHR 0x0A) body"
    using getlines_append by metis
  moreover have "takeWhile (\<lambda>l. l \<noteq> [CHR 0x0D]) (?lines @ [CHR 0x0D] # getlines (CHR 0x0A) body) = ?lines"
    by (subst takeWhile_append2) (auto simp: header_text_def)
  moreover have "fold header_line ?lines m = std_map.store_all (map (\<lambda>h. (map to_lower (fst h), snd h)) hs) m"
    using assms by (induction hs arbitrary: m) (simp_all add: header_line_text std_map.store_all_def)
  ultimately show ?thesis by (simp add: header_lines_def)
qed

lemmas header_lines_text = header_lines_body[where body = "[]", simplified]

lemma first_line_ok: "word_ok method \<Longrightarrow> word_ok target \<Longrightarrow> line_ok (first_line method target)"
proof -
  assume a: "word_ok method" "word_ok target"
  have "is_space (CHR 0x0D)" "is_space (CHR 0x0A)" by (simp_all add: byte_simps)
  then show ?thesis using a by (auto simp: word_ok_def line_ok_def first_line_def)
qed

lemma header_text_ok: "header_ok h \<Longrightarrow> line_ok (header_text h)"
  by (auto simp: header_ok_def line_ok_def header_text_def)

lemma parse_render:
  assumes "word_ok method" "word_ok target" "\<forall>h\<in>set hs. header_ok h"
  shows "parse_http_request (render_request method target hs) = Inr (request_of method target hs)"
proof -
  let ?l = "first_line method target"
  have raw: "render_request method target hs = ?l @ crlf @ head_text (map header_text hs)"
    by (simp add: render_request_def head_text_Cons)
  have at: "find_sub crlf (render_request method target hs) = Some (length ?l)"
    unfolding raw by (rule find_line_end[OF first_line_ok[OF assms(1,2)]])
  have "take (length ?l) (render_request method target hs) = ?l"
    "drop (length ?l + 2) (render_request method target hs) = head_text (map header_text hs)"
    unfolding raw by (simp_all add: crlf_def)
  then show ?thesis
    unfolding parse_http_request_def at
    by (simp add: request_line_first[OF assms(1,2)] res_of_option_def request_of_def Let_def
        header_lines_text[OF assms(3)])
qed

section \<open>Properties\<close>

text \<open>C37: Reading a request takes its method, path, query and headers out of the text exactly as they
  were written: header names in lower case, the last of several headers with one name, values with
  their inner characters untouched.\<close>

theorem http_request_roundtrip:
  assumes "word_ok method" and "word_ok target" and "\<forall>h\<in>set hs. header_ok h"
  shows "parse_http_request (render_request method target hs) = Inr (request_of method target hs)"
  using assms by (rule parse_render)

theorem http_request_roundtrip_witness:
  "parse_http_request (render_request ''GET'' ''/healthz'' [(''X-A'', ''b c''), (''Host'', [])]) =
     Inr (request_of ''GET'' ''/healthz'' [(''X-A'', ''b c''), (''Host'', [])])"
  by (rule http_request_roundtrip) (simp_all add: word_ok_def header_ok_def ws_char_def byte_simps)

text \<open>The way the network cuts a request into pieces, and the idle rounds in between, make no
  difference: once all pieces of a request shorter than the limit have come, the loop has stopped
  exactly there and the request is the one that was sent.\<close>

theorem any_chunking:
  assumes "word_ok method" and "word_ok target" and "\<forall>h\<in>set hs. header_ok h"
    and "length (render_request method target hs) < header_limit"
    and "\<forall>e\<in>set es. e = NothingYet \<or> (\<exists>d. e = Received d)"
    and "received es = render_request method target hs"
  shows "read_http_request es = Some (Inr (request_of method target hs))"
proof -
  let ?ls = "first_line method target # map header_text hs"
  have ok: "\<forall>l\<in>set ?ls. line_ok l"
    using first_line_ok[OF assms(1,2)] header_text_ok assms(3) by auto
  have "\<not> header_complete u" if "strict_prefix u (render_request method target hs)" for u
    using no_early_blank_line[OF ok, of u] that assms(4)
    by (auto simp: header_complete_def render_request_def strict_prefix_def prefix_def)
  moreover have "header_complete (render_request method target hs)"
    using blank_line_found[of ?ls] by (simp add: header_complete_def render_request_def)
  ultimately have "read_raw es [] = Some (Inr (render_request method target hs))"
    using read_raw_waits[of es "[]"] assms(5,6) by simp
  then show ?thesis by (simp add: read_http_request_def parse_render[OF assms(1-3)])
qed

theorem any_chunking_witness:
  "read_http_request [NothingYet, Received ''GET /'', Received ('' HTTP/1.1'' @ [CHR 0x0D]), NothingYet,
     Received [CHR 0x0A, CHR 0x0D], Received [CHR 0x0A]] = Some (Inr (request_of ''GET'' ''/'' []))"
  by (rule any_chunking)
     (simp_all add: word_ok_def byte_simps render_request_def head_text_def first_line_def crlf_def
       header_limit_def)

text \<open>What is kept of a request head is bounded: it is never longer than the limit plus one
  receive buffer.  A head that is longer is not refused: it is cut where the loop stopped.\<close>

theorem request_head_bounded:
  assumes "read_raw es [] = Some (Inr r)" and "\<forall>e\<in>set es. chunk_ok e"
  shows "length r < header_limit + recv_buffer \<and>
    (find_sub (crlf @ crlf) r \<noteq> None \<or> header_limit \<le> length r)"
  using read_raw_length[OF assms] read_raw_complete[OF assms(1)]
  by (auto simp: header_complete_def header_limit_def)

theorem request_head_bounded_witness:
  "length (concat (replicate 4 (replicate 4096 CHR ''a''))) < header_limit + recv_buffer"
proof -
  define d :: string where "d = replicate 4096 CHR ''a''"
  have d: "set d \<subseteq> {CHR ''a''}" "length d = 4096" by (simp_all add: d_def)
  have no: "find_sub (crlf @ crlf) u = None" if "set u \<subseteq> {CHR ''a''}" for u
    using that by (induction u) (auto simp: crlf_def)
  have "\<not> header_complete u" if "set u \<subseteq> {CHR ''a''}" "length u < 16384" for u
    using no[OF that(1)] that(2) by (simp add: header_complete_def header_limit_def)
  then have more: "read_raw (Received d # es) u = read_raw es (u @ d)"
    if "set u \<subseteq> {CHR ''a''}" "length u < 16384" for u es
    using that by (simp add: read_raw_more)
  have four: "concat (replicate 4 d) = d @ d @ d @ d"
    by (simp add: numeral_eq_Suc)
  have "header_complete (d @ d @ d @ d)"
    by (simp add: header_complete_def header_limit_def d)
  then have "read_raw [Received d, Received d, Received d, Received d] [] = Some (Inr (d @ d @ d @ d))"
    using d by (simp add: more read_raw_done)
  moreover have "\<forall>e\<in>set [Received d, Received d, Received d, Received d]. chunk_ok e"
    using d by (auto simp: chunk_ok_def recv_buffer_def)
  ultimately show ?thesis
    unfolding d_def[symmetric] four by (rule request_head_bounded[THEN conjunct1])
qed

end
