(* ===== verification/Http_Response.thy ===== *)
theory Http_Response
  imports Http_Request Codec_Cache Session_Registry Byte_Queue
begin

text \<open>
  What the bridge writes: JSON bodies, their escaping, the head of a video response, the chunks of
  its body, and the atoms of the fragmented MP4 that decide them.  The functions give the bytes that
  \<open>send_text\<close> and \<open>send_chunk\<close> are asked to send; whether the client takes them is the matter of
  \<open>Socket_IO\<close>.
\<close>

section \<open>JSON\<close>

definition json_escape :: "string \<Rightarrow> string" where
  "json_escape s = concat (map (\<lambda>c. if c = CHR 0x22 \<or> c = CHR 0x5C then [CHR 0x5C, c] else [c]) s)"

definition status_text :: "int \<Rightarrow> string" where
  "status_text status =
     (if status = 200 then ''OK'' else if status = 202 then ''Accepted''
      else if status = 403 then ''Forbidden'' else if status = 409 then ''Conflict''
      else if status = 204 then ''No Content'' else if status = 400 then ''Bad Request''
      else if status = 404 then ''Not Found'' else if status = 405 then ''Method Not Allowed''
      else if status = 503 then ''Service Unavailable'' else ''Bad Gateway'')"

definition json_header_fields :: "nat \<Rightarrow> (string \<times> string) list" where
  "json_header_fields n =
     [(''Content-Type'', ''application/json; charset=utf-8''),
      (''Content-Length'', show_nat n),
      (''Cache-Control'', ''no-store''),
      (''Access-Control-Allow-Origin'', ''*''),
      (''Connection'', ''close'')]"

definition status_line :: "int \<Rightarrow> string" where
  "status_line status = ''HTTP/1.1 '' @ show_int status @ '' '' @ status_text status"

text \<open>\<open>send_json_body\<close>, and the body of \<open>send_json\<close>; the message is its text's bytes.\<close>

definition json_response :: "int \<Rightarrow> string \<Rightarrow> string" where
  "json_response status body =
     head_text (status_line status # map header_text (json_header_fields (length body))) @ body"

definition error_body :: "string \<Rightarrow> string \<Rightarrow> string \<Rightarrow> string" where
  "error_body code message sid =
     ''{\"code\":\"'' @ json_escape code @ ''\",\"message\":\"'' @ json_escape message @ ''\"'' @
     (if sid = [] then [] else '',\"requestId\":\"'' @ json_escape sid @ ''\"'') @ ''}''"

definition session_limit_body :: "string \<Rightarrow> string \<Rightarrow> registry \<Rightarrow> string" where
  "session_limit_body message sid r =
     ''{\"code\":\"SESSION_LIMIT\",\"message\":\"'' @ message @ ''\",\"requestId\":\"'' @ json_escape sid @
     ''\",'' @ session_counts_json r @ ''}''"

section \<open>Time\<close>

text \<open>\<open>gmtime\<close> and \<open>strftime\<close> with \<open>%Y-%m-%dT%H:%M:%SZ\<close>: the civil date of a number of days since
  1970, by eras of 400 years that start in March.\<close>

definition civil_from_days :: "int \<Rightarrow> int \<times> int \<times> int" where
  "civil_from_days days =
     (let z = days + 719468; era = z div 146097; doe = z mod 146097;
          yoe = (doe - doe div 1460 + doe div 36524 - doe div 146096) div 365;
          doy = doe - (365 * yoe + yoe div 4 - yoe div 100);
          mp = (5 * doy + 2) div 153;
          d = doy - (153 * mp + 2) div 5 + 1;
          m = (if mp < 10 then mp + 3 else mp - 9);
          y = yoe + era * 400 + (if m \<le> 2 then 1 else 0)
      in (y, m, d))"

definition two_digits :: "int \<Rightarrow> string" where
  "two_digits i = (if i < 10 then CHR ''0'' # show_int i else show_int i)"

definition format_utc :: "int \<Rightarrow> string" where
  "format_utc t =
     (case civil_from_days (t div 86400) of (y, m, d) \<Rightarrow>
        let s = t mod 86400
        in show_int y @ ''-'' @ two_digits m @ ''-'' @ two_digits d @ ''T'' @ two_digits (s div 3600) @
           '':'' @ two_digits (s div 60 mod 60) @ '':'' @ two_digits (s mod 60) @ ''Z'')"

definition optional_utc :: "int option \<Rightarrow> string" where
  "optional_utc t = (case t of None \<Rightarrow> ''null'' | Some t \<Rightarrow> CHR 0x22 # format_utc t @ [CHR 0x22])"

definition session_status_body :: "session_status \<Rightarrow> string" where
  "session_status_body v =
     ''{\"sid\":\"'' @ json_escape (ss_sid v) @ ''\",\"status\":\"'' @ json_escape (ss_status v) @
     ''\",\"endReason\":\"'' @ json_escape (ss_end_reason v) @ ''\",\"message\":\"'' @ json_escape (ss_message v) @
     ''\",\"queueCurrentBytes\":'' @ show_nat (ss_queue_current v) @
     '',\"queuePeakBytes\":'' @ show_nat (ss_queue_peak v) @
     '',\"backpressureEvents\":'' @ show_nat (ss_backpressure v) @
     '',\"outputReadyUtc\":'' @ optional_utc (ss_output_ready_utc v) @
     '',\"browserFirstFrameUtc\":'' @ optional_utc (ss_first_frame_utc v) @
     '',\"updatedUtc\":\"'' @ format_utc (ss_updated_utc v) @ ''\"}''"

section \<open>The media\<close>

definition media_text :: "bytes \<Rightarrow> string" where
  "media_text d = map (\<lambda>b. char_of (unat b)) d"

definition find_atom :: "string \<Rightarrow> bytes \<Rightarrow> nat option" where
  "find_atom atom d = find_sub atom (media_text d)"

definition contains_atom :: "string \<Rightarrow> bytes \<Rightarrow> bool" where
  "contains_atom atom d \<longleftrightarrow> find_atom atom d \<noteq> None"

definition initial_mp4_has_audio :: "bytes \<Rightarrow> bool" where
  "initial_mp4_has_audio d \<longleftrightarrow> contains_atom ''soun'' d"

definition detect_video_codec :: "bytes \<Rightarrow> video_codec" where
  "detect_video_codec d =
     (if contains_atom ''hvcC'' d then H265 else if contains_atom ''avcC'' d then H264 else CodecUnknown)"

text \<open>\<open>setw(2)\<close> with fill \<open>0\<close> in base 16.\<close>

definition hex_byte :: "8 word \<Rightarrow> string" where
  "hex_byte b = [hex_low (unat b div 16), hex_low (unat b mod 16)]"

definition avc_mse_codec :: "bytes \<Rightarrow> string" where
  "avc_mse_codec d =
     (case find_atom ''avcC'' d of
        None \<Rightarrow> ''avc1.640029''
      | Some pos \<Rightarrow>
          if pos + 7 \<ge> length d then ''avc1.640029''
          else ''avc1.'' @ hex_byte (d ! (pos + 5)) @ hex_byte (d ! (pos + 6)) @ hex_byte (d ! (pos + 7)))"

section \<open>The video response\<close>

definition exposed_headers :: string where
  "exposed_headers =
     ''X-Hik-Bridge-Mse-Codecs, X-Hik-Bridge-Video-Codec, X-Hik-Bridge-Playback-Start, '' @
     ''X-Hik-Bridge-Playback-End, X-Hik-Bridge-Session-Id, X-Hik-Bridge-Session-Status-Url''"

definition mse_codecs :: "stream_request \<Rightarrow> config \<Rightarrow> bytes \<Rightarrow> string" where
  "mse_codecs r c d =
     (if enable_audio c \<and> dbl_eq (sr_speed r) (Fin 1) \<and> initial_mp4_has_audio d
      then avc_mse_codec d @ '',mp4a.40.2'' else avc_mse_codec d)"

definition video_header_fields :: "stream_request \<Rightarrow> config \<Rightarrow> bytes \<Rightarrow> (string \<times> string) list" where
  "video_header_fields r c d =
     [(''Content-Type'', ''video/mp4''),
      (''Transfer-Encoding'', ''chunked''),
      (''Cache-Control'', ''no-store, no-cache''),
      (''Accept-Ranges'', ''none''),
      (''Access-Control-Allow-Origin'', ''*''),
      (''Access-Control-Expose-Headers'', exposed_headers),
      (''X-Hik-Bridge-Mse-Codecs'', mse_codecs r c d),
      (''X-Hik-Bridge-Video-Codec'', ''h264''),
      (''X-Hik-Bridge-Playback-Start'', if sr_option r = Playback then show_int (sr_start r) else []),
      (''X-Hik-Bridge-Playback-End'', if sr_option r = Playback then show_int (sr_end r) else []),
      (''X-Hik-Bridge-Session-Id'', sr_sid r),
      (''X-Hik-Bridge-Session-Status-Url'', ''/session-status?sid='' @ sr_sid r),
      (''X-Content-Type-Options'', ''nosniff''),
      (''Connection'', ''close'')]"

definition video_headers :: "stream_request \<Rightarrow> config \<Rightarrow> bytes \<Rightarrow> string" where
  "video_headers r c d = head_text (''HTTP/1.1 200 OK'' # map header_text (video_header_fields r c d))"

fun show_hex :: "nat \<Rightarrow> string" where
  "show_hex n = (if n < 16 then [hex_low n] else show_hex (n div 16) @ [hex_low (n mod 16)])"

declare show_hex.simps [simp del]

text \<open>\<open>send_chunk\<close>: the size, the data, the line end.\<close>

definition chunk_text :: "string \<Rightarrow> string" where
  "chunk_text d = show_hex (length d) @ crlf @ d @ crlf"

definition last_chunk :: string where
  "last_chunk = ''0'' @ crlf @ crlf"

section \<open>Chunks as a client reads them\<close>

definition hex_number :: "string \<Rightarrow> nat" where
  "hex_number s = foldl (\<lambda>a c. 16 * a + hex_value c) 0 s"

definition take_chunk :: "string \<Rightarrow> (string \<times> string) option" where
  "take_chunk s =
     (case find_sub crlf s of
        None \<Rightarrow> None
      | Some i \<Rightarrow>
          let n = hex_number (take i s); rest = drop (i + 2) s
          in if substr rest n 2 = crlf then Some (take n rest, drop (n + 2) rest) else None)"

lemma take_chunk_shorter: "take_chunk s = Some (d, rest) \<Longrightarrow> length rest < length s"
proof -
  assume a: "take_chunk s = Some (d, rest)"
  then obtain i where i: "find_sub crlf s = Some i" by (auto simp: take_chunk_def split: option.splits)
  then have "i + 2 \<le> length s" using find_sub_bound[OF i] by (simp add: crlf_def)
  then show ?thesis using a i by (auto simp: take_chunk_def Let_def split: if_splits)
qed

function dechunk :: "string \<Rightarrow> string option" where
  "dechunk s =
     (case take_chunk s of
        None \<Rightarrow> None
      | Some (d, rest) \<Rightarrow> if d = [] then Some [] else map_option (append d) (dechunk rest))"
  by pat_completeness auto
termination
  by (relation "measure length") (auto dest: take_chunk_shorter)

declare dechunk.simps [simp del]

lemma show_hex_number [simp]: "hex_number (show_hex n) = n"
proof (induction n rule: show_hex.induct)
  case (1 n)
  have snoc: "hex_number (s @ [c]) = 16 * hex_number s + hex_value c" for s c
    by (simp add: hex_number_def)
  show ?case
  proof (cases "n < 16")
    case True
    then show ?thesis by (subst show_hex.simps) (simp add: hex_number_def)
  next
    case False
    then show ?thesis using 1 by (subst show_hex.simps) (simp add: snoc)
  qed
qed

lemma show_hex_xdigit: "c \<in> set (show_hex n) \<Longrightarrow> is_xdigit c"
proof (induction n rule: show_hex.induct)
  case (1 n)
  then show ?case by (subst (asm) (2) show_hex.simps) (auto split: if_splits)
qed

lemma show_hex_not_Nil [simp]: "show_hex n \<noteq> []"
  by (subst show_hex.simps) simp

lemma show_hex_no_control: "byte c < 32 \<Longrightarrow> c \<notin> set (show_hex n)"
  using show_hex_xdigit[of c n] by (auto simp: byte_simps)

lemma show_hex_line: "line_ok (show_hex n)"
  by (simp add: line_ok_def show_hex_no_control)

lemma take_chunk_text: "take_chunk (chunk_text d @ rest) = Some (d, rest)"
proof -
  have "find_sub crlf (show_hex (length d) @ crlf @ (d @ crlf @ rest)) = Some (length (show_hex (length d)))"
    by (rule find_line_end) (rule show_hex_line)
  then show ?thesis by (simp add: take_chunk_def chunk_text_def crlf_def substr_def)
qed

lemma last_chunk_text: "last_chunk = chunk_text []"
  by (simp add: last_chunk_def chunk_text_def show_hex.simps hex_low_def) code_simp

lemma dechunk_concat:
  "\<forall>d\<in>set ds. d \<noteq> [] \<Longrightarrow> dechunk (concat (map chunk_text ds) @ last_chunk @ rest) = Some (concat ds)"
proof (induction ds)
  case Nil
  then show ?case by (subst dechunk.simps) (simp add: last_chunk_text take_chunk_text)
next
  case (Cons d ds)
  then show ?case by (subst dechunk.simps) (simp add: take_chunk_text)
qed

section \<open>Heads as a client reads them\<close>

lemma head_end:
  assumes "\<forall>l\<in>set ls. line_ok l" and "ls \<noteq> []"
  shows "find_sub (crlf @ crlf) (head_text ls @ body) = Some (length (head_text ls) - 4)"
proof -
  obtain i where i: "find_sub (crlf @ crlf) (head_text ls) = Some i"
    using blank_line_found[OF assms(2)] by auto
  then have p: "prefix (crlf @ crlf) (drop i (head_text ls))" and le: "i \<le> length (head_text ls)"
    by (simp_all add: find_sub_Some)
  then have at: "i + 4 = length (head_text ls)" using assms(1) by (intro blank_line_last)
  have "\<not> prefix (crlf @ crlf) (drop j (head_text ls @ body))" if "j < i" for j
  proof
    assume "prefix (crlf @ crlf) (drop j (head_text ls @ body))"
    then have "take (length (crlf @ crlf)) (drop j (head_text ls @ body)) = crlf @ crlf"
      by (auto simp: prefix_def simp del: drop_append)
    moreover have "length (crlf @ crlf) = 4" by (simp add: crlf_def)
    ultimately have "take 4 (drop j (head_text ls @ body)) = crlf @ crlf" by metis
    moreover have "take 4 (drop j (head_text ls @ body)) = take 4 (drop j (head_text ls))"
      using that at by simp
    ultimately have "prefix (crlf @ crlf) (drop j (head_text ls))" by (metis take_is_prefix)
    then have "j + 4 = length (head_text ls)" using assms(1) by (intro blank_line_last)
    then show False using that at by simp
  qed
  then have "find_sub (crlf @ crlf) (head_text ls @ body) = Some i"
    using p le by (auto simp: find_sub_Some)
  then show ?thesis using at by simp
qed

definition digits_only :: "string \<Rightarrow> bool" where
  "digits_only s \<longleftrightarrow> s \<noteq> [] \<and> (\<forall>c\<in>set s. is_digit c \<or> c = CHR ''-'')"

lemma digits_only_show [simp]: "digits_only (show_int i)" "digits_only (show_nat n)"
  by (auto simp: digits_only_def dest: show_int_chars show_nat_digits)

lemma header_ok_number:
  "digits_only s \<Longrightarrow> CHR '':'' \<notin> set k \<Longrightarrow> CHR 0x0D \<notin> set k \<Longrightarrow> CHR 0x0A \<notin> set k \<Longrightarrow> header_ok (k, s)"
proof -
  assume a: "digits_only s" "CHR '':'' \<notin> set k" "CHR 0x0D \<notin> set k" "CHR 0x0A \<notin> set k"
  have "\<not> ws_char c \<and> c \<noteq> CHR 0x0D \<and> c \<noteq> CHR 0x0A" if "c \<in> set s" for c
    using a(1) that by (auto simp: digits_only_def ws_char_def byte_simps)
  then show ?thesis using a by (auto simp: header_ok_def digits_only_def)
qed

lemma json_header_fields_ok: "\<forall>h\<in>set (json_header_fields n). header_ok h"
proof -
  have "header_ok (''Content-Length'', show_nat n)" by (rule header_ok_number) simp_all
  then show ?thesis by (simp add: json_header_fields_def header_ok_def ws_char_def)
qed

lemma status_line_ok: "line_ok (status_line st)"
proof -
  have "CHR 0x0D \<notin> set (show_int st)" "CHR 0x0A \<notin> set (show_int st)"
    by (simp_all add: show_int_no_control)
  then show ?thesis by (simp add: line_ok_def status_line_def status_text_def)
qed

lemma lookup_header:
  assumes "\<forall>h\<in>set hs. header_ok h" and "distinct (map (\<lambda>h. map to_lower (fst h)) hs)"
  shows "omap_find (header_lines (head_text (map header_text hs)) []) k =
    map_of (map (\<lambda>h. (map to_lower (fst h), snd h)) hs) k"
  unfolding header_lines_text[OF assms(1)]
  by (rule std_map.lookup_store_all_distinct) (use assms(2) in \<open>simp add: comp_def\<close>)

section \<open>JSON as a client reads it\<close>

text \<open>A string after its opening quote: what it says and what follows.  Unicode escapes, which the
  bridge never writes, are left out.\<close>

fun unescaped :: "char \<Rightarrow> char option" where
  "unescaped c =
     (if c = CHR 0x22 \<or> c = CHR 0x5C \<or> c = CHR ''/'' then Some c
      else if c = CHR ''b'' then Some (CHR 0x08) else if c = CHR ''f'' then Some (CHR 0x0C)
      else if c = CHR ''n'' then Some (CHR 0x0A) else if c = CHR ''r'' then Some (CHR 0x0D)
      else if c = CHR ''t'' then Some (CHR 0x09) else None)"

fun read_json_string :: "string \<Rightarrow> (string \<times> string) option" where
  "read_json_string [] = None"
| "read_json_string [c] = (if c = CHR 0x22 then Some ([], []) else None)"
| "read_json_string (c # d # s) =
     (if c = CHR 0x22 then Some ([], d # s)
      else if c = CHR 0x5C then
        (case unescaped d of None \<Rightarrow> None | Some e \<Rightarrow> map_option (apfst (Cons e)) (read_json_string s))
      else if byte c < 32 then None
      else map_option (apfst (Cons c)) (read_json_string (d # s)))"

lemma read_json_escape:
  "read_json_string (json_escape s @ CHR 0x22 # rest) =
     (if \<exists>c\<in>set s. byte c < 32 then None else Some (s, rest))"
proof (induction s)
  case Nil
  show ?case by (cases rest) (simp_all add: json_escape_def)
next
  case (Cons c s)
  have ne: "json_escape s @ CHR 0x22 # rest \<noteq> []" by simp
  then obtain d ds where d: "json_escape s @ CHR 0x22 # rest = d # ds"
    by (cases "json_escape s @ CHR 0x22 # rest") blast+
  show ?case
  proof (cases "c = CHR 0x22 \<or> c = CHR 0x5C")
    case True
    then have "json_escape (c # s) @ CHR 0x22 # rest = CHR 0x5C # c # d # ds"
      using d by (auto simp: json_escape_def)
    then show ?thesis using True Cons d by auto
  next
    case False
    then have "json_escape (c # s) @ CHR 0x22 # rest = c # d # ds"
      using d by (auto simp: json_escape_def)
    then show ?thesis using False Cons d by auto
  qed
qed

section \<open>The head of a video response\<close>

lemma hex_byte_encode: "hex_byte b = hex_encode (media_text [b])"
proof -
  have "unat b < 2 ^ LENGTH(8)" by (rule unsigned_less)
  then have "unat b < 256" by simp
  then show ?thesis by (simp add: hex_byte_def hex_encode_def media_text_def)
qed

lemma hex_encode_append: "hex_encode (a @ b) = hex_encode a @ hex_encode b"
  by (simp add: hex_encode_def)

lemma avc_mse_codec_shape: "\<exists>h. avc_mse_codec d = ''avc1.'' @ h \<and> (\<forall>c\<in>set h. is_xdigit c)"
proof (cases "find_atom ''avcC'' d")
  case (Some i)
  have "\<exists>h. ''avc1.640029'' = ''avc1.'' @ h \<and> (\<forall>c\<in>set h. is_xdigit c)" by (simp add: byte_simps)
  moreover have "\<forall>c\<in>set (hex_byte a @ hex_byte b @ hex_byte e). is_xdigit c" for a b e
    by (auto simp: hex_byte_encode dest: hex_encode_xdigit)
  ultimately show ?thesis using Some by (simp add: avc_mse_codec_def)
qed (simp add: avc_mse_codec_def byte_simps)

lemma avc_mse_codec_chars:
  "c \<in> set (avc_mse_codec d) \<Longrightarrow> is_xdigit c \<or> c \<in> {CHR ''a'', CHR ''v'', CHR ''c'', CHR ''1'', CHR ''.''}"
  using avc_mse_codec_shape[of d] by auto

lemma mse_codecs_ok: "header_ok (''X-Hik-Bridge-Mse-Codecs'', mse_codecs r c d)"
proof -
  have plain: "\<not> ws_char x \<and> x \<noteq> CHR 0x0D \<and> x \<noteq> CHR 0x0A" if "x \<in> set (mse_codecs r c d)" for x
    using that avc_mse_codec_chars[of x d]
    by (auto simp: mse_codecs_def ws_char_def byte_simps split: if_splits)
  have "mse_codecs r c d \<noteq> []"
    by (simp add: mse_codecs_def avc_mse_codec_def split: option.split)
  then show ?thesis using plain by (auto simp: header_ok_def)
qed

lemma safe_value:
  assumes "is_safe_session_id sid" and "CHR '':'' \<notin> set k" "CHR 0x0D \<notin> set k" "CHR 0x0A \<notin> set k"
    and "\<forall>c\<in>set pre. \<not> ws_char c \<and> c \<noteq> CHR 0x0D \<and> c \<noteq> CHR 0x0A"
  shows "header_ok (k, pre @ sid)"
proof -
  have sid: "sid \<noteq> []" "\<And>c. c \<in> set sid \<Longrightarrow> \<not> ws_char c \<and> c \<noteq> CHR 0x0D \<and> c \<noteq> CHR 0x0A"
    using assms(1) by (auto simp: is_safe_session_id_def safe_char_def ws_char_def byte_simps)
  then have "hd (pre @ sid) \<in> set (pre @ sid)" "last (pre @ sid) \<in> set (pre @ sid)"
    by (intro hd_in_set last_in_set; simp)+
  then have "\<not> ws_char (hd (pre @ sid))" "\<not> ws_char (last (pre @ sid))"
    using sid(2) assms(5) by (metis Un_iff set_append)+
  moreover have "CHR 0x0D \<notin> set sid" "CHR 0x0A \<notin> set sid" using sid(2) by blast+
  ultimately show ?thesis using assms(2-5) by (auto simp: header_ok_def)
qed

lemma optional_number_ok:
  "CHR '':'' \<notin> set k \<Longrightarrow> CHR 0x0D \<notin> set k \<Longrightarrow> CHR 0x0A \<notin> set k \<Longrightarrow>
     header_ok (k, if b then show_int i else [])"
  using header_ok_number[OF digits_only_show(1), of k i] by (auto simp: header_ok_def)

lemma video_header_fields_ok:
  assumes "is_safe_session_id (sr_sid r)"
  shows "\<forall>h\<in>set (video_header_fields r c d). header_ok h"
proof -
  have url: "\<forall>c\<in>set ''/session-status?sid=''. \<not> ws_char c \<and> c \<noteq> CHR 0x0D \<and> c \<noteq> CHR 0x0A"
    by (simp add: ws_char_def)
  have "header_ok (''X-Hik-Bridge-Session-Id'', [] @ sr_sid r)"
    by (rule safe_value[OF assms]) simp_all
  moreover have "header_ok (''X-Hik-Bridge-Session-Status-Url'', ''/session-status?sid='' @ sr_sid r)"
    by (rule safe_value[OF assms _ _ _ url]) simp_all
  moreover have "header_ok (''X-Hik-Bridge-Playback-Start'', if b then show_int i else [])"
      "header_ok (''X-Hik-Bridge-Playback-End'', if b then show_int i else [])" for b i
    by (rule optional_number_ok; simp)+
  moreover have "header_ok (''Access-Control-Expose-Headers'', exposed_headers)"
    by (simp add: header_ok_def exposed_headers_def ws_char_def)
  moreover have "\<forall>h\<in>set [(''Content-Type'', ''video/mp4''), (''Transfer-Encoding'', ''chunked''),
      (''Cache-Control'', ''no-store, no-cache''), (''Accept-Ranges'', ''none''),
      (''Access-Control-Allow-Origin'', ''*''), (''X-Hik-Bridge-Video-Codec'', ''h264''),
      (''X-Content-Type-Options'', ''nosniff''), (''Connection'', ''close'')]. header_ok h"
    by (simp add: header_ok_def ws_char_def)
  ultimately show ?thesis using mse_codecs_ok[of r c d] by (simp add: video_header_fields_def)
qed

section \<open>Properties\<close>

text \<open>The body of a video response decodes to the media that was sent: a client that decodes the
  chunks up to the last one gets the concatenation of the buffers, provided that none of them is
  empty (an empty chunk would end the body).\<close>

theorem chunked_roundtrip:
  assumes "\<forall>d\<in>set ds. d \<noteq> []"
  shows "dechunk (concat (map chunk_text ds) @ last_chunk @ rest) = Some (concat ds)"
  using assms by (rule dechunk_concat)

theorem chunked_roundtrip_witness:
  "dechunk (concat (map chunk_text [''ftyp'', ''moof'']) @ last_chunk) = Some ''ftypmoof''"
  using chunked_roundtrip[of "[''ftyp'', ''moof'']" "[]"] by simp

text \<open>A text written with \<open>json_escape\<close> between quotes reads back as itself when it has no control
  character, whatever quotes and backslashes it contains; with a control character, which
  \<open>json_escape\<close> leaves as it is, the result is not JSON.\<close>

theorem json_escape_roundtrip:
  "read_json_string (json_escape s @ CHR 0x22 # rest) =
     (if \<exists>c\<in>set s. byte c < 32 then None else Some (s, rest))"
  by (rule read_json_escape)

text \<open>The declared length of a JSON response is the length of its body: a client that reads the head
  up to the blank line finds the length of exactly the bytes that follow.\<close>

theorem json_response_framing:
  "\<exists>n. find_sub (crlf @ crlf) (json_response status body) = Some n \<and>
       drop (n + 4) (json_response status body) = body \<and>
       omap_find (header_lines (drop (length (status_line status) + 2) (json_response status body)) [])
         ''content-length'' = Some (show_nat (length body))"
proof -
  let ?hs = "json_header_fields (length body)"
  let ?ls = "status_line status # map header_text ?hs"
  have ok: "\<forall>l\<in>set ?ls. line_ok l"
    using status_line_ok json_header_fields_ok header_text_ok by auto
  have "4 \<le> length (head_text ?ls)"
    by (simp add: head_text_Cons crlf_def) (simp add: head_text_def crlf_def)
  moreover have "find_sub (crlf @ crlf) (json_response status body) = Some (length (head_text ?ls) - 4)"
    unfolding json_response_def by (rule head_end[OF ok]) simp
  moreover have "omap_find (header_lines (head_text (map header_text ?hs) @ body) []) ''content-length'' =
      Some (show_nat (length body))"
  proof -
    have "header_lines (head_text (map header_text ?hs) @ body) [] =
        header_lines (head_text (map header_text ?hs)) []"
      by (simp only: header_lines_body[OF json_header_fields_ok] header_lines_text[OF json_header_fields_ok])
    then show ?thesis
      using lookup_header[OF json_header_fields_ok, of "length body" "''content-length''"]
      by (simp add: json_header_fields_def to_lower_eval)
  qed
  ultimately show ?thesis
    by (auto simp: json_response_def head_text_Cons crlf_def)
qed

text \<open>The head of a video response cannot be altered by the request: for every accepted request a
  client that reads it finds exactly one blank line, at its end, and the session id, the status
  address and the playback range with the values of the request.\<close>

theorem video_head_clean:
  assumes "request_wf c r"
  shows "find_sub (crlf @ crlf) (video_headers r c d @ body) = Some (length (video_headers r c d) - 4) \<and>
    (let hs = header_lines (drop (length ''HTTP/1.1 200 OK'' + 2) (video_headers r c d @ body)) []
     in omap_find hs ''x-hik-bridge-session-id'' = Some (sr_sid r) \<and>
        omap_find hs ''x-hik-bridge-session-status-url'' = Some (''/session-status?sid='' @ sr_sid r) \<and>
        omap_find hs ''x-hik-bridge-mse-codecs'' = Some (mse_codecs r c d) \<and>
        omap_find hs ''x-hik-bridge-playback-end'' =
          Some (case sr_option r of Playback \<Rightarrow> show_int (sr_end r) | RealPlay \<Rightarrow> []))"
proof -
  let ?fs = "video_header_fields r c d"
  have safe: "is_safe_session_id (sr_sid r)" using assms by (simp add: request_wf_def)
  note ok = video_header_fields_ok[OF safe, of c d]
  have lines: "\<forall>l\<in>set (''HTTP/1.1 200 OK'' # map header_text ?fs). line_ok l"
    using ok header_text_ok by (auto simp: line_ok_def)
  have "header_lines (drop (length ''HTTP/1.1 200 OK'' + 2) (video_headers r c d @ body)) [] =
      header_lines (head_text (map header_text ?fs) @ body) []"
    by (simp add: video_headers_def head_text_Cons crlf_def)
  also have "\<dots> = header_lines (head_text (map header_text ?fs)) []"
    by (simp only: header_lines_body[OF ok] header_lines_text[OF ok])
  finally have hs: "header_lines (drop (length ''HTTP/1.1 200 OK'' + 2) (video_headers r c d @ body)) [] =
      header_lines (head_text (map header_text ?fs)) []" .
  have "distinct (map (\<lambda>h. map to_lower (fst h)) ?fs)"
    by (simp add: video_header_fields_def to_lower_eval)
  note find = lookup_header[OF ok this]
  have "find_sub (crlf @ crlf) (video_headers r c d @ body) = Some (length (video_headers r c d) - 4)"
    unfolding video_headers_def by (rule head_end[OF lines]) simp
  then show ?thesis
    unfolding hs Let_def find
    by (simp add: video_header_fields_def to_lower_eval split: option_kind.split)
qed

theorem video_head_clean_witness:
  "find_sub (crlf @ crlf) (video_headers cache_example_request default_config [] @ []) =
     Some (length (video_headers cache_example_request default_config []) - 4)"
proof (rule video_head_clean[THEN conjunct1])
  show "request_wf default_config cache_example_request"
    by (simp add: request_wf_def cache_example_request_def is_safe_session_id_def safe_char_def byte_simps)
qed

text \<open>The codec string declared to the browser is the one of the stream: when the initial data holds
  an AVC configuration record in full, the hexadecimal digits decode to its profile, compatibility
  and level bytes.\<close>

theorem mse_codec_roundtrip:
  assumes "find_atom ''avcC'' d = Some i" and "i + 8 \<le> length d"
  shows "take 5 (avc_mse_codec d) = ''avc1.'' \<and>
    hex_decode (drop 5 (avc_mse_codec d)) = Some (media_text [d ! (i + 5), d ! (i + 6), d ! (i + 7)])"
proof -
  have "hex_byte a @ hex_byte b @ hex_byte e = hex_encode (media_text [a, b, e])" for a b e
    by (simp add: hex_byte_encode media_text_def flip: hex_encode_append)
  then show ?thesis using assms by (simp add: avc_mse_codec_def)
qed

theorem mse_codec_roundtrip_witness:
  "hex_decode (drop 5 (avc_mse_codec [97, 118, 99, 67, 1, 100, 0, 41, 255])) =
     Some (media_text [100, 0, 41])"
proof -
  let ?d = "[97, 118, 99, 67, 1, 100, 0, 41, 255] :: 8 word list"
  have "find_atom ''avcC'' ?d = Some 0" by code_simp
  from mse_codec_roundtrip[OF this] show ?thesis by simp
qed

end
