(* ===== verification/Ffmpeg_Plan.thy ===== *)
theory Ffmpeg_Plan
  imports Http_Response
begin

text \<open>
  How FFmpeg is to be run: \<open>FfmpegHardwareAcceleration\<close> (which encoder the machine has) and the
  argument list of \<open>FfmpegProcess\<close>.  Running FFmpeg to ask what it can do is a parameter: the result
  of each command line.
\<close>

section \<open>The code\<close>

datatype hardware_backend = NoBackend | NvidiaNvenc | IntelQsv | AmdAmf
datatype output_mode = CopyMode | H264Transcode

record transcode_plan =
  hardware_enabled :: bool
  plan_backend :: string
  plan_encoder :: string

definition software_plan :: transcode_plan where
  "software_plan = \<lparr>hardware_enabled = False, plan_backend = ''software'', plan_encoder = []\<rparr>"

record captured =
  cp_exit :: int
  cp_timed_out :: bool
  cp_output :: string

definition ran_well :: "captured \<Rightarrow> bool" where
  "ran_well p \<longleftrightarrow> \<not> cp_timed_out p \<and> cp_exit p = 0"

definition normalize :: "string \<Rightarrow> string" where
  "normalize s =
     (let v = map to_lower s
      in if v = ''none'' \<or> v = ''disabled'' \<or> v = ''software'' then ''off''
         else if v = ''nvenc'' \<or> v = ''cuda'' then ''nvidia''
         else if v = ''intel'' then ''qsv''
         else if v = ''amd'' then ''amf''
         else v)"

text \<open>\<open>while (fields >> field)\<close>.\<close>

function word_list :: "string \<Rightarrow> string list" where
  "word_list s = (case next_word s of None \<Rightarrow> [] | Some (w, rest) \<Rightarrow> w # word_list rest)"
  by pat_completeness auto

lemma next_word_shorter: "next_word s = Some (w, rest) \<Longrightarrow> length rest < length s"
proof -
  assume a: "next_word s = Some (w, rest)"
  let ?r = "dropWhile is_space s"
  have r: "?r \<noteq> []" "rest = dropWhile (\<lambda>c. \<not> is_space c) ?r"
    using a by (auto simp: next_word_def Let_def split: if_splits)
  then have "\<not> is_space (hd ?r)" by (simp add: hd_dropWhile)
  then have "length rest < length ?r"
    using r by (cases ?r) (auto simp: length_dropWhile_le less_Suc_eq_le)
  then show ?thesis using length_dropWhile_le[of is_space s] by simp
qed

termination word_list
  by (relation "measure length") (auto dest: next_word_shorter)

declare word_list.simps [simp del]

definition has_token :: "string \<Rightarrow> string \<Rightarrow> bool" where
  "has_token out token \<longleftrightarrow> (\<exists>line\<in>set (getlines newline out). token \<in> set (word_list line))"

record candidate =
  cd_backend :: hardware_backend
  cd_name :: string
  cd_method :: string
  cd_encoder :: string

definition nvidia :: candidate where
  "nvidia = \<lparr>cd_backend = NvidiaNvenc, cd_name = ''nvidia-nvenc'', cd_method = ''cuda'', cd_encoder = ''h264_nvenc''\<rparr>"

definition qsv :: candidate where
  "qsv = \<lparr>cd_backend = IntelQsv, cd_name = ''intel-qsv'', cd_method = ''qsv'', cd_encoder = ''h264_qsv''\<rparr>"

definition amf :: candidate where
  "amf = \<lparr>cd_backend = AmdAmf, cd_name = ''amd-amf'', cd_method = ''amf'', cd_encoder = ''h264_amf''\<rparr>"

definition candidates :: "string \<Rightarrow> candidate list" where
  "candidates requested =
     (if requested = ''nvidia'' then [nvidia] else if requested = ''qsv'' then [qsv]
      else if requested = ''amf'' then [amf] else [nvidia, qsv, amf])"

definition probe_arguments :: "string \<Rightarrow> string list" where
  "probe_arguments encoder =
     [''-hide_banner'', ''-loglevel'', ''error'', ''-f'', ''lavfi'', ''-i'', ''color=c=black:s=64x64:r=1'',
      ''-frames:v'', ''1'', ''-an'', ''-c:v'', encoder, ''-f'', ''null'', ''-'']"

fun try_candidates :: "(string list \<Rightarrow> captured) \<Rightarrow> string \<Rightarrow> string \<Rightarrow> candidate list \<Rightarrow> hardware_backend" where
  "try_candidates run hwaccels encoders [] = NoBackend"
| "try_candidates run hwaccels encoders (c # cs) =
     (if \<not> has_token hwaccels (cd_method c) \<or> \<not> has_token encoders (cd_encoder c)
      then try_candidates run hwaccels encoders cs
      else if ran_well (run (probe_arguments (cd_encoder c))) then cd_backend c
      else try_candidates run hwaccels encoders cs)"

definition detect :: "platform \<Rightarrow> config \<Rightarrow> (string list \<Rightarrow> captured) \<Rightarrow> hardware_backend res" where
  "detect p c run =
     (case p of
        Linux \<Rightarrow> Inr NoBackend
      | Windows \<Rightarrow>
          let requested = normalize (hardware_acceleration c)
          in if \<not> ran_well (run (probe_arguments (video_encoder c)))
             then Inl (BridgeError 500 ''FFMPEG_SOFTWARE_ENCODER_UNAVAILABLE'')
             else if requested = ''off'' then Inr NoBackend
             else let hwaccels = run [''-hide_banner'', ''-hwaccels''];
                      encoders = run [''-hide_banner'', ''-encoders'']
                  in if \<not> ran_well hwaccels \<or> \<not> ran_well encoders then Inr NoBackend
                     else Inr (try_candidates run (cp_output hwaccels) (cp_output encoders)
                                 (candidates requested)))"

definition select_plan :: "hardware_backend \<Rightarrow> output_mode \<Rightarrow> bool \<Rightarrow> transcode_plan" where
  "select_plan b mode force_software =
     (if mode = CopyMode \<or> force_software \<or> b = NoBackend then software_plan
      else case b of
             NvidiaNvenc \<Rightarrow> \<lparr>hardware_enabled = True, plan_backend = ''nvidia-nvenc'', plan_encoder = ''h264_nvenc''\<rparr>
           | IntelQsv \<Rightarrow> \<lparr>hardware_enabled = True, plan_backend = ''intel-qsv'', plan_encoder = ''h264_qsv''\<rparr>
           | AmdAmf \<Rightarrow> \<lparr>hardware_enabled = True, plan_backend = ''amd-amf'', plan_encoder = ''h264_amf''\<rparr>
           | NoBackend \<Rightarrow> software_plan)"

definition backend_name :: "hardware_backend \<Rightarrow> string" where
  "backend_name b =
     (case b of NvidiaNvenc \<Rightarrow> ''nvidia-nvenc'' | IntelQsv \<Rightarrow> ''intel-qsv'' | AmdAmf \<Rightarrow> ''amd-amf''
      | NoBackend \<Rightarrow> ''software'')"

text \<open>
  \<open>static_cast<int>(config.output_stall_ms / std::clamp(request.speed, 0.0625, 1.0))\<close>.  \<open>clamp\<close>
  lets a NaN through, and the conversion of a NaN to \<open>int\<close> is undefined: \<open>None\<close>.
\<close>

definition clamp_speed :: "double \<Rightarrow> double" where
  "clamp_speed v = (if dbl_less v (Fin (1 / 16)) then Fin (1 / 16) else if dbl_less (Fin 1) v then Fin 1 else v)"

definition output_stall :: "config \<Rightarrow> double \<Rightarrow> int option" where
  "output_stall c v =
     (case clamp_speed v of Fin s \<Rightarrow> Some \<lfloor>of_int (output_stall_ms c) / s\<rfloor> | _ \<Rightarrow> None)"

text \<open>
  \<open>std::setprecision(8)\<close> for the speeds a request can have: at most eight significant digits and no
  exponent are needed, so the text is the exact decimal expansion.
\<close>

fun fraction_digits :: "nat \<Rightarrow> rat \<Rightarrow> string" where
  "fraction_digits 0 r = []"
| "fraction_digits (Suc n) r =
     (if r = 0 then [] else digit (nat \<lfloor>10 * r\<rfloor>) # fraction_digits n (10 * r - of_int \<lfloor>10 * r\<rfloor>))"

definition show_speed :: "double \<Rightarrow> string" where
  "show_speed v =
     (case v of
        Fin r \<Rightarrow>
          (let f = fraction_digits 8 (r - of_int \<lfloor>r\<rfloor>)
           in show_int \<lfloor>r\<rfloor> @ (if f = [] then [] else CHR ''.'' # f))
      | NaN \<Rightarrow> ''nan'' | PosInf \<Rightarrow> ''inf'' | NegInf \<Rightarrow> ''-inf'')"

definition video_arguments :: "config \<Rightarrow> stream_request \<Rightarrow> output_mode \<Rightarrow> transcode_plan \<Rightarrow> string list" where
  "video_arguments c r mode plan =
     (if mode = CopyMode then [''-c:v'', ''copy'']
      else
        (if \<not> hardware_enabled plan
         then [''-c:v'', video_encoder c, ''-preset'', video_preset c, ''-tune'', ''zerolatency'', ''-pix_fmt'', ''yuv420p'']
         else if plan_encoder plan = ''h264_nvenc''
         then [''-c:v'', ''h264_nvenc'', ''-preset'', ''p4'', ''-tune'', ''ll'', ''-rc'', ''vbr'']
         else if plan_encoder plan = ''h264_qsv''
         then [''-c:v'', ''h264_qsv'', ''-preset'', ''veryfast'']
         else if plan_encoder plan = ''h264_amf''
         then [''-c:v'', ''h264_amf'', ''-usage'', ''lowlatency'', ''-quality'', ''speed'']
         else []) @
        [''-profile:v'', ''high'', ''-level:v'', ''4.1'', ''-g'', ''25'', ''-keyint_min'', ''25'', ''-sc_threshold'', ''0''] @
        (if \<not> dbl_eq (sr_speed r) (Fin 1) then [''-vf'', ''setpts=PTS/'' @ show_speed (sr_speed r)] else []))"

definition audio_arguments :: "config \<Rightarrow> stream_request \<Rightarrow> string list" where
  "audio_arguments c r =
     (if enable_audio c \<and> dbl_eq (sr_speed r) (Fin 1)
      then [''-map'', ''0:a:0?'', ''-c:a'', ''aac'', ''-ar'', ''48000'', ''-ac'', ''2'']
      else [''-an''])"

definition build_arguments :: "config \<Rightarrow> stream_request \<Rightarrow> output_mode \<Rightarrow> transcode_plan \<Rightarrow> string list" where
  "build_arguments c r mode plan =
     [''-hide_banner'', ''-loglevel'', ffmpeg_log_level c, ''-fflags'', ''+genpts+nobuffer'', ''-analyzeduration'',
      ''250000'', ''-probesize'', ''262144'', ''-i'', ''pipe:0'', ''-map'', ''0:v:0''] @
     video_arguments c r mode plan @ audio_arguments c r @
     [''-f'', ''mp4'', ''-movflags'', ''frag_keyframe+empty_moov+default_base_moof+omit_tfhd_offset'',
      ''-frag_duration'', ''250000'', ''pipe:1'']"

section \<open>Detection\<close>

definition usable :: "(string list \<Rightarrow> captured) \<Rightarrow> candidate \<Rightarrow> bool" where
  "usable run c \<longleftrightarrow>
     has_token (cp_output (run [''-hide_banner'', ''-hwaccels''])) (cd_method c) \<and>
     has_token (cp_output (run [''-hide_banner'', ''-encoders''])) (cd_encoder c) \<and>
     ran_well (run (probe_arguments (cd_encoder c)))"

lemma try_candidates_find:
  "try_candidates run (cp_output (run [''-hide_banner'', ''-hwaccels'']))
     (cp_output (run [''-hide_banner'', ''-encoders''])) cs =
     (case List.find (usable run) cs of None \<Rightarrow> NoBackend | Some c \<Rightarrow> cd_backend c)"
  by (induction cs) (auto simp: usable_def)

lemma find_split:
  "List.find P xs = Some x \<Longrightarrow> \<exists>pre post. xs = pre @ x # post \<and> P x \<and> (\<forall>y\<in>set pre. \<not> P y)"
proof (induction xs)
  case (Cons a xs)
  show ?case
  proof (cases "P a")
    case True
    then have "x = a" using Cons.prems by simp
    then show ?thesis using True by (intro exI[of _ "[]"] exI[of _ xs]) simp
  next
    case False
    then obtain pre post where "xs = pre @ x # post" "P x" "\<forall>y\<in>set pre. \<not> P y"
      using Cons by auto
    then have "a # xs = (a # pre) @ x # post \<and> P x \<and> (\<forall>y\<in>set (a # pre). \<not> P y)"
      using False by simp
    then show ?thesis by blast
  qed
qed simp

lemma candidate_backends:
  "c \<in> set (candidates requested) \<Longrightarrow> cd_backend c \<noteq> NoBackend"
  by (auto simp: candidates_def nvidia_def qsv_def amf_def split: if_splits)

lemma getlines_one: "d \<notin> set l \<Longrightarrow> l \<noteq> [] \<Longrightarrow> getlines d l = [l]"
proof (induction l)
  case (Cons c l)
  then show ?case by (cases "l = []") auto
qed simp

lemma word_list_join: "\<forall>w\<in>set ws. word_ok w \<Longrightarrow> word_list (join '' '' ws) = ws"
proof (induction "'' ''" ws rule: join.induct)
  case 1
  show ?case by (simp add: word_list.simps next_word_def)
next
  case (2 w)
  then show ?case
    using next_word_first(1)[of w "[]"] by (simp add: word_list.simps[of w] word_list.simps[of "[]"] next_word_def[of "[]"])
next
  case (3 w w' ws)
  let ?rest = "CHR '' '' # join '' '' (w' # ws)"
  have sp: "is_space (CHR '' '')" by (simp add: byte_simps)
  have "word_list ?rest = word_list (join '' '' (w' # ws))"
    by (subst (1 2) word_list.simps) (simp add: next_word_def sp)
  then show ?case
    using 3 next_word_first(1)[of w ?rest] sp by (simp add: word_list.simps[of "w @ _"])
qed

lemma has_token_line:
  assumes "\<forall>w\<in>set ws. word_ok w" and "ws \<noteq> []"
  shows "has_token (join '' '' ws) token \<longleftrightarrow> token \<in> set ws"
proof -
  have "newline \<notin> set (join '' '' ws)"
    using assms(1) by (induction "'' ''" ws rule: join.induct) (auto simp: word_ok_def byte_simps)
  moreover have "join '' '' ws \<noteq> []"
    using assms by (cases "('' '', ws)" rule: join.cases) (auto simp: word_ok_def)
  ultimately have "getlines newline (join '' '' ws) = [join '' '' ws]" by (rule getlines_one)
  then show ?thesis using word_list_join[OF assms(1)] by (simp add: has_token_def)
qed

section \<open>Speeds\<close>

text \<open>The value of a decimal numeral.\<close>

definition decimal_value :: "string \<Rightarrow> rat" where
  "decimal_value s =
     (case find_char (CHR ''.'') s of
        None \<Rightarrow> of_int (dec_value s)
      | Some i \<Rightarrow> of_int (dec_value (take i s)) + of_int (dec_value (drop (i + 1) s)) / 10 ^ (length s - i - 1))"

lemma show_speeds:
  "map show_speed valid_speeds =
     [''16'', ''8'', ''4'', ''2'', ''1'', ''0.5'', ''0.25'', ''0.125'', ''0.0625'']"
  by code_simp

lemma speed_text_exact: "v \<in> set valid_speeds \<Longrightarrow> v = Fin (decimal_value (show_speed v))"
proof -
  assume "v \<in> set valid_speeds"
  moreover have "map (\<lambda>v. Fin (decimal_value (show_speed v))) valid_speeds = valid_speeds" by code_simp
  ultimately show ?thesis by (auto simp: map_eq_conv[of _ _ "\<lambda>x. x", simplified])
qed

lemma clamp_valid:
  "v \<in> set valid_speeds \<Longrightarrow> \<exists>s. clamp_speed v = Fin s \<and> 1 / 16 \<le> s \<and> s \<le> 1"
  by (auto simp: valid_speeds_def clamp_speed_def)

lemma stall_bounds:
  assumes "1 / 16 \<le> s" and "s \<le> 1" and "0 \<le> ms"
  shows "ms \<le> \<lfloor>rat_of_int ms / s\<rfloor>" and "\<lfloor>rat_of_int ms / s\<rfloor> \<le> 16 * ms"
proof -
  have s: "0 < s" using assms(1) by (rule less_le_trans[rotated]) simp
  have "rat_of_int ms * s \<le> rat_of_int ms" using assms by (simp add: mult_left_le)
  then have "rat_of_int ms \<le> rat_of_int ms / s" using s by (simp add: pos_le_divide_eq)
  then show "ms \<le> \<lfloor>rat_of_int ms / s\<rfloor>" by (simp add: le_floor_iff)
  have "rat_of_int ms \<le> rat_of_int (16 * ms) * s"
    using mult_left_mono[OF assms(1), of "16 * rat_of_int ms"] assms(3) by simp
  then have "rat_of_int ms / s \<le> rat_of_int (16 * ms)" using s by (simp only: pos_divide_le_eq)
  then show "\<lfloor>rat_of_int ms / s\<rfloor> \<le> 16 * ms" by (metis floor_mono floor_of_int)
qed

lemma default_config_wf: "config_wf default_config"
  by (simp add: config_wf_def default_config_def hardware_names_def)

lemma sublist_within: "sublist x v \<Longrightarrow> sublist x (a @ v @ b)"
  by (auto simp: sublist_def) (metis append.assoc)

section \<open>Properties\<close>

text \<open>A hardware encoder is used only when the configuration allows it, FFmpeg lists it and a real
  test encoding with it has succeeded, and then it is the first such candidate; software encoding is
  chosen only when there is none, and only after the software encoder was tested itself.\<close>

theorem detect_sound:
  assumes "detect Windows c run = Inr b"
  shows "ran_well (run (probe_arguments (video_encoder c))) \<and>
    (if b = NoBackend
     then normalize (hardware_acceleration c) = ''off'' \<or>
       \<not> ran_well (run [''-hide_banner'', ''-hwaccels'']) \<or> \<not> ran_well (run [''-hide_banner'', ''-encoders'']) \<or>
       (\<forall>x\<in>set (candidates (normalize (hardware_acceleration c))). \<not> usable run x)
     else normalize (hardware_acceleration c) \<noteq> ''off'' \<and>
       (\<exists>pre x post. candidates (normalize (hardware_acceleration c)) = pre @ x # post \<and>
          cd_backend x = b \<and> usable run x \<and> (\<forall>y\<in>set pre. \<not> usable run y)))"
proof -
  let ?cs = "candidates (normalize (hardware_acceleration c))"
  show ?thesis
  proof (cases "List.find (usable run) ?cs")
    case None
    then have "\<forall>x\<in>set ?cs. \<not> usable run x" by (auto simp: find_None_iff)
    then show ?thesis
      using assms None by (auto simp: detect_def Let_def try_candidates_find split: if_splits)
  next
    case (Some x)
    obtain pre post where x: "?cs = pre @ x # post" "usable run x" "\<forall>y\<in>set pre. \<not> usable run y"
      using find_split[OF Some] by blast
    then have "cd_backend x \<noteq> NoBackend"
      using candidate_backends[of x "normalize (hardware_acceleration c)"] by simp
    then show ?thesis
      using assms x Some by (auto simp: detect_def Let_def try_candidates_find split: if_splits)
  qed
qed

definition probe_machine :: "string list \<Rightarrow> captured" where
  "probe_machine args = \<lparr>cp_exit = (if ''h264_nvenc'' \<in> set args then 1 else 0), cp_timed_out = False,
     cp_output = join '' '' [''cuda'', ''qsv'', ''h264_nvenc'', ''h264_qsv'']\<rparr>"

theorem detect_sound_witness:
  "\<exists>pre x post. candidates (normalize (hardware_acceleration default_config)) = pre @ x # post \<and>
     cd_backend x = IntelQsv \<and> usable probe_machine x \<and> (\<forall>y\<in>set pre. \<not> usable probe_machine y)"
proof -
  have "detect Windows default_config probe_machine = Inr IntelQsv"
    by (simp add: detect_def normalize_def default_config_def to_lower_eval ran_well_def probe_machine_def
        probe_arguments_def candidates_def nvidia_def qsv_def has_token_line word_ok_def byte_simps
        del: join.simps)
  from detect_sound[OF this] show ?thesis by simp
qed

text \<open>For every accepted request with a real speed, the time FFmpeg may stay silent is the configured
  one stretched by the slow-down, at most sixteen-fold, so the conversion to \<open>int\<close> is defined; for the
  speed NaN, which the request check lets through, it is not.\<close>

theorem output_stall_bounds:
  assumes "config_wf c" and "request_wf c r"
  shows "if sr_speed r = NaN then output_stall c (sr_speed r) = None
    else \<exists>ms. output_stall c (sr_speed r) = Some ms \<and> in_int32 ms \<and>
      output_stall_ms c \<le> ms \<and> ms \<le> 16 * output_stall_ms c"
proof (cases "sr_speed r = NaN")
  case True
  then show ?thesis by (simp add: output_stall_def clamp_speed_def)
next
  case False
  then have "sr_speed r \<in> set valid_speeds"
    using assms(2) by (cases "sr_option r") (auto simp: request_wf_def)
  then obtain s where s: "clamp_speed (sr_speed r) = Fin s" "1 / 16 \<le> s" "s \<le> 1"
    using clamp_valid by blast
  have range: "1000 \<le> output_stall_ms c" "output_stall_ms c \<le> 600000"
    using assms(1) by (auto simp: config_wf_def)
  define q where "q = \<lfloor>rat_of_int (output_stall_ms c) / s\<rfloor>"
  have "output_stall_ms c \<le> q" "q \<le> 16 * output_stall_ms c"
    using stall_bounds[OF s(2,3), of "output_stall_ms c"] range by (simp_all add: q_def)
  moreover have "output_stall c (sr_speed r) = Some q" by (simp add: output_stall_def s(1) q_def)
  ultimately show ?thesis using False range by (simp add: in_int32_def)
qed

theorem output_stall_bounds_witness:
  "\<exists>ms. output_stall default_config (Fin (1 / 2)) = Some ms \<and> in_int32 ms"
proof -
  let ?r = "cache_example_request\<lparr>sr_option := Playback, sr_speed := Fin (1 / 2), sr_end := 60\<rparr>"
  have "request_wf default_config ?r"
    by (simp add: request_wf_def cache_example_request_def is_safe_session_id_def safe_char_def byte_simps
        valid_speeds_def default_config_def)
  from output_stall_bounds[OF default_config_wf this] show ?thesis by simp blast
qed

text \<open>The arguments follow the plan and the request: the video encoder is \<open>copy\<close>, the tested hardware
  encoder or the configured one, never missing; a transcoded picture at another speed is retimed by
  exactly that speed; and an audio track is announced to the browser only if FFmpeg was told to encode
  one.\<close>

theorem arguments_follow_plan:
  assumes "plan = select_plan b mode force" and "request_wf c r"
  shows "sublist [''-c:v'', if mode = CopyMode then ''copy''
        else if force \<or> b = NoBackend then video_encoder c else plan_encoder plan]
      (build_arguments c r mode plan) \<and>
    (mode = H264Transcode \<and> sr_speed r \<noteq> Fin 1 \<and> sr_speed r \<noteq> NaN \<longrightarrow>
      (\<exists>t. sublist [''-vf'', ''setpts=PTS/'' @ t] (build_arguments c r mode plan) \<and>
           sr_speed r = Fin (decimal_value t))) \<and>
    (mse_codecs r c d \<noteq> avc_mse_codec d \<longrightarrow>
      sublist [''-map'', ''0:a:0?'', ''-c:a'', ''aac''] (build_arguments c r mode plan))"
proof (intro conjI impI)
  have within_video: "sublist x (build_arguments c r mode plan)" if "sublist x (video_arguments c r mode plan)" for x
    using that unfolding build_arguments_def by (rule sublist_within)
  show "sublist [''-c:v'', if mode = CopyMode then ''copy''
        else if force \<or> b = NoBackend then video_encoder c else plan_encoder plan]
      (build_arguments c r mode plan)"
    by (rule within_video, rule prefix_imp_sublist)
       (cases mode; cases b; simp add: video_arguments_def assms(1) select_plan_def software_plan_def)
  show "\<exists>t. sublist [''-vf'', ''setpts=PTS/'' @ t] (build_arguments c r mode plan) \<and>
           sr_speed r = Fin (decimal_value t)"
    if "mode = H264Transcode \<and> sr_speed r \<noteq> Fin 1 \<and> sr_speed r \<noteq> NaN"
  proof (intro exI conjI)
    have "sr_speed r \<in> set valid_speeds"
      using assms(2) that by (cases "sr_option r") (auto simp: request_wf_def)
    then show "sr_speed r = Fin (decimal_value (show_speed (sr_speed r)))" by (rule speed_text_exact)
    have "suffix [''-vf'', ''setpts=PTS/'' @ show_speed (sr_speed r)] (video_arguments c r mode plan)"
      using that by (simp add: video_arguments_def dbl_eq_Fin1 suffix_def)
    then show "sublist [''-vf'', ''setpts=PTS/'' @ show_speed (sr_speed r)] (build_arguments c r mode plan)"
      by (intro within_video suffix_imp_sublist)
  qed
  show "sublist [''-map'', ''0:a:0?'', ''-c:a'', ''aac''] (build_arguments c r mode plan)"
    if "mse_codecs r c d \<noteq> avc_mse_codec d"
  proof -
    have "prefix [''-map'', ''0:a:0?'', ''-c:a'', ''aac''] (audio_arguments c r)"
      using that by (auto simp: mse_codecs_def audio_arguments_def split: if_splits)
    then have part: "sublist [''-map'', ''0:a:0?'', ''-c:a'', ''aac''] (a @ audio_arguments c r @ b)" for a b
      by (intro sublist_within prefix_imp_sublist)
    show ?thesis
      unfolding build_arguments_def append.assoc[of _ "video_arguments c r mode plan", symmetric] by (rule part)
  qed
qed

theorem arguments_follow_plan_witness:
  "sublist [''-c:v'', ''h264_qsv''] (build_arguments default_config cache_example_request H264Transcode
     (select_plan IntelQsv H264Transcode False))"
proof -
  have "request_wf default_config cache_example_request"
    by (simp add: request_wf_def cache_example_request_def is_safe_session_id_def safe_char_def byte_simps)
  from arguments_follow_plan[OF refl this, where b = IntelQsv and mode = H264Transcode and force = False, THEN conjunct1]
  show ?thesis by (simp add: select_plan_def)
qed

end
