(* ===== verification/Hc_Session.thy ===== *)
theory Hc_Session
  imports Byte_Queue Channel_Topology Session_Status Machine
begin

text \<open>
  \<open>HcSession\<close>: one login to the device and one stream from it.  The vendor's SDK is the
  environment: the results of its calls are arguments, and the calls themselves are recorded in a
  trace, over which \<open>track\<close> states the protocol the bridge has to keep.  The threads are the
  connection's (\<open>prepare\<close>, \<open>start\<close>, \<open>stop\<close>), the SDK's callback, the playback monitor and the
  FFmpeg input thread, which takes packets out of the queue.
\<close>

section \<open>State\<close>

datatype data_type = SysHead | StreamData | StdVideoData | OtherData

datatype control_command = PlayStart | SpeedCommand play_command | KeepAlive

datatype sdk_call =
    Login int
  | Logout int
  | GetConfig int
  | SetConfig int "16 word"
  | OpenStream option_kind int
  | CloseStream option_kind int
  | SetCallback int
  | Control int control_command
  | Position int
  | MakeKeyFrame int stream_kind

record hc_session =
  hs_request :: stream_request
  hs_config :: config
  hs_queue :: byte_queue
  hs_user :: int
  hs_handle :: int
  hs_stopped :: bool
  hs_overflow :: bool
  hs_end_reason :: stream_end_reason
  hs_sdk_bytes :: "64 word"
  hs_header_packets :: "64 word"
  hs_media_packets :: "64 word"
  hs_resolved :: resolved_type
  hs_camera :: int
  hs_keep_alive_failures :: int
  hs_prepared :: bool
  hs_started :: bool
  hs_codec :: video_codec
  hs_first_data :: bool
  hs_monitor :: bool
  hs_waiting :: "(data_type \<times> bytes) list"   \<comment> \<open>callbacks waiting in \<open>push\<close>\<close>
  hs_calls :: "sdk_call list"                  \<comment> \<open>the trace\<close>

definition new_session :: "stream_request \<Rightarrow> config \<Rightarrow> hc_session" where
  "new_session r c =
     \<lparr>hs_request = r, hs_config = c, hs_queue = new_queue (queue_bytes c), hs_user = -1, hs_handle = -1,
      hs_stopped = False, hs_overflow = False, hs_end_reason = Active, hs_sdk_bytes = 0,
      hs_header_packets = 0, hs_media_packets = 0, hs_resolved = ResolvedUnknown, hs_camera = 0,
      hs_keep_alive_failures = 0, hs_prepared = False, hs_started = False, hs_codec = CodecUnknown,
      hs_first_data = False, hs_monitor = False, hs_waiting = [], hs_calls = []\<rparr>"

definition call :: "sdk_call \<Rightarrow> hc_session \<Rightarrow> hc_session" where
  "call c s = s\<lparr>hs_calls := hs_calls s @ [c]\<rparr>"

section \<open>prepare\<close>

text \<open>What the device answers about one stream's encoding, and what \<open>prepare\<close> meets: the outcomes of
  its five \<open>check_request\<close>, the reachability probe, the login with the SDK's error code, and the two
  configuration calls.\<close>

record stream_parameters =
  video_enc_type :: "8 word"
  interval_frame_i :: "16 word"

record prepare_env =
  pe_check :: "nat \<Rightarrow> failure option"
  pe_probe :: "unit res"
  pe_login :: int
  pe_error :: nat
  pe_device :: device_info
  pe_max_channels :: nat
  pe_ip :: "ip_config option"
  pe_compression :: "(stream_parameters \<times> stream_parameters) option"

definition check :: "failure option \<Rightarrow> unit res" where
  "check f = (case f of None \<Rightarrow> Inr () | Some e \<Rightarrow> Inl e)"

definition selected_parameters :: "stream_request \<Rightarrow> stream_parameters \<times> stream_parameters \<Rightarrow> stream_parameters" where
  "selected_parameters r p = (if sr_stream r = MainStream then fst p else snd p)"

definition configured_codec :: "stream_parameters \<Rightarrow> video_codec" where
  "configured_codec p =
     (if video_enc_type p = 10 then H265
      else if video_enc_type p = 0 \<or> video_enc_type p = 1 then H264 else CodecUnknown)"

definition wants_interval :: "hc_session \<Rightarrow> bool" where
  "wants_interval s \<longleftrightarrow>
     sr_option (hs_request s) = RealPlay \<and> realplay_keyframe_interval_frames (hs_config s) > 0"

definition requested_interval :: "hc_session \<Rightarrow> 16 word" where
  "requested_interval s = word_of_int (realplay_keyframe_interval_frames (hs_config s))"

definition read_video_stream_configuration :: "prepare_env \<Rightarrow> hc_session \<Rightarrow> hc_session" where
  "read_video_stream_configuration e s =
     (if \<not> read_video_codec_from_device (hs_config s) \<and> \<not> wants_interval s then s
      else
        let s = call (GetConfig (hs_user s)) s
        in case pe_compression e of
             None \<Rightarrow> s
           | Some p \<Rightarrow>
               let sel = selected_parameters (hs_request s) p;
                   s = (if read_video_codec_from_device (hs_config s)
                        then s\<lparr>hs_codec := configured_codec sel\<rparr> else s)
               in if \<not> wants_interval s then s
                  else if interval_frame_i sel \<noteq> 0 \<and> interval_frame_i sel \<noteq> 0xfffe \<and>
                          interval_frame_i sel \<le> requested_interval s then s
                  else call (SetConfig (hs_user s) (requested_interval s)) s)"

definition login_failure :: "nat \<Rightarrow> failure" where
  "login_failure error =
     (if error = 7 then BridgeError 502 ''NVR_UNREACHABLE'' else BridgeError 502 ''SDK_LOGIN_FAILED'')"

text \<open>From the successful login on.\<close>

definition prepare_channel :: "prepare_env \<Rightarrow> hc_session \<Rightarrow> unit res \<times> hc_session" where
  "prepare_channel e s =
     (let topology = read_topology (pe_max_channels e) (pe_device e) (pe_ip e);
          s = call (GetConfig (hs_user s)) s
      in case pe_check e 3 of
           Some f \<Rightarrow> (Inl f, s)
         | None \<Rightarrow>
             (case resolve topology (sr_camera (hs_request s)) (sr_channel_type (hs_request s)) of
                Inl f \<Rightarrow> (Inl f, s)
              | Inr (kind, camera) \<Rightarrow>
                  let s = read_video_stream_configuration e (s\<lparr>hs_resolved := kind, hs_camera := camera\<rparr>)
                  in case pe_check e 4 of
                       Some f \<Rightarrow> (Inl f, s)
                     | None \<Rightarrow> (Inr (), s\<lparr>hs_prepared := True\<rparr>)))"

definition prepare :: "prepare_env \<Rightarrow> hc_session \<Rightarrow> unit res \<times> hc_session" where
  "prepare e s =
     (case pe_check e 0 of
        Some f \<Rightarrow> (Inl f, s)
      | None \<Rightarrow>
          if hs_prepared s then (Inr (), s)
          else case pe_probe e of
            Inl f \<Rightarrow> (Inl f, s)
          | Inr _ \<Rightarrow>
              (case pe_check e 1 of
                 Some f \<Rightarrow> (Inl f, s)
               | None \<Rightarrow>
                   let s = call (Login (pe_login e)) (s\<lparr>hs_user := pe_login e\<rparr>)
                   in case pe_check e 2 of
                        Some f \<Rightarrow> (Inl f, s)
                      | None \<Rightarrow>
                          if hs_user s < 0 then (Inl (login_failure (pe_error e)), s)
                          else prepare_channel e s))"

section \<open>Starting the stream\<close>

record start_env =
  st_open :: int                            \<comment> \<open>result of \<open>RealPlay_V40\<close> or \<open>PlayBackByTime_V40\<close>\<close>
  st_callback :: bool
  st_control :: "nat \<Rightarrow> bool"              \<comment> \<open>results of the playback controls\<close>
  st_unspecified_steps :: nat               \<comment> \<open>\<open>llround\<close> of what is not a number\<close>

definition request_realplay_keyframe :: "hc_session \<Rightarrow> hc_session" where
  "request_realplay_keyframe s =
     (if \<not> force_keyframe_on_realplay (hs_config s) then s
      else call (MakeKeyFrame (hs_user s) (sr_stream (hs_request s))) s)"

definition start_realplay :: "start_env \<Rightarrow> hc_session \<Rightarrow> unit res \<times> hc_session" where
  "start_realplay e s =
     (let s = call (OpenStream RealPlay (st_open e)) (s\<lparr>hs_handle := st_open e\<rparr>)
      in if hs_handle s < 0 then (Inl (BridgeError 502 ''SDK_REALPLAY_FAILED''), s)
         else (Inr (), request_realplay_keyframe s))"

text \<open>Controls are issued one by one; the first that fails throws.\<close>

fun control_all :: "(nat \<Rightarrow> bool) \<Rightarrow> nat \<Rightarrow> control_command list \<Rightarrow> hc_session \<Rightarrow> unit res \<times> hc_session" where
  "control_all results n [] s = (Inr (), s)"
| "control_all results n (c # cs) s =
     (let s = call (Control (hs_handle s) c) s
      in if results n then control_all results (n + 1) cs s
         else (Inl (BridgeError 502 ''SDK_PLAYBACK_CONTROL_FAILED''), s))"

definition start_playback :: "start_env \<Rightarrow> hc_session \<Rightarrow> unit res \<times> hc_session" where
  "start_playback e s =
     (let s = call (OpenStream Playback (st_open e)) (s\<lparr>hs_handle := st_open e\<rparr>)
      in if hs_handle s < 0 then (Inl (BridgeError 502 ''SDK_PLAYBACK_FAILED''), s)
         else
           let s = call (SetCallback (hs_handle s)) s
           in if \<not> st_callback e then (Inl (BridgeError 502 ''SDK_CALLBACK_FAILED''), s)
              else case control_all (st_control e) 0
                          (PlayStart # map SpeedCommand (speed_commands (st_unspecified_steps e) (sr_speed (hs_request s)))) s of
                     (Inl f, s) \<Rightarrow> (Inl f, s)
                   | (Inr _, s) \<Rightarrow> (Inr (), s\<lparr>hs_monitor := True\<rparr>))"

text \<open>\<open>start_stream_and_wait_for_data\<close> up to its wait, and one round of the wait; \<open>None\<close> is to wait on.\<close>

definition submit_stream :: "prepare_env \<Rightarrow> failure option \<Rightarrow> start_env \<Rightarrow> hc_session \<Rightarrow> unit res \<times> hc_session" where
  "submit_stream pe f e s =
     (case prepare pe s of
        (Inl g, s) \<Rightarrow> (Inl g, s)
      | (Inr _, s) \<Rightarrow>
          (case f of
             Some g \<Rightarrow> (Inl g, s)
           | None \<Rightarrow>
               if hs_started s then (Inr (), s)
               else case (if sr_option (hs_request s) = RealPlay then start_realplay e s else start_playback e s) of
                      (Inl g, s) \<Rightarrow> (Inl g, s)
                    | (Inr _, s) \<Rightarrow> (Inr (), s\<lparr>hs_started := True\<rparr>)))"

definition wait_round :: "failure option \<Rightarrow> bool \<Rightarrow> hc_session \<Rightarrow> unit res option" where
  "wait_round f deadline s =
     (if \<not> hs_first_data s \<and> \<not> hs_overflow s then
        (case f of
           Some g \<Rightarrow> Some (Inl g)
         | None \<Rightarrow> if deadline then Some (Inl (BridgeError 504 ''SDK_STREAM_TIMEOUT'')) else None)
      else case f of
             Some g \<Rightarrow> Some (Inl g)
           | None \<Rightarrow> if hs_overflow s then Some (Inl (BridgeError 502 ''MEDIA_QUEUE_OVERFLOW'')) else Some (Inr ()))"

section \<open>The callback\<close>

definition after_push :: "data_type \<Rightarrow> bytes \<Rightarrow> push_result \<times> byte_queue \<Rightarrow> hc_session \<Rightarrow> hc_session" where
  "after_push ty d rq s =
     (case fst rq of
        PushStored \<Rightarrow> (let s = s\<lparr>hs_queue := snd rq\<rparr> in if ty \<noteq> SysHead then s\<lparr>hs_first_data := True\<rparr> else s)
      | PushRejected \<Rightarrow> s\<lparr>hs_overflow := True, hs_end_reason := QueueOverflow, hs_queue := close (snd rq)\<rparr>
      | PushWaiting \<Rightarrow> s\<lparr>hs_queue := snd rq, hs_waiting := hs_waiting s @ [(ty, d)]\<rparr>)"

definition accept_data :: "data_type \<Rightarrow> bytes \<Rightarrow> hc_session \<Rightarrow> hc_session" where
  "accept_data ty d s =
     (if hs_stopped s \<or> d = [] \<or> ty = OtherData then s
      else if hs_end_reason s \<noteq> Active then s
      else
        let s = s\<lparr>hs_sdk_bytes := hs_sdk_bytes s + of_nat (length d)\<rparr>;
            s = (if ty = SysHead then s\<lparr>hs_header_packets := hs_header_packets s + 1\<rparr>
                 else s\<lparr>hs_media_packets := hs_media_packets s + 1\<rparr>)
        in after_push ty d (push_enter d (queue_backpressure_ms (hs_config s) \<le> 0) (hs_queue s)) s)"

definition resume_data :: "nat \<Rightarrow> hc_session \<Rightarrow> hc_session" where
  "resume_data i s =
     (if i < length (hs_waiting s) then
        let (ty, d) = hs_waiting s ! i
        in after_push ty d (push_resume d (hs_queue s))
             (s\<lparr>hs_waiting := take i (hs_waiting s) @ drop (i + 1) (hs_waiting s)\<rparr>)
      else s)"

section \<open>The playback monitor, and the end\<close>

definition complete_playback :: "stream_end_reason \<Rightarrow> hc_session \<Rightarrow> hc_session" where
  "complete_playback reason s =
     (if hs_end_reason s \<noteq> Active then s
      else s\<lparr>hs_end_reason := reason, hs_queue := close (hs_queue s)\<rparr>)"

definition send_playback_keep_alive :: "bool \<Rightarrow> hc_session \<Rightarrow> hc_session" where
  "send_playback_keep_alive succeeded s =
     (let s = call (Control (hs_handle s) KeepAlive) s
      in if succeeded then s\<lparr>hs_keep_alive_failures := 0\<rparr>
         else let failures = hs_keep_alive_failures s + 1;
                  s = s\<lparr>hs_keep_alive_failures := failures\<rparr>
              in if failures \<ge> 3 then complete_playback SdkKeepAliveFailed s else s)"

text \<open>A round of the monitor: the result of the keep-alive if one is due, and the position if it is
  checked.  The thread leaves its loop by ending itself.\<close>

definition monitor_round :: "bool option \<Rightarrow> nat option \<Rightarrow> hc_session \<Rightarrow> hc_session" where
  "monitor_round keep_alive position s =
     (let s = (case keep_alive of None \<Rightarrow> s | Some succeeded \<Rightarrow> send_playback_keep_alive succeeded s)
      in if keep_alive \<noteq> None \<and> hs_end_reason s \<noteq> Active then s\<lparr>hs_monitor := False\<rparr>
         else case position of
                None \<Rightarrow> s
              | Some p \<Rightarrow>
                  let s = call (Position (hs_handle s)) s
                  in if p = 100 then (complete_playback PlaybackEnd s)\<lparr>hs_monitor := False\<rparr>
                     else if p = 200 then (complete_playback PlaybackPositionError s)\<lparr>hs_monitor := False\<rparr>
                     else s)"

text \<open>\<open>stop\<close> joins the monitor before it closes the stream.\<close>

definition stop :: "hc_session \<Rightarrow> hc_session" where
  "stop s =
     (if hs_stopped s then s
      else
        let s = s\<lparr>hs_stopped := True, hs_queue := close (hs_queue s), hs_monitor := False\<rparr>;
            s = (if hs_handle s \<ge> 0
                 then (call (CloseStream (sr_option (hs_request s)) (hs_handle s)) s)\<lparr>hs_handle := -1\<rparr> else s)
        in if hs_user s \<ge> 0 then (call (Logout (hs_user s)) s)\<lparr>hs_user := -1\<rparr> else s)"

section \<open>The SDK's protocol\<close>

text \<open>
  What a trace leaves open: nothing, a login, or a login with a stream.  \<open>None\<close> is a violation: a
  second login or stream, a call on a login or a stream that is not the open one, a logout before
  the stream is closed.
\<close>

fun track :: "int option \<times> int option \<Rightarrow> sdk_call list \<Rightarrow> (int option \<times> int option) option" where
  "track p [] = Some p"
| "track (u, h) (Login v # cs) = (if u = None then track (if v \<ge> 0 then Some v else None, h) cs else None)"
| "track (u, h) (Logout v # cs) = (if u = Some v \<and> h = None then track (None, h) cs else None)"
| "track (u, h) (GetConfig v # cs) = (if u = Some v then track (u, h) cs else None)"
| "track (u, h) (SetConfig v _ # cs) = (if u = Some v then track (u, h) cs else None)"
| "track (u, h) (OpenStream _ g # cs) =
     (if u \<noteq> None \<and> h = None then track (u, if g \<ge> 0 then Some g else None) cs else None)"
| "track (u, h) (CloseStream _ g # cs) = (if h = Some g then track (u, None) cs else None)"
| "track (u, h) (SetCallback g # cs) = (if h = Some g then track (u, h) cs else None)"
| "track (u, h) (Control g _ # cs) = (if h = Some g then track (u, h) cs else None)"
| "track (u, h) (Position g # cs) = (if h = Some g then track (u, h) cs else None)"
| "track (u, h) (MakeKeyFrame v _ # cs) = (if u = Some v then track (u, h) cs else None)"

lemma track_append: "track p (cs @ ds) = Option.bind (track p cs) (\<lambda>p. track p ds)"
  by (induction p cs rule: track.induct) auto

definition live :: "int \<Rightarrow> int option" where
  "live v = (if v \<ge> 0 then Some v else None)"

definition trace_ok :: "hc_session \<Rightarrow> bool" where
  "trace_ok s \<longleftrightarrow> track (None, None) (hs_calls s) = Some (live (hs_user s), live (hs_handle s))"

lemma trace_ok_call:
  "trace_ok s \<Longrightarrow> track (live (hs_user s), live (hs_handle s)) [c] = Some (live (hs_user s'), live (hs_handle s')) \<Longrightarrow>
     hs_calls s' = hs_calls s @ [c] \<Longrightarrow> trace_ok s'"
  by (simp add: trace_ok_def track_append)

lemma call_ok:
  "trace_ok s \<Longrightarrow> track (live (hs_user s), live (hs_handle s)) [c] = Some (live (hs_user s), live (hs_handle s)) \<Longrightarrow>
     trace_ok (call c s)"
  by (simp add: trace_ok_def call_def track_append)

text \<open>What concerns the stream and not the login.\<close>

definition same_stream :: "hc_session \<Rightarrow> hc_session \<Rightarrow> bool" where
  "same_stream s s' \<longleftrightarrow>
     hs_handle s' = hs_handle s \<and> hs_queue s' = hs_queue s \<and> hs_stopped s' = hs_stopped s \<and>
     hs_started s' = hs_started s \<and> hs_monitor s' = hs_monitor s \<and> hs_waiting s' = hs_waiting s \<and>
     hs_end_reason s' = hs_end_reason s \<and> hs_overflow s' = hs_overflow s \<and>
     hs_first_data s' = hs_first_data s \<and> hs_request s' = hs_request s \<and> hs_config s' = hs_config s \<and>
     hs_keep_alive_failures s' = hs_keep_alive_failures s"

lemma configuration_effect:
  "same_stream s (read_video_stream_configuration e s)"
  "hs_user (read_video_stream_configuration e s) = hs_user s"
  "hs_prepared (read_video_stream_configuration e s) = hs_prepared s"
  "hs_user s \<ge> 0 \<Longrightarrow> trace_ok s \<Longrightarrow> trace_ok (read_video_stream_configuration e s)"
  by (auto simp: read_video_stream_configuration_def Let_def same_stream_def call_def trace_ok_def
      track_append live_def split: option.split)

lemma prepare_channel_cases:
  assumes "prepare_channel e s = (r, s')"
  obtains "\<not> is_ok r" "s' = call (GetConfig (hs_user s)) s"
  | k c where "\<not> is_ok r"
      "s' = read_video_stream_configuration e ((call (GetConfig (hs_user s)) s)\<lparr>hs_resolved := k, hs_camera := c\<rparr>)"
  | k c where "is_ok r"
      "s' = (read_video_stream_configuration e
         ((call (GetConfig (hs_user s)) s)\<lparr>hs_resolved := k, hs_camera := c\<rparr>))\<lparr>hs_prepared := True\<rparr>"
proof (cases "pe_check e 3")
  case (Some f)
  then show ?thesis using assms that(1) by (auto simp: prepare_channel_def Let_def)
next
  case None
  let ?res = "resolve (read_topology (pe_max_channels e) (pe_device e) (pe_ip e))
      (sr_camera (hs_request s)) (sr_channel_type (hs_request s))"
  have req: "hs_request (call x s) = hs_request s" for x by (simp add: call_def)
  show ?thesis
  proof (cases ?res)
    case (Inl f)
    then show ?thesis using assms None that(1) by (auto simp: prepare_channel_def Let_def req)
  next
    case (Inr kc)
    then show ?thesis
      using assms None that(2,3)
      by (cases kc; cases "pe_check e 4") (auto simp: prepare_channel_def Let_def req)
  qed
qed

lemma prepare_channel_effect:
  assumes "prepare_channel e s = (r, s')" and "hs_user s \<ge> 0" and "trace_ok s" and "\<not> hs_prepared s"
  shows "same_stream s s'" "trace_ok s'" "hs_user s' = hs_user s" "hs_prepared s' \<longleftrightarrow> is_ok r"
proof -
  let ?s1 = "call (GetConfig (hs_user s)) s"
  let ?s2 = "\<lambda>k c. read_video_stream_configuration e (?s1\<lparr>hs_resolved := k, hs_camera := c\<rparr>)"
  have s1: "same_stream s ?s1" "hs_user ?s1 = hs_user s" "hs_prepared ?s1 = hs_prepared s" "trace_ok ?s1"
    using assms(2,3) by (simp_all add: same_stream_def call_def trace_ok_def track_append live_def)
  have s2: "same_stream s (?s2 k c)" "hs_user (?s2 k c) = hs_user s" "hs_prepared (?s2 k c) = hs_prepared s"
      "trace_ok (?s2 k c)" for k c
    using configuration_effect[where e = e and s = "?s1\<lparr>hs_resolved := k, hs_camera := c\<rparr>"] s1 assms(2)
    by (simp_all add: same_stream_def trace_ok_def)
  from assms(1) have "same_stream s s' \<and> trace_ok s' \<and> hs_user s' = hs_user s \<and> (hs_prepared s' \<longleftrightarrow> is_ok r)"
  proof (cases rule: prepare_channel_cases)
    case (3 k c)
    then show ?thesis using s2[where k = k and c = c] by (simp add: same_stream_def trace_ok_def)
  qed (use s1 s2 assms(4) in simp_all)
  then show "same_stream s s'" "trace_ok s'" "hs_user s' = hs_user s" "hs_prepared s' \<longleftrightarrow> is_ok r"
    by simp_all
qed

lemma prepare_prepared: "hs_prepared s \<Longrightarrow> prepare e s = (r, s') \<Longrightarrow> s' = s"
  by (auto simp: prepare_def split: option.splits)

lemma prepare_cases:
  assumes "prepare e s = (r, s')" and "\<not> hs_prepared s"
  obtains "s' = s" "\<not> is_ok r"
  | "s' = call (Login (pe_login e)) (s\<lparr>hs_user := pe_login e\<rparr>)" "\<not> is_ok r"
  | "pe_login e \<ge> 0" "prepare_channel e (call (Login (pe_login e)) (s\<lparr>hs_user := pe_login e\<rparr>)) = (r, s')"
proof (cases "pe_check e 0")
  case (Some f)
  then have "prepare e s = (Inl f, s)" by (simp add: prepare_def)
  then show ?thesis using assms(1) that(1) by simp
next
  case c0: None
  show ?thesis
  proof (cases "pe_probe e")
    case (Inl f)
    then have "prepare e s = (Inl f, s)" using assms(2) c0 by (simp add: prepare_def)
    then show ?thesis using assms(1) that(1) by simp
  next
    case (Inr x)
    show ?thesis
    proof (cases "pe_check e 1")
      case (Some f)
      then have "prepare e s = (Inl f, s)" using assms(2) c0 Inr by (simp add: prepare_def)
      then show ?thesis using assms(1) that(1) by simp
    next
      case None
      let ?s1 = "call (Login (pe_login e)) (s\<lparr>hs_user := pe_login e\<rparr>)"
      have user: "hs_user ?s1 = pe_login e" by (simp add: call_def)
      have "prepare e s =
          (case pe_check e 2 of Some f \<Rightarrow> (Inl f, ?s1)
           | None \<Rightarrow> if pe_login e < 0 then (Inl (login_failure (pe_error e)), ?s1) else prepare_channel e ?s1)"
        using assms(2) c0 Inr None by (simp add: prepare_def user Let_def)
      then show ?thesis
        using assms(1) that(2,3) by (cases "pe_check e 2"; cases "pe_login e < 0") simp_all
    qed
  qed
qed

lemma prepare_effect:
  assumes "prepare e s = (r, s')" and "hs_user s < 0" and "trace_ok s" and "\<not> hs_prepared s" and "hs_handle s < 0"
  shows "same_stream s s'" "trace_ok s'" "hs_prepared s' \<longleftrightarrow> is_ok r" "is_ok r \<Longrightarrow> hs_user s' \<ge> 0"
proof -
  let ?s1 = "call (Login (pe_login e)) (s\<lparr>hs_user := pe_login e\<rparr>)"
  have s1: "same_stream s ?s1" "hs_user ?s1 = pe_login e" "hs_prepared ?s1 = hs_prepared s" "trace_ok ?s1"
    using assms(2,3,5) by (simp_all add: same_stream_def call_def trace_ok_def track_append live_def)
  from assms(1,4) have "same_stream s s' \<and> trace_ok s' \<and> (hs_prepared s' \<longleftrightarrow> is_ok r) \<and> (is_ok r \<longrightarrow> hs_user s' \<ge> 0)"
  proof (cases rule: prepare_cases)
    case 3
    have "hs_user ?s1 \<ge> 0" "\<not> hs_prepared ?s1" using 3(1) s1(2,3) assms(4) by simp_all
    then show ?thesis
      using prepare_channel_effect[OF 3(2) _ s1(4)] 3(1) s1(1,2) by (auto simp: same_stream_def)
  qed (use assms s1 in \<open>simp_all add: same_stream_def\<close>)
  then show "same_stream s s'" "trace_ok s'" "hs_prepared s' \<longleftrightarrow> is_ok r" "is_ok r \<Longrightarrow> hs_user s' \<ge> 0"
    by blast+
qed

section \<open>The stream\<close>

text \<open>What starting a stream leaves alone.\<close>

definition same_login :: "hc_session \<Rightarrow> hc_session \<Rightarrow> bool" where
  "same_login s s' \<longleftrightarrow>
     hs_user s' = hs_user s \<and> hs_prepared s' = hs_prepared s \<and> hs_queue s' = hs_queue s \<and>
     hs_stopped s' = hs_stopped s \<and> hs_waiting s' = hs_waiting s \<and> hs_end_reason s' = hs_end_reason s \<and>
     hs_overflow s' = hs_overflow s \<and> hs_request s' = hs_request s \<and> hs_started s' = hs_started s"

lemma control_all_effect:
  assumes "control_all results n cs s = (r, s')" and "trace_ok s" and "hs_handle s \<ge> 0"
  shows "same_login s s' \<and> trace_ok s' \<and> hs_handle s' = hs_handle s \<and> hs_monitor s' = hs_monitor s"
  using assms
proof (induction results n cs s rule: control_all.induct)
  case (2 results n c cs s)
  let ?s = "call (Control (hs_handle s) c) s"
  have s: "same_login s ?s" "hs_handle ?s = hs_handle s" "hs_monitor ?s = hs_monitor s" "trace_ok ?s"
    using "2.prems"(2,3) by (simp_all add: same_login_def call_def trace_ok_def track_append live_def)
  show ?case
    using 2 s by (cases "results n") (auto simp: Let_def same_login_def)
qed (simp add: same_login_def)

lemma open_effect:
  assumes "trace_ok s" and "hs_user s \<ge> 0" and "hs_handle s < 0"
  shows "trace_ok (call (OpenStream k h) (s\<lparr>hs_handle := h\<rparr>))"
  using assms by (simp add: call_def trace_ok_def track_append live_def)

lemma start_realplay_effect:
  assumes "start_realplay e s = (r, s')" and "trace_ok s" and "hs_user s \<ge> 0" and "hs_handle s < 0"
  shows "same_login s s'" "trace_ok s'" "is_ok r \<Longrightarrow> hs_handle s' \<ge> 0" "hs_monitor s' = hs_monitor s"
proof -
  let ?s = "call (OpenStream RealPlay (st_open e)) (s\<lparr>hs_handle := st_open e\<rparr>)"
  have s: "same_login s ?s" "hs_handle ?s = st_open e" "hs_user ?s = hs_user s" "hs_monitor ?s = hs_monitor s"
    by (simp_all add: same_login_def call_def)
  note t = open_effect[OF assms(2-4), of RealPlay "st_open e"]
  have k: "same_login ?s (request_realplay_keyframe ?s)" "hs_handle (request_realplay_keyframe ?s) = st_open e"
      "hs_monitor (request_realplay_keyframe ?s) = hs_monitor s"
    using s(2-4) by (simp_all add: request_realplay_keyframe_def same_login_def call_def)
  have tk: "trace_ok (request_realplay_keyframe ?s)"
    unfolding request_realplay_keyframe_def using t s(3) assms(3) by (auto intro!: call_ok simp: live_def)
  show "same_login s s'" "trace_ok s'" "is_ok r \<Longrightarrow> hs_handle s' \<ge> 0" "hs_monitor s' = hs_monitor s"
    using assms(1) s t k tk by (auto simp: start_realplay_def Let_def same_login_def split: if_splits)
qed

lemma start_playback_effect:
  assumes "start_playback e s = (r, s')" and "trace_ok s" and "hs_user s \<ge> 0" and "hs_handle s < 0"
    and "\<not> hs_monitor s"
  shows "same_login s s'" "trace_ok s'" "is_ok r \<Longrightarrow> hs_handle s' \<ge> 0" "hs_monitor s' \<Longrightarrow> is_ok r"
proof -
  let ?s = "call (OpenStream Playback (st_open e)) (s\<lparr>hs_handle := st_open e\<rparr>)"
  let ?c = "call (SetCallback (st_open e)) ?s"
  let ?cs = "PlayStart # map SpeedCommand (speed_commands (st_unspecified_steps e) (sr_speed (hs_request s)))"
  have s: "same_login s ?s" "hs_handle ?s = st_open e" "hs_monitor ?s = hs_monitor s" "hs_request ?c = hs_request s"
    by (simp_all add: same_login_def call_def)
  note t = open_effect[OF assms(2-4), of Playback "st_open e"]
  have c: "same_login s ?c" "hs_handle ?c = st_open e" "hs_monitor ?c = hs_monitor s"
    by (simp_all add: same_login_def call_def)
  have tc: "trace_ok ?c" if "st_open e \<ge> 0"
    using call_ok[OF t, of "SetCallback (st_open e)"] s(2) that by (simp add: live_def)
  have unfold: "start_playback e s =
      (if st_open e < 0 then (Inl (BridgeError 502 ''SDK_PLAYBACK_FAILED''), ?s)
       else if \<not> st_callback e then (Inl (BridgeError 502 ''SDK_CALLBACK_FAILED''), ?c)
       else case control_all (st_control e) 0 ?cs ?c of
              (Inl f, s) \<Rightarrow> (Inl f, s) | (Inr _, s) \<Rightarrow> (Inr (), s\<lparr>hs_monitor := True\<rparr>))"
    by (simp add: start_playback_def s(2,4) c(2) Let_def del: control_all.simps)
  obtain r1 s1 where ca: "control_all (st_control e) 0 ?cs ?c = (r1, s1)" by fastforce
  have s1: "st_open e \<ge> 0 \<Longrightarrow> same_login ?c s1 \<and> trace_ok s1 \<and> hs_handle s1 = st_open e \<and> hs_monitor s1 = hs_monitor s"
    using control_all_effect[OF ca tc] c by simp
  have res: "(r, s') = (if st_open e < 0 then (Inl (BridgeError 502 ''SDK_PLAYBACK_FAILED''), ?s)
       else if \<not> st_callback e then (Inl (BridgeError 502 ''SDK_CALLBACK_FAILED''), ?c)
       else case r1 of Inl f \<Rightarrow> (Inl f, s1) | Inr _ \<Rightarrow> (Inr (), s1\<lparr>hs_monitor := True\<rparr>))"
    using assms(1) unfolding unfold ca by (simp only: prod.case)
  have four: "s' = ?s \<and> \<not> is_ok r \<or> st_open e \<ge> 0 \<and> s' = ?c \<and> \<not> is_ok r \<or>
      st_open e \<ge> 0 \<and> s' = s1 \<and> \<not> is_ok r \<or> st_open e \<ge> 0 \<and> s' = s1\<lparr>hs_monitor := True\<rparr> \<and> is_ok r"
  proof (cases "st_open e < 0 \<or> \<not> st_callback e")
    case True
    then show ?thesis using res by (cases "st_open e < 0") simp_all
  next
    case False
    then show ?thesis using res by (cases r1) simp_all
  qed
  then consider "s' = ?s" "\<not> is_ok r" | "st_open e \<ge> 0" "s' = ?c" "\<not> is_ok r"
    | "st_open e \<ge> 0" "s' = s1" "\<not> is_ok r" | "st_open e \<ge> 0" "s' = s1\<lparr>hs_monitor := True\<rparr>" "is_ok r"
    by blast
  then have "same_login s s' \<and> trace_ok s' \<and> (is_ok r \<longrightarrow> hs_handle s' \<ge> 0) \<and> (hs_monitor s' \<longrightarrow> is_ok r)"
  proof cases
    case 4
    then show ?thesis using s1 c by (auto simp: same_login_def trace_ok_def)
  qed (use s c t tc s1 assms(5) in \<open>auto simp: same_login_def\<close>)
  then show "same_login s s'" "trace_ok s'" "is_ok r \<Longrightarrow> hs_handle s' \<ge> 0" "hs_monitor s' \<Longrightarrow> is_ok r"
    by blast+
qed

section \<open>Threads on one session\<close>

text \<open>\<open>handle_video\<close> destroys a session after the first exception: \<open>sy_done\<close>.\<close>

record session_system =
  sy_session :: hc_session
  sy_done :: bool

datatype hc_event =
    SessPrepare prepare_env
  | SessSubmit prepare_env "failure option" start_env
  | Callback data_type bytes
  | CallbackResume nat
  | TakePacket
  | MonitorRound "bool option" "nat option"
  | SessStop

fun hc_step :: "hc_event \<Rightarrow> session_system \<Rightarrow> session_system" where
  "hc_step (SessPrepare e) y =
     (if sy_done y then y
      else case prepare e (sy_session y) of (r, s) \<Rightarrow> \<lparr>sy_session = s, sy_done = \<not> is_ok r\<rparr>)"
| "hc_step (SessSubmit pe f e) y =
     (if sy_done y then y
      else case submit_stream pe f e (sy_session y) of (r, s) \<Rightarrow> \<lparr>sy_session = s, sy_done = \<not> is_ok r\<rparr>)"
| "hc_step (Callback ty d) y = y\<lparr>sy_session := accept_data ty d (sy_session y)\<rparr>"
| "hc_step (CallbackResume i) y = y\<lparr>sy_session := resume_data i (sy_session y)\<rparr>"
| "hc_step TakePacket y =
     y\<lparr>sy_session := (sy_session y)\<lparr>hs_queue := snd (pop (hs_queue (sy_session y)))\<rparr>\<rparr>"
| "hc_step (MonitorRound ka pos) y =
     (if hs_monitor (sy_session y) then y\<lparr>sy_session := monitor_round ka pos (sy_session y)\<rparr> else y)"
| "hc_step SessStop y = \<lparr>sy_session = stop (sy_session y), sy_done = True\<rparr>"

definition login_inv :: "session_system \<Rightarrow> bool" where
  "login_inv y \<longleftrightarrow>
     (let s = sy_session y
      in trace_ok s \<and> (hs_monitor s \<longrightarrow> hs_handle s \<ge> 0) \<and>
         (hs_stopped s \<longrightarrow> sy_done y \<and> hs_user s < 0 \<and> hs_handle s < 0) \<and>
         (\<not> sy_done y \<longrightarrow> (if hs_prepared s then hs_user s \<ge> 0 else hs_user s < 0) \<and>
            (hs_started s \<longrightarrow> hs_prepared s) \<and> (\<not> hs_started s \<longrightarrow> hs_handle s < 0)))"

definition media_inv :: "session_system \<Rightarrow> bool" where
  "media_inv y \<longleftrightarrow>
     (let s = sy_session y
      in queue_wf (hs_queue s) \<and>
         (\<forall>w\<in>set (hs_waiting s). packet_ok (q_limit (hs_queue s)) (snd w) \<and> fst w \<noteq> OtherData) \<and>
         (hs_end_reason s \<noteq> Active \<or> hs_stopped s \<longrightarrow> q_closed (hs_queue s)) \<and>
         (hs_overflow s \<longrightarrow> hs_end_reason s \<noteq> Active))"

text \<open>Steps of the media side leave the login side alone, and the other way round.\<close>

definition same_resources :: "hc_session \<Rightarrow> hc_session \<Rightarrow> bool" where
  "same_resources s s' \<longleftrightarrow>
     hs_calls s' = hs_calls s \<and> hs_user s' = hs_user s \<and> hs_handle s' = hs_handle s \<and>
     hs_stopped s' = hs_stopped s \<and> hs_monitor s' = hs_monitor s \<and> hs_prepared s' = hs_prepared s \<and>
     hs_started s' = hs_started s"

definition same_media :: "hc_session \<Rightarrow> hc_session \<Rightarrow> bool" where
  "same_media s s' \<longleftrightarrow>
     hs_queue s' = hs_queue s \<and> hs_waiting s' = hs_waiting s \<and> hs_end_reason s' = hs_end_reason s \<and>
     hs_overflow s' = hs_overflow s \<and> hs_stopped s' = hs_stopped s"

lemma login_inv_media:
  "login_inv y \<Longrightarrow> same_resources (sy_session y) s \<Longrightarrow> login_inv (y\<lparr>sy_session := s\<rparr>)"
  by (simp add: login_inv_def same_resources_def trace_ok_def Let_def)

lemma media_inv_login: "media_inv y \<Longrightarrow> same_media (sy_session y) s \<Longrightarrow> media_inv \<lparr>sy_session = s, sy_done = d\<rparr>"
  by (simp add: media_inv_def same_media_def Let_def)

lemma after_push_resources: "same_resources s (after_push ty d rq s)"
  by (cases "fst rq") (simp_all add: after_push_def same_resources_def Let_def)

lemma after_push_keeps: "same_resources s t \<Longrightarrow> same_resources s (after_push ty d rq t)"
  using after_push_resources[of t ty d rq] by (simp add: same_resources_def)

lemma accept_data_resources: "same_resources s (accept_data ty d s)"
  by (auto simp: accept_data_def Let_def intro!: after_push_keeps) (simp_all add: same_resources_def)

lemma resume_data_resources: "same_resources s (resume_data i s)"
  using after_push_resources[of "s\<lparr>hs_waiting := take i (hs_waiting s) @ drop (i + 1) (hs_waiting s)\<rparr>"]
  by (auto simp: resume_data_def same_resources_def split: prod.split)

lemma submit_effect:
  assumes "submit_stream pe f e s = (r, s')" and "login_inv \<lparr>sy_session = s, sy_done = False\<rparr>"
  shows "same_media s s'" "login_inv \<lparr>sy_session = s', sy_done = \<not> is_ok r\<rparr>"
proof -
  obtain r1 s1 where p: "prepare pe s = (r1, s1)" by fastforce
  have i: "trace_ok s" "hs_monitor s \<longrightarrow> hs_handle s \<ge> 0" "\<not> hs_stopped s"
      "if hs_prepared s then hs_user s \<ge> 0 else hs_user s < 0" "hs_started s \<longrightarrow> hs_prepared s"
      "\<not> hs_started s \<longrightarrow> hs_handle s < 0"
    using assms(2) by (auto simp: login_inv_def Let_def)
  have one: "same_stream s s1 \<and> trace_ok s1 \<and> (is_ok r1 \<longrightarrow> hs_prepared s1 \<and> hs_user s1 \<ge> 0)"
  proof (cases "hs_prepared s")
    case True
    then show ?thesis using prepare_prepared[OF True p] i by (simp add: same_stream_def)
  next
    case False
    then show ?thesis using prepare_effect[OF p] i by auto
  qed
  then have m1: "same_media s s1" by (simp add: same_stream_def same_media_def)
  define opened where "opened = (if sr_option (hs_request s1) = RealPlay then start_realplay e s1 else start_playback e s1)"
  obtain r2 s2 where o: "opened = (r2, s2)" by fastforce
  have two: "same_login s1 s2 \<and> trace_ok s2 \<and> (is_ok r2 \<longrightarrow> hs_handle s2 \<ge> 0) \<and> (hs_monitor s2 \<longrightarrow> is_ok r2)"
    if "is_ok r1" "\<not> hs_started s1"
  proof -
    have pre: "trace_ok s1" "hs_user s1 \<ge> 0" "hs_handle s1 < 0" "\<not> hs_monitor s1"
      using one that i by (auto simp: same_stream_def)
    show ?thesis
    proof (cases "sr_option (hs_request s1) = RealPlay")
      case True
      then have "start_realplay e s1 = (r2, s2)" using o by (simp add: opened_def)
      from start_realplay_effect[OF this pre(1-3)] pre(4) show ?thesis by simp
    next
      case False
      then have "start_playback e s1 = (r2, s2)" using o by (simp add: opened_def)
      from start_playback_effect[OF this pre] show ?thesis by blast
    qed
  qed
  have res: "(r, s') = (case r1 of Inl g \<Rightarrow> (Inl g, s1)
      | Inr _ \<Rightarrow> (case f of Some g \<Rightarrow> (Inl g, s1)
         | None \<Rightarrow> if hs_started s1 then (Inr (), s1)
                   else case r2 of Inl g \<Rightarrow> (Inl g, s2) | Inr _ \<Rightarrow> (Inr (), s2\<lparr>hs_started := True\<rparr>)))"
  proof (cases r1)
    case (Inr x)
    have o1: "sr_option (hs_request s1) = RealPlay \<Longrightarrow> start_realplay e s1 = (r2, s2)"
      and o2: "sr_option (hs_request s1) \<noteq> RealPlay \<Longrightarrow> start_playback e s1 = (r2, s2)"
      using o by (simp_all add: opened_def)
    have "submit_stream pe f e s = (case f of Some g \<Rightarrow> (Inl g, s1)
       | None \<Rightarrow> if hs_started s1 then (Inr (), s1)
                 else case r2 of Inl g \<Rightarrow> (Inl g, s2) | Inr _ \<Rightarrow> (Inr (), s2\<lparr>hs_started := True\<rparr>))"
      by (cases f; cases "hs_started s1"; cases "sr_option (hs_request s1) = RealPlay"; cases r2)
         (simp_all add: submit_stream_def p Inr o1 o2)
    then show ?thesis unfolding Inr sum.case assms(1) .
  next
    case (Inl g)
    have "submit_stream pe f e s = (Inl g, s1)" by (simp add: submit_stream_def p Inl)
    then show ?thesis unfolding Inl sum.case assms(1) .
  qed
  have "s' = s1 \<and> \<not> is_ok r \<or> s' = s1 \<and> is_ok r \<and> is_ok r1 \<and> hs_started s1 \<or>
      s' = s2 \<and> \<not> is_ok r \<and> is_ok r1 \<and> \<not> hs_started s1 \<or>
      s' = s2\<lparr>hs_started := True\<rparr> \<and> is_ok r \<and> is_ok r1 \<and> \<not> hs_started s1 \<and> is_ok r2"
  proof (cases r1)
    case (Inl g)
    then have "r = Inl g \<and> s' = s1" using res by simp
    then show ?thesis by (intro disjI1) simp
  next
    case r1: (Inr x)
    show ?thesis
    proof (cases f)
      case (Some g)
      then have "r = Inl g \<and> s' = s1" using res r1 by simp
      then show ?thesis by (intro disjI1) simp
    next
      case None
      show ?thesis
      proof (cases "hs_started s1")
        case True
        then have "r = Inr () \<and> s' = s1" using res r1 None by simp
        then have "s' = s1 \<and> is_ok r \<and> is_ok r1 \<and> hs_started s1" using True r1 by simp
        then show ?thesis by blast
      next
        case False
        show ?thesis
        proof (cases r2)
          case (Inl g)
          then have "r = Inl g \<and> s' = s2" using res r1 None False by simp
          then have "s' = s2 \<and> \<not> is_ok r \<and> is_ok r1 \<and> \<not> hs_started s1" using False r1 by simp
          then show ?thesis by blast
        next
          case (Inr x)
          then have "r = Inr () \<and> s' = s2\<lparr>hs_started := True\<rparr>" using res r1 None False by simp
          then have "s' = s2\<lparr>hs_started := True\<rparr> \<and> is_ok r \<and> is_ok r1 \<and> \<not> hs_started s1 \<and> is_ok r2"
            using False r1 Inr by simp
          then show ?thesis by blast
        qed
      qed
    qed
  qed
  then consider "s' = s1" "\<not> is_ok r" | "s' = s1" "is_ok r" "is_ok r1" "hs_started s1"
    | "s' = s2" "\<not> is_ok r" "is_ok r1" "\<not> hs_started s1"
    | "s' = s2\<lparr>hs_started := True\<rparr>" "is_ok r" "is_ok r1" "\<not> hs_started s1" "is_ok r2"
    by blast
  then have "same_media s s' \<and> login_inv \<lparr>sy_session = s', sy_done = \<not> is_ok r\<rparr>"
  proof cases
    case 1
    then show ?thesis using m1 one i by (simp add: login_inv_def Let_def same_stream_def)
  next
    case 2
    then show ?thesis using m1 one i by (simp add: login_inv_def Let_def same_stream_def)
  next
    case 3
    then show ?thesis
      using m1 one two i by (auto simp: login_inv_def Let_def same_stream_def same_login_def same_media_def)
  next
    case 4
    then show ?thesis
      using m1 one two i
      by (auto simp: login_inv_def Let_def same_stream_def same_login_def same_media_def trace_ok_def)
  qed
  then show "same_media s s'" "login_inv \<lparr>sy_session = s', sy_done = \<not> is_ok r\<rparr>" by blast+
qed

text \<open>What a step of the monitor may do.\<close>

definition monitored :: "hc_session \<Rightarrow> hc_session \<Rightarrow> bool" where
  "monitored s t \<longleftrightarrow>
     (trace_ok s \<and> hs_handle s \<ge> 0 \<longrightarrow> trace_ok t) \<and>
     hs_handle t = hs_handle s \<and> hs_user t = hs_user s \<and> hs_stopped t = hs_stopped s \<and>
     hs_prepared t = hs_prepared s \<and> hs_started t = hs_started s \<and> hs_waiting t = hs_waiting s \<and>
     hs_overflow t = hs_overflow s \<and> hs_queue t \<in> {hs_queue s, close (hs_queue s)} \<and>
     (hs_end_reason s \<noteq> Active \<longrightarrow> hs_end_reason t = hs_end_reason s) \<and>
     (hs_end_reason s = Active \<and> hs_end_reason t \<noteq> Active \<longrightarrow> hs_queue t = close (hs_queue s))"

lemma close_close [simp]: "close (close q) = close q"
  by (simp add: close_def)

lemma monitored_trans:
  assumes "monitored s t" and "monitored t u"
  shows "monitored s u"
proof (cases "hs_end_reason s = Active \<and> hs_end_reason t \<noteq> Active")
  case True
  then have "hs_queue t = close (hs_queue s)" using assms(1) by (simp add: monitored_def)
  then show ?thesis using True assms by (simp add: monitored_def)
next
  case False
  then show ?thesis using assms unfolding monitored_def by (elim conjE insertE emptyE) simp_all
qed

lemma monitored_basic:
  "monitored s s"
  "monitored s (s\<lparr>hs_keep_alive_failures := n\<rparr>)"
  "monitored s (s\<lparr>hs_monitor := False\<rparr>)"
  "monitored s (complete_playback r s)"
  by (simp_all add: monitored_def complete_playback_def trace_ok_def)

lemma monitored_call:
  "monitored s (call (Control (hs_handle s) c) s)" "monitored s (call (Position (hs_handle s)) s)"
  by (auto simp: monitored_def intro!: call_ok) (simp_all add: call_def live_def)

lemma monitored_keep_alive: "monitored s (send_playback_keep_alive b s)"
proof -
  let ?s = "call (Control (hs_handle s) KeepAlive) s"
  have "monitored s (?s\<lparr>hs_keep_alive_failures := n\<rparr>)" for n
    using monitored_call(1) monitored_basic(2) by (rule monitored_trans)
  then have "monitored s (complete_playback r (?s\<lparr>hs_keep_alive_failures := n\<rparr>))" and
      "monitored s (?s\<lparr>hs_keep_alive_failures := n\<rparr>)" for r n
    using monitored_basic(4) monitored_trans by blast+
  then show ?thesis by (simp add: send_playback_keep_alive_def Let_def)
qed

lemma monitored_round: "monitored s (monitor_round ka pos s)"
proof -
  define t where "t = (case ka of None \<Rightarrow> s | Some b \<Rightarrow> send_playback_keep_alive b s)"
  have t: "monitored s t"
    by (cases ka) (simp_all add: t_def monitored_basic(1) monitored_keep_alive)
  have p: "monitored s (call (Position (hs_handle t)) t)"
    using t monitored_call(2) by (rule monitored_trans)
  have q: "monitored s ((complete_playback r (call (Position (hs_handle t)) t))\<lparr>hs_monitor := False\<rparr>)" for r
    using monitored_trans[OF monitored_trans[OF p monitored_basic(4)] monitored_basic(3)] .
  have m: "monitored s (t\<lparr>hs_monitor := False\<rparr>)" using t monitored_basic(3) by (rule monitored_trans)
  have "monitor_round ka pos s =
      (if ka \<noteq> None \<and> hs_end_reason t \<noteq> Active then t\<lparr>hs_monitor := False\<rparr>
       else case pos of None \<Rightarrow> t
         | Some x \<Rightarrow>
             if x = 100 then (complete_playback PlaybackEnd (call (Position (hs_handle t)) t))\<lparr>hs_monitor := False\<rparr>
             else if x = 200
             then (complete_playback PlaybackPositionError (call (Position (hs_handle t)) t))\<lparr>hs_monitor := False\<rparr>
             else call (Position (hs_handle t)) t)"
    by (simp only: monitor_round_def Let_def t_def)
  then show ?thesis using t p q m by (auto split: option.split)
qed

lemma stop_effect:
  assumes "trace_ok s"
  shows "trace_ok (stop s)" and "\<not> hs_stopped s \<Longrightarrow> hs_user (stop s) < 0 \<and> hs_handle (stop s) < 0"
    and "hs_stopped (stop s)" and "\<not> hs_stopped s \<Longrightarrow> hs_queue (stop s) = close (hs_queue s) \<and> \<not> hs_monitor (stop s)"
    and "hs_stopped s \<Longrightarrow> stop s = s"
    and "hs_waiting (stop s) = hs_waiting s" and "hs_end_reason (stop s) = hs_end_reason s"
    and "hs_overflow (stop s) = hs_overflow s"
  using assms by (auto simp: stop_def Let_def trace_ok_def call_def track_append live_def)

section \<open>Every step keeps the invariants\<close>

lemma login_step:
  assumes "login_inv y"
  shows "login_inv (hc_step e y)"
proof (cases e)
  case (SessPrepare pe)
  obtain r s' where p: "prepare pe (sy_session y) = (r, s')" by fastforce
  show ?thesis
  proof (cases "sy_done y \<or> hs_prepared (sy_session y)")
    case True
    then show ?thesis
      using assms SessPrepare p prepare_prepared[OF _ p] by (auto simp: login_inv_def Let_def)
  next
    case False
    then have "trace_ok (sy_session y)" "hs_user (sy_session y) < 0" "hs_handle (sy_session y) < 0"
        "\<not> hs_started (sy_session y)" "\<not> hs_stopped (sy_session y)" "\<not> hs_monitor (sy_session y)"
      using assms by (auto simp: login_inv_def Let_def)
    then show ?thesis
      using False SessPrepare p prepare_effect[OF p] by (auto simp: login_inv_def Let_def same_stream_def)
  qed
next
  case (SessSubmit pe f se)
  obtain r s' where p: "submit_stream pe f se (sy_session y) = (r, s')" by fastforce
  show ?thesis
  proof (cases "sy_done y")
    case False
    then have y: "\<lparr>sy_session = sy_session y, sy_done = False\<rparr> = y" by (cases y) simp
    show ?thesis using assms SessSubmit False submit_effect(2)[OF p] p by (simp add: y)
  qed (use assms SessSubmit in simp)
next
  case (MonitorRound ka pos)
  have "login_inv (y\<lparr>sy_session := monitor_round ka pos (sy_session y)\<rparr>)" if "hs_monitor (sy_session y)"
    using assms that monitored_round[of "sy_session y" ka pos]
    by (auto simp: login_inv_def Let_def monitored_def)
  then show ?thesis using assms MonitorRound by simp
next
  case SessStop
  then show ?thesis
    using assms stop_effect[of "sy_session y"]
    by (cases "hs_stopped (sy_session y)") (auto simp: login_inv_def Let_def)
qed (use assms in \<open>auto intro!: login_inv_media accept_data_resources resume_data_resources
     simp: same_resources_def[of _ "_\<lparr>hs_queue := _\<rparr>"]\<close>)

lemma after_push_media:
  assumes "media_inv \<lparr>sy_session = s, sy_done = d\<rparr>" and "hs_end_reason s = Active \<or> q_closed (snd rq)"
    and "queue_wf (snd rq)" and "q_limit (snd rq) = q_limit (hs_queue s)"
    and "q_closed (snd rq) = q_closed (hs_queue s)"
    and "fst rq = PushWaiting \<Longrightarrow> packet_ok (q_limit (snd rq)) b" and "ty \<noteq> OtherData"
  shows "media_inv \<lparr>sy_session = after_push ty b rq s, sy_done = d\<rparr>"
proof (cases "fst rq")
  case PushRejected
  have "queue_wf (close (snd rq))" using assms(3) by (simp add: queue_wf_def close_def)
  then show ?thesis
    using PushRejected assms by (simp add: after_push_def media_inv_def Let_def close_def)
qed (use assms in \<open>auto simp: after_push_def media_inv_def Let_def\<close>)

lemma media_inv_counters:
  "media_inv \<lparr>sy_session = s\<lparr>hs_sdk_bytes := a, hs_header_packets := b, hs_media_packets := c\<rparr>, sy_done = d\<rparr> =
   media_inv \<lparr>sy_session = s, sy_done = d\<rparr>"
  by (simp add: media_inv_def)

lemma accept_media:
  assumes "media_inv \<lparr>sy_session = s, sy_done = d\<rparr>"
  shows "media_inv \<lparr>sy_session = accept_data ty b s, sy_done = d\<rparr>"
proof (cases "hs_stopped s \<or> b = [] \<or> ty = OtherData \<or> hs_end_reason s \<noteq> Active")
  case False
  let ?rq = "push_enter b (queue_backpressure_ms (hs_config s) \<le> 0) (hs_queue s)"
  have wf: "queue_wf (hs_queue s)" using assms by (simp add: media_inv_def Let_def)
  have "media_inv \<lparr>sy_session = after_push ty b ?rq
      (s\<lparr>hs_sdk_bytes := x, hs_header_packets := h, hs_media_packets := m\<rparr>), sy_done = d\<rparr>" for x h m
    using False assms push_enter_wf[OF wf] push_enter_items(3)[of b _ "hs_queue s"]
      push_enter_items(4)[of b "queue_backpressure_ms (hs_config s) \<le> 0" "hs_queue s"]
      push_enter_closed(1)[of b _ "hs_queue s"]
    by (intro after_push_media) (auto simp: media_inv_counters)
  from this[where h = "hs_header_packets s + 1" and m = "hs_media_packets s" and x = "hs_sdk_bytes s + of_nat (length b)"]
    this[where h = "hs_header_packets s" and m = "hs_media_packets s + 1" and x = "hs_sdk_bytes s + of_nat (length b)"]
  show ?thesis using False by (cases "ty = SysHead") (simp_all add: accept_data_def Let_def)
qed (use assms in \<open>auto simp: accept_data_def\<close>)

lemma resume_media:
  assumes "media_inv \<lparr>sy_session = s, sy_done = d\<rparr>"
  shows "media_inv \<lparr>sy_session = resume_data i s, sy_done = d\<rparr>"
proof (cases "i < length (hs_waiting s)")
  case True
  let ?s = "s\<lparr>hs_waiting := take i (hs_waiting s) @ drop (i + 1) (hs_waiting s)\<rparr>"
  obtain ty b where w: "hs_waiting s ! i = (ty, b)" by fastforce
  then have mem: "(ty, b) \<in> set (hs_waiting s)" using True by (metis nth_mem)
  have wf: "queue_wf (hs_queue s)" using assms by (simp add: media_inv_def Let_def)
  have ok: "packet_ok (q_limit (hs_queue s)) b" "ty \<noteq> OtherData"
    using assms mem by (auto simp: media_inv_def Let_def)
  have m: "media_inv \<lparr>sy_session = ?s, sy_done = d\<rparr>"
    using assms by (auto simp: media_inv_def Let_def dest: in_set_takeD in_set_dropD)
  have "hs_end_reason s = Active \<or> q_closed (hs_queue s)" using assms by (auto simp: media_inv_def Let_def)
  then have "media_inv \<lparr>sy_session = after_push ty b (push_resume b (hs_queue s)) ?s, sy_done = d\<rparr>"
    using m ok push_resume_wf[OF wf ok(1)] push_resume_items(3,4)[of b "hs_queue s"]
      push_resume_closed(1)[of b "hs_queue s"]
    by (intro after_push_media) simp_all
  then show ?thesis using True w by (simp add: resume_data_def)
qed (use assms in \<open>simp add: resume_data_def\<close>)

lemma prepare_media:
  assumes "prepare pe s = (r, s')" and "login_inv \<lparr>sy_session = s, sy_done = False\<rparr>"
  shows "same_media s s'"
proof (cases "hs_prepared s")
  case True
  then show ?thesis using prepare_prepared[OF True assms(1)] by (simp add: same_media_def)
next
  case False
  then have "same_stream s s'"
    using assms(2) prepare_effect(1)[OF assms(1)] by (auto simp: login_inv_def Let_def)
  then show ?thesis by (simp add: same_stream_def same_media_def)
qed

lemma media_step:
  assumes "login_inv y" and "media_inv y"
  shows "media_inv (hc_step e y)"
proof -
  obtain s d where y: "y = \<lparr>sy_session = s, sy_done = d\<rparr>" by (cases y)
  have wf: "queue_wf (hs_queue s)" using assms(2) by (simp add: y media_inv_def Let_def)
  show ?thesis
  proof (cases e)
    case (SessPrepare pe)
    obtain r s' where p: "prepare pe s = (r, s')" by fastforce
    have "same_media s s'" if "\<not> d" using prepare_media[OF p] assms(1) that by (simp add: y)
    then show ?thesis
      using assms(2) SessPrepare p media_inv_login[of y s' "\<not> is_ok r"] by (cases d) (simp_all add: y)
  next
    case (SessSubmit pe f se)
    obtain r s' where p: "submit_stream pe f se s = (r, s')" by fastforce
    show ?thesis
      using assms SessSubmit p media_inv_login[of y s' "\<not> is_ok r"] submit_effect(1)[OF p]
      by (cases d) (simp_all add: y)
  next
    case TakePacket
    then show ?thesis
      using assms(2) pop_wf[OF wf] pop_items(3,4)[of "hs_queue s"] by (auto simp: y media_inv_def Let_def)
  next
    case (MonitorRound ka pos)
    let ?t = "monitor_round ka pos s"
    have "queue_wf (close (hs_queue s))" using wf by (simp add: queue_wf_def close_def)
    moreover have "q_closed (close (hs_queue s))" "q_limit (close (hs_queue s)) = q_limit (hs_queue s)"
      by (simp_all add: close_def)
    moreover note m = monitored_round[of s ka pos, unfolded monitored_def]
    have "hs_queue ?t = close (hs_queue s) \<or> hs_queue ?t = hs_queue s \<and> hs_end_reason ?t = hs_end_reason s"
      using m by (cases "hs_end_reason s = Active"; cases "hs_end_reason ?t = Active") (simp_all, blast+)
    ultimately have "media_inv \<lparr>sy_session = ?t, sy_done = d\<rparr>"
    proof (elim disjE conjE)
      assume "hs_queue ?t = close (hs_queue s)"
      then show ?thesis
        using assms(2) m wf
        by (cases "hs_end_reason s = Active")
           (simp_all add: y media_inv_def Let_def close_def queue_wf_def)
    next
      assume "hs_queue ?t = hs_queue s" "hs_end_reason ?t = hs_end_reason s"
      then show ?thesis using assms(2) m by (simp add: y media_inv_def Let_def)
    qed
    then show ?thesis using assms(2) MonitorRound by (simp add: y)
  next
    case SessStop
    have "trace_ok s" using assms(1) by (simp add: y login_inv_def Let_def)
    from stop_effect[OF this] show ?thesis
      using assms(2) SessStop
      by (cases "hs_stopped s") (auto simp: y media_inv_def Let_def queue_wf_def close_def)
  qed (use assms(2) in \<open>simp_all add: y accept_media resume_media\<close>)
qed

interpretation hc_machine: machine hc_step "\<lambda>y. login_inv y \<and> media_inv y"
  by unfold_locales (auto intro: login_step media_step)

definition new_system_of :: "stream_request \<Rightarrow> config \<Rightarrow> session_system" where
  "new_system_of r c = \<lparr>sy_session = new_session r c, sy_done = False\<rparr>"

lemma new_system_inv: "login_inv (new_system_of r c) \<and> media_inv (new_system_of r c)"
  by (simp add: new_system_of_def login_inv_def media_inv_def new_session_def trace_ok_def live_def
      queue_wf_new Let_def)

section \<open>What an ended session delivers\<close>

lemma closed_hc_step:
  assumes "login_inv y" and "q_closed (hs_queue (sy_session y))"
  shows "q_closed (hs_queue (sy_session (hc_step e y))) \<and>
    (\<exists>n. q_items (hs_queue (sy_session (hc_step e y))) = drop n (q_items (hs_queue (sy_session y))))"
proof -
  obtain s d where y: "y = \<lparr>sy_session = s, sy_done = d\<rparr>" by (cases y)
  have q: "q_closed (hs_queue s)" using assms(2) by (simp add: y)
  have pushed: "hs_queue (after_push ty b (PushRejected, hs_queue s) t) = close (hs_queue s)" for ty b t
    by (simp add: after_push_def)
  have same: "\<exists>n. q_items u = drop n (q_items (hs_queue s))" if "q_items u = q_items (hs_queue s)" for u
    using that by (intro exI[of _ 0]) simp
  have untouched: ?thesis if "hs_queue (sy_session (hc_step e y)) = hs_queue s"
    using that q same[of "hs_queue s"] by (simp add: y)
  show ?thesis
  proof (cases e)
    case (SessPrepare pe)
    obtain r s' where p: "prepare pe s = (r, s')" by fastforce
    have "hs_queue s' = hs_queue s" if "\<not> d"
      using prepare_media[OF p] assms(1) that by (simp add: y same_media_def)
    then show ?thesis using SessPrepare p by (intro untouched) (simp add: y)
  next
    case (SessSubmit pe f se)
    obtain r s' where p: "submit_stream pe f se s = (r, s')" by fastforce
    have "hs_queue s' = hs_queue s" if "\<not> d"
      using submit_effect(1)[OF p] assms(1) that by (simp add: y same_media_def)
    then show ?thesis using SessSubmit p by (intro untouched) (simp add: y)
  next
    case (Callback ty b)
    then show ?thesis
      using q same pushed push_enter_closed(2)[OF q]
      by (auto simp: y accept_data_def Let_def close_def)
  next
    case (CallbackResume i)
    then show ?thesis
      using q same pushed push_resume_closed(2)[OF q]
      by (auto simp: y resume_data_def close_def split: prod.split)
  next
    case TakePacket
    have "q_items (snd (pop (hs_queue s))) = drop 1 (q_items (hs_queue s))"
      by (simp add: pop_facts(2) drop_Suc)
    then show ?thesis using TakePacket q by (auto simp: y pop_items(4))
  next
    case (MonitorRound ka pos)
    have "hs_queue (monitor_round ka pos s) = hs_queue s \<or> hs_queue (monitor_round ka pos s) = close (hs_queue s)"
      using monitored_round[of s ka pos] by (simp add: monitored_def)
    then show ?thesis using MonitorRound q same[of "hs_queue s"] by (auto simp: y close_def)
  next
    case SessStop
    have "hs_queue (stop s) = hs_queue s \<or> hs_queue (stop s) = close (hs_queue s)"
      by (simp add: stop_def Let_def call_def)
    then show ?thesis using SessStop q same[of "hs_queue s"] by (auto simp: y close_def)
  qed
qed

lemma closed_hc_run:
  assumes "login_inv y \<and> media_inv y" and "q_closed (hs_queue (sy_session y))"
  shows "\<exists>n. q_items (hs_queue (sy_session (hc_machine.run es y))) = drop n (q_items (hs_queue (sy_session y)))"
  using assms
proof (induction es arbitrary: y)
  case Nil
  then show ?case by (intro exI[of _ 0]) simp
next
  case (Cons e es)
  have "login_inv (hc_step e y) \<and> media_inv (hc_step e y)" using Cons.prems(1) by (rule hc_machine.step_inv)
  then show ?case
    using Cons.IH[of "hc_step e y"] closed_hc_step[of y e] Cons.prems by (auto simp: drop_drop)
qed

section \<open>Keep-alives\<close>

lemma keep_alive_effect:
  "send_playback_keep_alive b s =
     (let n = (if b then 0 else hs_keep_alive_failures s + 1);
          t = (call (Control (hs_handle s) KeepAlive) s)\<lparr>hs_keep_alive_failures := n\<rparr>
      in if n \<ge> 3 then complete_playback SdkKeepAliveFailed t else t)"
  by (simp add: send_playback_keep_alive_def Let_def) (simp add: call_def)

lemma keep_alive_fields:
  "hs_end_reason (send_playback_keep_alive b s) =
     (if \<not> b \<and> hs_keep_alive_failures s \<ge> 2 \<and> hs_end_reason s = Active then SdkKeepAliveFailed else hs_end_reason s)"
  "hs_keep_alive_failures (send_playback_keep_alive b s) = (if b then 0 else hs_keep_alive_failures s + 1)"
  by (auto simp: keep_alive_effect Let_def complete_playback_def call_def)

lemma keep_alive_ended:
  "hs_end_reason s \<noteq> Active \<Longrightarrow> hs_end_reason (fold send_playback_keep_alive bs s) = hs_end_reason s"
  by (induction bs arbitrary: s) (simp_all add: keep_alive_fields)

lemma keep_alive_fold:
  assumes "hs_end_reason s = Active" and "hs_keep_alive_failures s = int k" and "k \<le> 2"
  shows "hs_end_reason (fold send_playback_keep_alive bs s) =
    (if prefix (replicate (3 - k) False) bs \<or> sublist (replicate 3 False) bs then SdkKeepAliveFailed else Active)"
  using assms
proof (induction bs arbitrary: s k)
  case Nil
  then show ?case by (auto simp: numeral_3_eq_3)
next
  case (Cons b bs)
  let ?s = "send_playback_keep_alive b s"
  have k: "k = 0 \<or> k = 1 \<or> k = 2" using Cons.prems(3) by auto
  have short: "prefix (replicate 3 False) bs \<Longrightarrow> sublist (replicate 3 False) bs" by (rule prefix_imp_sublist)
  have three: "sublist (replicate 3 False) (b # bs) \<longleftrightarrow> \<not> b \<and> prefix (replicate 2 False) bs \<or> sublist (replicate 3 False) bs"
    by (auto simp: sublist_Cons_right numeral_3_eq_3 numeral_2_eq_2)
  show ?case
  proof (cases b)
    case True
    then show ?thesis
      using Cons.IH[of ?s 0] Cons.prems k short three
      by (auto simp: keep_alive_fields numeral_3_eq_3 numeral_2_eq_2)
  next
    case False
    show ?thesis
    proof (cases "k = 2")
      case True
      then show ?thesis
        using False Cons.prems keep_alive_ended[of ?s bs] by (auto simp: keep_alive_fields)
    next
      case k2: False
      then have "hs_end_reason (fold send_playback_keep_alive bs ?s) =
          (if prefix (replicate (3 - (k + 1)) False) bs \<or> sublist (replicate 3 False) bs
           then SdkKeepAliveFailed else Active)"
        using False Cons.prems k by (intro Cons.IH) (auto simp: keep_alive_fields)
      moreover have "prefix (replicate 2 False) bs \<Longrightarrow> prefix (replicate (3 - (k + 1)) False) bs"
        using k k2 by (cases bs) (auto simp: numeral_2_eq_2)
      ultimately show ?thesis
        using False k k2 three by (auto simp: numeral_3_eq_3 numeral_2_eq_2)
    qed
  qed
qed

section \<open>Properties\<close>

text \<open>C5: Whatever the threads do, in any order and with any answers of the device, the SDK's protocol is
  kept: never two logins or two streams at once, no call on a login or stream that is not open, the
  stream closed before the logout.  Stopping the session, at any moment, leaves neither a login nor a
  stream open.\<close>

theorem sdk_protocol:
  "track (None, None) (hs_calls (sy_session (hc_machine.run es (new_system_of r c)))) \<noteq> None \<and>
   track (None, None) (hs_calls (sy_session (hc_machine.run (es @ [SessStop]) (new_system_of r c)))) =
     Some (None, None)"
proof -
  have inv: "login_inv (hc_machine.run fs (new_system_of r c))" for fs
    using hc_machine.run_inv[OF new_system_inv] by blast
  have "hs_stopped (sy_session (hc_machine.run (es @ [SessStop]) (new_system_of r c)))"
    using stop_effect(3) inv[of es] by (simp add: hc_machine.run_append login_inv_def Let_def)
  then show ?thesis
    using inv[of es] inv[of "es @ [SessStop]"]
    by (simp add: login_inv_def Let_def trace_ok_def live_def)
qed

text \<open>A session that has ended, for whatever reason, delivers what was queued at that moment and
  nothing else: no later packet is ever stored, not even one whose callback was already waiting.\<close>

theorem ended_session_final:
  assumes "y = hc_machine.run es (new_system_of r c)"
    and "hs_end_reason (sy_session y) \<noteq> Active \<or> hs_stopped (sy_session y)"
  shows "\<exists>n. q_items (hs_queue (sy_session (hc_machine.run fs y))) = drop n (q_items (hs_queue (sy_session y)))"
proof -
  have inv: "login_inv y \<and> media_inv y" unfolding assms(1) by (rule hc_machine.run_inv) (rule new_system_inv)
  then have "q_closed (hs_queue (sy_session y))" using assms(2) by (auto simp: media_inv_def Let_def)
  then show ?thesis using closed_hc_run[OF inv] by blast
qed

theorem ended_session_final_witness:
  "\<exists>n. q_items (hs_queue (sy_session (hc_machine.run [Callback StreamData [1]]
      (hc_machine.run [SessStop] (new_system_of example_request default_config))))) =
    drop n (q_items (hs_queue (sy_session (hc_machine.run [SessStop] (new_system_of example_request default_config)))))"
  by (rule ended_session_final[OF refl])
     (simp add: new_system_of_def new_session_def stop_def)

text \<open>Keep-alive failures end a playback exactly when three of them follow each other: single
  failures, and any number of them with a success in between, do not.\<close>

theorem keep_alive_three_in_a_row:
  "hs_end_reason (fold send_playback_keep_alive results (new_session r c)) =
     (if sublist [False, False, False] results then SdkKeepAliveFailed else Active)"
  using keep_alive_fold[of "new_session r c" 0 results] prefix_imp_sublist[of "replicate 3 False" results]
  by (auto simp: new_session_def numeral_3_eq_3)

text \<open>A playback that has reached its end can still be reported as an overflow: when the monitor sees
  the end while a callback is waiting for room in the queue, closing the queue makes that callback
  fail, and it replaces the reason that is already set.\<close>

theorem playback_end_overwritten:
  assumes "hs_end_reason s = Active" and "i < length (hs_waiting s)"
  shows "hs_end_reason (complete_playback PlaybackEnd s) = PlaybackEnd \<and>
    hs_end_reason (resume_data i (complete_playback PlaybackEnd s)) = QueueOverflow"
proof -
  obtain ty d where "hs_waiting s ! i = (ty, d)" by fastforce
  then show ?thesis
    using assms push_resume_closed(2)[of "close (hs_queue s)" d]
    by (simp add: complete_playback_def resume_data_def after_push_def close_def)
qed

definition waiting_session :: hc_session where
  "waiting_session = accept_data StreamData [4, 5]
     (accept_data StreamData [1, 2, 3] (new_session example_request (default_config\<lparr>queue_bytes := 4\<rparr>)))"

theorem playback_end_overwritten_witness:
  "hs_end_reason (resume_data 0 (complete_playback PlaybackEnd waiting_session)) = QueueOverflow"
proof (rule playback_end_overwritten[THEN conjunct2])
  have w: "hs_waiting waiting_session = [(StreamData, [4, 5])] \<and> hs_end_reason waiting_session = Active"
    by (simp add: waiting_session_def accept_data_def after_push_def push_enter_def push_commit_def
        queue_full_def new_session_def new_queue_def default_config_def Let_def)
  then show "hs_end_reason waiting_session = Active" "0 < length (hs_waiting waiting_session)" by simp_all
qed

end
