(* ===== verification/Os_Calls.thy ===== *)
theory Os_Calls
  imports Bridge_Prelude "HOL-Library.Multiset"
begin

text \<open>
  The operating system calls that create or destroy something, as the components record them, and
  what a trace of them leaves behind.  A trace is judged without assumptions on the numbers the kernel
  hands out: descriptors are counted with multiplicity.
\<close>

datatype os_call =
    OpenFd int
  | CloseFd int
  | Spawn int "string list"
  | Kill int bool              \<comment> \<open>\<open>SIGKILL\<close> or \<open>SIGTERM\<close>\<close>
  | Reap int                   \<comment> \<open>a \<open>waitpid\<close> that gives up the child: exited, or not ours\<close>

text \<open>
  The descriptors (with multiplicity) and the child a trace leaves behind; \<open>None\<close> is a violation: a
  descriptor closed that is not owned, a second child, a signal to or a wait for a child that is gone.
\<close>

fun track_os :: "int multiset \<times> int option \<Rightarrow> os_call list \<Rightarrow> (int multiset \<times> int option) option" where
  "track_os o' [] = Some o'"
| "track_os (fds, child) (OpenFd fd # cs) = track_os (add_mset fd fds, child) cs"
| "track_os (fds, child) (CloseFd fd # cs) = (if fd \<in># fds then track_os (fds - {#fd#}, child) cs else None)"
| "track_os (fds, child) (Spawn pid _ # cs) = (if child = None then track_os (fds, Some pid) cs else None)"
| "track_os (fds, child) (Kill pid _ # cs) = (if child = Some pid then track_os (fds, child) cs else None)"
| "track_os (fds, child) (Reap pid # cs) = (if child = Some pid then track_os (fds, None) cs else None)"

lemma track_os_append: "track_os o' (cs @ ds) = Option.bind (track_os o' cs) (\<lambda>o'. track_os o' ds)"
  by (induction o' cs rule: track_os.induct) auto

text \<open>\<open>track_os_append\<close> makes a trace compose; a guard closes what is not negative.\<close>

definition guard_close :: "int list \<Rightarrow> os_call list" where
  "guard_close ends = map CloseFd (filter (\<lambda>fd. fd \<ge> 0) ends)"

lemma guard_close_track:
  "mset (filter (\<lambda>fd. fd \<ge> 0) ends) \<subseteq># S \<Longrightarrow>
   track_os (S, c) (guard_close ends) = Some (S - mset (filter (\<lambda>fd. fd \<ge> 0) ends), c)"
proof (induction ends arbitrary: S)
  case Nil
  then show ?case by (simp add: guard_close_def)
next
  case (Cons fd ends)
  show ?case
  proof (cases "fd \<ge> 0")
    case True
    then have "fd \<in># S" "mset (filter (\<lambda>fd. fd \<ge> 0) ends) \<subseteq># S - {#fd#}"
      using Cons.prems by (auto simp: insert_subset_eq_iff)
    then show ?thesis using Cons.IH[of "S - {#fd#}"] True by (simp add: guard_close_def)
  next
    case False
    then show ?thesis using Cons by (simp add: guard_close_def)
  qed
qed

end
