(* ===== verification/Ffmpeg_Process.thy ===== *)
theory Ffmpeg_Process
  imports Os_Calls Ffmpeg_Plan Byte_Queue Http_Response
begin

text \<open>
  \<open>FfmpegProcess\<close> on Linux: starting the child with its three pipes, the pump thread that feeds it
  from the media queue, the reader of its diagnostics, reading its output, and stopping it.  What the
  operating system answers (new descriptors, results of \<open>read\<close>, \<open>write\<close>, \<open>waitpid\<close> and of the spawn
  calls, the clock) are arguments.  The calls that create or destroy something are recorded in a
  trace.
\<close>

section \<open>The process\<close>

text \<open>Where the pump thread stands in its loop.\<close>

datatype pump_phase =
    PumpAbsent
  | PumpLoop                   \<comment> \<open>at the condition of the loop\<close>
  | PumpPop                    \<comment> \<open>in \<open>queue.pop\<close>\<close>
  | PumpWrite bytes            \<comment> \<open>in \<open>write_input\<close>, with what is left to write\<close>
  | PumpLeave                  \<comment> \<open>behind the loop\<close>
  | PumpDone

datatype diag_phase = DiagAbsent | DiagRunning | DiagDone

text \<open>Where \<open>stop_process\<close> stands: ending the child, joining the threads, finished.\<close>

datatype stop_phase = NotStopping | EndingChild bool | JoiningThreads | StopFinished

record ffmpeg_process =
  fp_pid :: int
  fp_input :: int
  fp_output :: int
  fp_error :: int
  fp_pump :: pump_phase
  fp_diag :: diag_phase
  fp_pending :: string
  fp_tail :: string
  fp_stop_requested :: bool
  fp_stop :: stop_phase
  fp_input_end :: stream_end_reason
  fp_calls :: "os_call list"

definition new_process :: ffmpeg_process where
  "new_process =
     \<lparr>fp_pid = -1, fp_input = -1, fp_output = -1, fp_error = -1, fp_pump = PumpAbsent,
      fp_diag = DiagAbsent, fp_pending = [], fp_tail = [], fp_stop_requested = False,
      fp_stop = NotStopping, fp_input_end = Active, fp_calls = []\<rparr>"

definition os_calls :: "os_call list \<Rightarrow> ffmpeg_process \<Rightarrow> ffmpeg_process" where
  "os_calls cs p = p\<lparr>fp_calls := fp_calls p @ cs\<rparr>"

section \<open>Starting\<close>

record spawn_env =
  se_pipe :: "nat \<Rightarrow> (int \<times> int) option"   \<comment> \<open>\<open>pipe2\<close>\<close>
  se_raise :: "nat \<Rightarrow> nat \<Rightarrow> int"           \<comment> \<open>\<open>F_DUPFD_CLOEXEC\<close> for an end of a pipe, negative when it fails\<close>
  se_init :: int                            \<comment> \<open>\<open>posix_spawn_file_actions_init\<close>\<close>
  se_action :: "nat \<Rightarrow> int"                 \<comment> \<open>the nine file actions\<close>
  se_spawn :: int                           \<comment> \<open>\<open>posix_spawn\<close>\<close>
  se_child :: int

definition pipe_failed :: failure where
  "pipe_failed = BridgeError 500 ''PIPE_FAILED''"

definition start_failed :: failure where
  "start_failed = BridgeError 500 ''FFMPEG_START_FAILED''"

text \<open>One end of a pipe: its final descriptor, whether the step failed, and the calls made.\<close>

definition protect_end :: "spawn_env \<Rightarrow> nat \<Rightarrow> nat \<Rightarrow> int \<Rightarrow> bool \<times> int \<times> os_call list" where
  "protect_end e i j fd =
     (if fd < 3 then
        if se_raise e i j < 0 then (False, fd, [])
        else (True, se_raise e i j, [OpenFd (se_raise e i j), CloseFd fd])
      else (True, fd, []))"

text \<open>A pipe; the list holds the ends the guard has to close from now on.\<close>

definition open_pipe :: "spawn_env \<Rightarrow> nat \<Rightarrow> bool \<times> int list \<times> os_call list" where
  "open_pipe e i =
     (case se_pipe e i of
        None \<Rightarrow> (False, [], [])
      | Some (a, b) \<Rightarrow>
          (case protect_end e i 0 a of
             (False, _, cs) \<Rightarrow> (False, [a, b], [OpenFd a, OpenFd b] @ cs)
           | (True, a', cs) \<Rightarrow>
               (case protect_end e i 1 b of
                  (ok, b', cs') \<Rightarrow> (ok, [a', b'], [OpenFd a, OpenFd b] @ cs @ cs'))))"

fun open_pipes :: "spawn_env \<Rightarrow> nat list \<Rightarrow> bool \<times> int list \<times> os_call list" where
  "open_pipes e [] = (True, [], [])"
| "open_pipes e (i # is) =
     (case open_pipe e i of
        (False, ends, cs) \<Rightarrow> (False, ends, cs)
      | (True, ends, cs) \<Rightarrow>
          (case open_pipes e is of (ok, ends', cs') \<Rightarrow> (ok, ends @ ends', cs @ cs')))"

text \<open>The file actions, and what they make of a descriptor table.\<close>

datatype file_action = AddDup2 int int | AddClose int

definition file_actions :: "int list \<Rightarrow> file_action list" where
  "file_actions ends =
     [AddDup2 (ends ! 0) 0, AddDup2 (ends ! 3) 1, AddDup2 (ends ! 5) 2] @
     map AddClose [ends ! 0, ends ! 1, ends ! 2, ends ! 3, ends ! 4, ends ! 5]"

fun apply_action :: "file_action \<Rightarrow> (int \<rightharpoonup> 'f) \<Rightarrow> (int \<rightharpoonup> 'f)" where
  "apply_action (AddDup2 src dst) t = t(dst := t src)"
| "apply_action (AddClose fd) t = t(fd := None)"

definition start_linux :: "spawn_env \<Rightarrow> string list \<Rightarrow> ffmpeg_process \<Rightarrow> unit res \<times> ffmpeg_process" where
  "start_linux e arguments p =
     (case open_pipes e [0, 1, 2] of
        (False, ends, cs) \<Rightarrow> (Inl pipe_failed, os_calls (cs @ guard_close ends) p)
      | (True, ends, cs) \<Rightarrow>
          if se_init e \<noteq> 0 \<or> (\<exists>k\<in>set [0..<length (file_actions ends)]. se_action e k \<noteq> 0) \<or> se_spawn e \<noteq> 0
          then (Inl start_failed, os_calls (cs @ guard_close ends) p)
          else
            (Inr (),
             os_calls (cs @ [Spawn (se_child e) (''ffmpeg'' # arguments)] @ guard_close [ends ! 0, ends ! 3, ends ! 5])
               (p\<lparr>fp_pid := se_child e, fp_input := ends ! 1, fp_output := ends ! 2, fp_error := ends ! 4\<rparr>)))"

section \<open>Stopping\<close>

definition close_input :: "ffmpeg_process \<Rightarrow> ffmpeg_process" where
  "close_input p = (if fp_input p \<ge> 0 then (os_calls [CloseFd (fp_input p)] p)\<lparr>fp_input := -1\<rparr> else p)"

definition close_output :: "ffmpeg_process \<Rightarrow> ffmpeg_process" where
  "close_output p = (if fp_output p \<ge> 0 then (os_calls [CloseFd (fp_output p)] p)\<lparr>fp_output := -1\<rparr> else p)"

definition close_error :: "ffmpeg_process \<Rightarrow> ffmpeg_process" where
  "close_error p = (if fp_error p \<ge> 0 then (os_calls [CloseFd (fp_error p)] p)\<lparr>fp_error := -1\<rparr> else p)"

text \<open>
  What \<open>waitpid\<close> answers.  In the first loop every answer comes with the reading of the clock that
  ends the loop.
\<close>

datatype wait_result = StillRunning | Exited | WaitInterrupted | WaitFailed

text \<open>The loop of up to 500 ms: the last answer; without answers it is still waiting.\<close>

fun wait_briefly :: "(wait_result \<times> bool) list \<Rightarrow> wait_result option" where
  "wait_briefly [] = None"
| "wait_briefly ((w, deadline) # ws) =
     (if w = Exited \<or> w = WaitFailed then Some w
      else if deadline then Some w
      else wait_briefly ws)"

text \<open>After \<open>SIGKILL\<close>: \<open>while (waitpid(...) < 0 && errno == EINTR)\<close>.\<close>

fun wait_for_exit :: "wait_result list \<Rightarrow> bool" where
  "wait_for_exit [] = False"
| "wait_for_exit (w # ws) = (if w = WaitInterrupted then wait_for_exit ws else True)"

text \<open>
  The part of \<open>stop_process\<close> before it joins the threads; \<open>None\<close> while the child still runs.
\<close>

definition end_child :: "bool \<Rightarrow> (wait_result \<times> bool) list \<Rightarrow> wait_result list \<Rightarrow> ffmpeg_process \<Rightarrow> ffmpeg_process option" where
  "end_child immediate ws ws' p =
     (if fp_pid p > 0 then
        (case wait_briefly ws of
           None \<Rightarrow> None
         | Some w \<Rightarrow>
             if w = StillRunning \<or> w = WaitInterrupted then
               if wait_for_exit ws'
               then Some ((os_calls [Kill (fp_pid p) immediate, Kill (fp_pid p) True, Reap (fp_pid p)] p)\<lparr>fp_pid := -1\<rparr>)
               else None
             else Some ((os_calls [Kill (fp_pid p) immediate, Reap (fp_pid p)] p)\<lparr>fp_pid := -1\<rparr>))
      else Some p)"

text \<open>The part behind the joins.\<close>

definition close_all :: "ffmpeg_process \<Rightarrow> ffmpeg_process" where
  "close_all p = close_error (close_output (close_input p))"

definition threads_done :: "ffmpeg_process \<Rightarrow> bool" where
  "threads_done p \<longleftrightarrow> (fp_pump p = PumpAbsent \<or> fp_pump p = PumpDone) \<and>
     (fp_diag p = DiagAbsent \<or> fp_diag p = DiagDone)"

section \<open>The constructor\<close>

text \<open>
  A failed start is undone by \<open>stop_process\<close> before the exception leaves; a failure to create the
  thread that reads the diagnostics too.
\<close>

definition construct ::
  "failure option \<Rightarrow> spawn_env \<Rightarrow> bool \<Rightarrow> (wait_result \<times> bool) list \<Rightarrow> wait_result list \<Rightarrow> string list \<Rightarrow>
   (unit res \<times> ffmpeg_process) option" where
  "construct check_client e thread_created ws ws' arguments =
     (case check_client of
        Some f \<Rightarrow> Some (Inl f, new_process)
      | None \<Rightarrow>
          (case start_linux e arguments new_process of
             (Inl f, p) \<Rightarrow> Some (Inl f, p\<lparr>fp_stop_requested := True, fp_stop := StopFinished\<rparr>)
           | (Inr _, p) \<Rightarrow>
               if thread_created then Some (Inr (), p\<lparr>fp_diag := DiagRunning\<rparr>)
               else (case end_child True ws ws' (p\<lparr>fp_stop_requested := True\<rparr>) of
                       None \<Rightarrow> None
                     | Some p \<Rightarrow> Some (Inl RuntimeError, (close_all p)\<lparr>fp_stop := StopFinished\<rparr>))))"

section \<open>Diagnostics\<close>

definition line_end :: "char \<Rightarrow> bool" where
  "line_end c \<longleftrightarrow> c = CHR 0x0D \<or> c = CHR 0x0A"

definition tail_limit :: nat where
  "tail_limit = 8192"

definition add_line :: "string \<Rightarrow> string \<Rightarrow> string" where
  "add_line line diag =
     (if line = [] then diag
      else let diag = diag @ line @ [CHR 0x0A]
           in if length diag > tail_limit then drop (length diag - tail_limit) diag else diag)"

function take_lines :: "string \<Rightarrow> string \<Rightarrow> string \<times> string" where
  "take_lines pending diag =
     (case find_pred line_end pending of
        None \<Rightarrow> (pending, diag)
      | Some i \<Rightarrow> take_lines (drop (i + 1) pending) (add_line (take i pending) diag))"
  by pat_completeness auto

termination take_lines
  by (relation "measure (\<lambda>(pending, diag). length pending)") (auto simp: find_pred_Some)

declare take_lines.simps [simp del]

text \<open>A chunk read from the child's standard error.\<close>

definition read_diagnostics :: "string \<Rightarrow> ffmpeg_process \<Rightarrow> ffmpeg_process" where
  "read_diagnostics chunk p =
     (case take_lines (fp_pending p @ chunk) (fp_tail p) of
        (pending, diag) \<Rightarrow> p\<lparr>fp_pending := pending, fp_tail := diag\<rparr>)"

section \<open>Threads around one process\<close>

text \<open>
  The process with the media queue it is fed from.  History: how many packets had been taken from the
  queue when the pump started, and the bytes the child's standard input accepted.
\<close>

record ffmpeg_system =
  fs_queue :: queue_system
  fs_proc :: ffmpeg_process
  fs_base :: nat
  fs_fed :: bytes

definition set_pump :: "pump_phase \<Rightarrow> ffmpeg_system \<Rightarrow> ffmpeg_system" where
  "set_pump ph s = s\<lparr>fs_proc := (fs_proc s)\<lparr>fp_pump := ph\<rparr>\<rparr>"

text \<open>What the pump does behind its loop.\<close>

definition leave_pump :: "byte_queue \<Rightarrow> ffmpeg_process \<Rightarrow> ffmpeg_process" where
  "leave_pump q p =
     (let p = (if \<not> fp_stop_requested p \<and> \<not> queue_closed q \<and> fp_input_end p \<noteq> SdkDataTimeout
               then p\<lparr>fp_input_end := SdkDataTimeout\<rparr> else p)
      in (close_input p)\<lparr>fp_pump := PumpDone\<rparr>)"

text \<open>
  The pump thread, one rule for each way its next step can go.  A timed-out \<open>pop\<close> finds the queue
  empty; whether \<open>noSdkDataMs\<close> have passed decides between the next round and the end.  A \<open>write\<close>
  takes some of the bytes, fails, or is interrupted (which changes nothing).
\<close>

inductive pump_step :: "ffmpeg_system \<Rightarrow> ffmpeg_system \<Rightarrow> bool" where
  PumpEnter: "fp_pump (fs_proc s) = PumpLoop \<Longrightarrow> \<not> fp_stop_requested (fs_proc s) \<Longrightarrow>
     pump_step s (set_pump PumpPop s)"
| PumpStopped: "fp_pump (fs_proc s) = PumpLoop \<Longrightarrow> fp_stop_requested (fs_proc s) \<Longrightarrow>
     pump_step s (set_pump PumpLeave s)"
| PumpPacket: "fp_pump (fs_proc s) = PumpPop \<Longrightarrow> fst (pop (qs_queue (fs_queue s))) = Some d \<Longrightarrow>
     pump_step s (set_pump (PumpWrite d) (s\<lparr>fs_queue := queue_step Pop (fs_queue s)\<rparr>))"
| PumpEnd: "fp_pump (fs_proc s) = PumpPop \<Longrightarrow> fst (pop (qs_queue (fs_queue s))) = None \<Longrightarrow>
     fp_stop_requested (fs_proc s) \<or> queue_closed (qs_queue (fs_queue s)) \<Longrightarrow>
     pump_step s (set_pump PumpLeave s)"
| PumpRetry: "fp_pump (fs_proc s) = PumpPop \<Longrightarrow> fst (pop (qs_queue (fs_queue s))) = None \<Longrightarrow>
     \<not> (fp_stop_requested (fs_proc s) \<or> queue_closed (qs_queue (fs_queue s))) \<Longrightarrow>
     pump_step s (set_pump PumpLoop s)"
| PumpTimeout: "fp_pump (fs_proc s) = PumpPop \<Longrightarrow> fst (pop (qs_queue (fs_queue s))) = None \<Longrightarrow>
     \<not> (fp_stop_requested (fs_proc s) \<or> queue_closed (qs_queue (fs_queue s))) \<Longrightarrow>
     pump_step s (set_pump PumpLeave (s\<lparr>fs_proc := (fs_proc s)\<lparr>fp_input_end := SdkDataTimeout\<rparr>\<rparr>))"
| PumpWritten: "fp_pump (fs_proc s) = PumpWrite [] \<Longrightarrow> pump_step s (set_pump PumpLoop s)"
| PumpAccepted: "fp_pump (fs_proc s) = PumpWrite d \<Longrightarrow> 0 < n \<Longrightarrow> n \<le> length d \<Longrightarrow>
     pump_step s (set_pump (PumpWrite (drop n d)) (s\<lparr>fs_fed := fs_fed s @ take n d\<rparr>))"
| PumpFailed: "fp_pump (fs_proc s) = PumpWrite d \<Longrightarrow> d \<noteq> [] \<Longrightarrow> pump_step s (set_pump PumpLeave s)"
| PumpFinish: "fp_pump (fs_proc s) = PumpLeave \<Longrightarrow>
     pump_step s (s\<lparr>fs_proc := leave_pump (qs_queue (fs_queue s)) (fs_proc s)\<rparr>)"

text \<open>The other threads: the producer, the reader of the diagnostics, and the owner of the process.\<close>

inductive other_step :: "ffmpeg_system \<Rightarrow> ffmpeg_system \<Rightarrow> bool" where
  Produce: "e \<noteq> Pop \<Longrightarrow> other_step s (s\<lparr>fs_queue := queue_step e (fs_queue s)\<rparr>)"
| Diagnose: "fp_diag (fs_proc s) = DiagRunning \<Longrightarrow>
     other_step s (s\<lparr>fs_proc := read_diagnostics chunk (fs_proc s)\<rparr>)"
| DiagnoseEnd: "fp_diag (fs_proc s) = DiagRunning \<Longrightarrow>
     other_step s (s\<lparr>fs_proc := (fs_proc s)\<lparr>fp_diag := DiagDone\<rparr>\<rparr>)"
| StartPump: "fp_pump (fs_proc s) = PumpAbsent \<Longrightarrow> fp_stop (fs_proc s) = NotStopping \<Longrightarrow> fp_pid (fs_proc s) > 0 \<Longrightarrow>
     other_step s (set_pump PumpLoop (s\<lparr>fs_base := length (qs_popped (fs_queue s)), fs_fed := []\<rparr>))"
| StopRequest: "\<not> fp_stop_requested (fs_proc s) \<Longrightarrow>
     other_step s (s\<lparr>fs_proc := (fs_proc s)\<lparr>fp_stop_requested := True, fp_stop := EndingChild immediate\<rparr>\<rparr>)"
| StopChild: "fp_stop (fs_proc s) = EndingChild immediate \<Longrightarrow> end_child immediate ws ws' (fs_proc s) = Some p \<Longrightarrow>
     other_step s (s\<lparr>fs_proc := p\<lparr>fp_stop := JoiningThreads\<rparr>\<rparr>)"
| StopClose: "fp_stop (fs_proc s) = JoiningThreads \<Longrightarrow> threads_done (fs_proc s) \<Longrightarrow>
     other_step s (s\<lparr>fs_proc := (close_all (fs_proc s))\<lparr>fp_stop := StopFinished\<rparr>\<rparr>)"

definition ffmpeg_step :: "ffmpeg_system \<Rightarrow> ffmpeg_system \<Rightarrow> bool" where
  "ffmpeg_step s s' \<longleftrightarrow> pump_step s s' \<or> other_step s s'"

text \<open>A process whose constructor has just returned, on a queue that is already in use.\<close>

definition started_system :: "queue_system \<Rightarrow> ffmpeg_process \<Rightarrow> ffmpeg_system" where
  "started_system q p = \<lparr>fs_queue = q, fs_proc = p, fs_base = length (qs_popped q), fs_fed = []\<rparr>"

section \<open>What the process owns\<close>

definition held :: "ffmpeg_process \<Rightarrow> int multiset" where
  "held p = mset (filter (\<lambda>fd. fd \<ge> 0) [fp_input p, fp_output p, fp_error p])"

definition child_of :: "ffmpeg_process \<Rightarrow> int option" where
  "child_of p = (if fp_pid p > 0 then Some (fp_pid p) else None)"

definition os_ok :: "ffmpeg_process \<Rightarrow> bool" where
  "os_ok p \<longleftrightarrow> track_os ({#}, None) (fp_calls p) = Some (held p, child_of p)"

text \<open>What POSIX promises of the calls: descriptors and process ids of successful calls are not
  negative, a child's id is positive.\<close>

definition env_ok :: "spawn_env \<Rightarrow> bool" where
  "env_ok e \<longleftrightarrow> (\<forall>i\<in>{0, 1, 2}. \<forall>ends. se_pipe e i = Some ends \<longrightarrow> 0 \<le> fst ends \<and> 0 \<le> snd ends) \<and>
     (se_spawn e = 0 \<longrightarrow> 0 < se_child e)"

lemma protect_end_track:
  assumes "protect_end e i j fd = (ok, fd', cs)" and "0 \<le> fd"
  shows "0 \<le> fd' \<and> track_os (add_mset fd S, c) cs = Some (add_mset fd' S, c)"
  using assms by (auto simp: protect_end_def split: if_splits)

lemma open_pipe_track:
  assumes "open_pipe e i = (ok, ends, cs)" and "env_ok e" and "i \<in> {0, 1, 2}"
  shows "(\<forall>fd\<in>set ends. 0 \<le> fd) \<and> track_os (S, c) cs = Some (S + mset ends, c) \<and>
    (ok \<longrightarrow> length ends = 2)"
proof (cases "se_pipe e i")
  case None
  then show ?thesis using assms by (simp add: open_pipe_def)
next
  case (Some ab)
  obtain a b where ab: "ab = (a, b)" by fastforce
  have pos: "0 \<le> a" "0 \<le> b" using assms(2,3) Some ab by (auto simp: env_ok_def)
  obtain ok1 a' cs1 where 1: "protect_end e i 0 a = (ok1, a', cs1)" by (metis prod.exhaust)
  obtain ok2 b' cs2 where 2: "protect_end e i 1 b = (ok2, b', cs2)" by (metis prod.exhaust)
  have t1: "track_os (add_mset a (add_mset b S), c) cs1 = Some (add_mset a' (add_mset b S), c)"
    and t2: "track_os (add_mset b (add_mset a' S), c) cs2 = Some (add_mset b' (add_mset a' S), c)"
    and p: "0 \<le> a'" "0 \<le> b'"
    using protect_end_track[OF 1 pos(1)] protect_end_track[OF 2 pos(2)] by blast+
  show ?thesis
  proof (cases ok1)
    case True
    then have "ok = ok2" "ends = [a', b']" "cs = [OpenFd a, OpenFd b] @ cs1 @ cs2"
      using assms(1) Some ab 1 2 by (simp_all add: open_pipe_def)
    then show ?thesis using t1 t2 p by (simp add: track_os_append add_mset_commute)
  next
    case False
    then have "ok = False" "ends = [a, b]" "a' = a" "cs = [OpenFd a, OpenFd b] @ cs1"
      using assms(1) Some ab 1 by (auto simp: open_pipe_def protect_end_def split: if_splits)
    then show ?thesis using t1 p pos by (simp add: add_mset_commute)
  qed
qed

lemma open_pipes_track:
  assumes "open_pipes e is = (ok, ends, cs)" and "env_ok e" and "set is \<subseteq> {0, 1, 2}"
  shows "(\<forall>fd\<in>set ends. 0 \<le> fd) \<and> track_os (S, c) cs = Some (S + mset ends, c) \<and>
    (ok \<longrightarrow> length ends = 2 * length is)"
  using assms
proof (induction "is" arbitrary: ok ends cs S)
  case Nil
  then show ?case by simp
next
  case (Cons i "is")
  obtain ok1 ends1 cs1 where 1: "open_pipe e i = (ok1, ends1, cs1)" by (metis prod.exhaust)
  obtain ok2 ends2 cs2 where 2: "open_pipes e is = (ok2, ends2, cs2)" by (metis prod.exhaust)
  note i1 = open_pipe_track[OF 1 Cons.prems(2)]
  note i2 = Cons.IH[OF 2 Cons.prems(2)]
  show ?case
  proof (cases ok1)
    case True
    then have "ok = ok2" "ends = ends1 @ ends2" "cs = cs1 @ cs2" using Cons.prems(1) 1 2 by simp_all
    then show ?thesis using i1[of S c] i2[of "S + mset ends1"] Cons.prems(3) True
      by (auto simp: track_os_append add.assoc)
  next
    case False
    then have "ok = False" "ends = ends1" "cs = cs1" using Cons.prems(1) 1 by simp_all
    then show ?thesis using i1[of S c] Cons.prems(3) by auto
  qed
qed

text \<open>A start either leaves nothing behind, or a child and the three ends the parent keeps.\<close>

lemma six_ends: "length ends = 6 \<Longrightarrow> ends = [ends ! 0, ends ! 1, ends ! 2, ends ! 3, ends ! 4, ends ! 5]"
  by (rule nth_equalityI) (auto simp: less_Suc_eq numeral_eq_Suc)

definition same_threads :: "ffmpeg_process \<Rightarrow> ffmpeg_process \<Rightarrow> bool" where
  "same_threads p p' \<longleftrightarrow> fp_pump p' = fp_pump p \<and> fp_diag p' = fp_diag p \<and> fp_stop p' = fp_stop p \<and>
     fp_stop_requested p' = fp_stop_requested p \<and> fp_input_end p' = fp_input_end p"

lemma start_linux_effect:
  assumes "start_linux e arguments p = (r, p')" and "env_ok e" and "fp_calls p = []"
    and "fp_pid p \<le> 0" and "fp_input p < 0" and "fp_output p < 0" and "fp_error p < 0"
  shows "os_ok p' \<and> same_threads p p' \<and> (case r of
      Inl _ \<Rightarrow> fp_pid p' = fp_pid p \<and> fp_input p' = fp_input p \<and> fp_output p' = fp_output p \<and> fp_error p' = fp_error p
    | Inr _ \<Rightarrow> fp_pid p' > 0 \<and> fp_input p' \<ge> 0 \<and> fp_output p' \<ge> 0 \<and> fp_error p' \<ge> 0)"
proof -
  obtain ok ends cs where o: "open_pipes e [0, 1, 2] = (ok, ends, cs)" by (metis prod.exhaust)
  have pos: "\<forall>fd\<in>set ends. 0 \<le> fd" and t: "track_os ({#}, None) cs = Some (mset ends, None)"
    and len: "ok \<Longrightarrow> length ends = 6"
    using open_pipes_track[OF o assms(2), of "{#}" None] by auto
  have f: "filter (\<lambda>fd. 0 \<le> fd) ends = ends" using pos by (simp add: filter_id_conv)
  have undo: "track_os ({#}, None) (cs @ guard_close ends) = Some ({#}, None)"
    using t guard_close_track[of ends "mset ends" None] by (simp add: track_os_append f)
  show ?thesis
  proof (cases r)
    case (Inl x)
    then have "p' = os_calls (cs @ guard_close ends) p"
      using assms(1) o by (auto simp: start_linux_def split: bool.splits if_splits)
    then show ?thesis
      using undo assms(3-7) Inl by (simp add: os_ok_def os_calls_def held_def child_of_def same_threads_def)
  next
    case (Inr x)
    have r: "ok" "se_spawn e = 0"
      "p' = os_calls (cs @ [Spawn (se_child e) (''ffmpeg'' # arguments)] @ guard_close [ends ! 0, ends ! 3, ends ! 5])
         (p\<lparr>fp_pid := se_child e, fp_input := ends ! 1, fp_output := ends ! 2, fp_error := ends ! 4\<rparr>)"
      using assms(1) o Inr by (auto simp: start_linux_def split: bool.splits if_splits)
    have child: "se_child e > 0" using assms(2) r(2) by (simp add: env_ok_def)
    have six: "ends = [ends ! 0, ends ! 1, ends ! 2, ends ! 3, ends ! 4, ends ! 5]"
      by (rule six_ends[OF len[OF r(1)]])
    have ge: "0 \<le> ends ! k" if "k < 6" for k using pos len[OF r(1)] that by simp
    have ms: "mset ends = mset [ends ! 0, ends ! 3, ends ! 5] + mset [ends ! 1, ends ! 2, ends ! 4]"
      by (subst six) simp
    have "track_os ({#}, None) (cs @ [Spawn (se_child e) (''ffmpeg'' # arguments)] @ guard_close [ends ! 0, ends ! 3, ends ! 5])
        = Some (mset [ends ! 1, ends ! 2, ends ! 4], Some (se_child e))"
      using t guard_close_track[of "[ends ! 0, ends ! 3, ends ! 5]" "mset ends" "Some (se_child e)"] ge
      by (simp add: track_os_append ms)
    then show ?thesis
      using r(3) child ge assms(3) Inr by (simp add: os_ok_def os_calls_def held_def child_of_def same_threads_def)
  qed
qed

text \<open>Ending the child and closing the descriptors keep the accounts.\<close>

lemma end_child_cases:
  assumes "end_child immediate ws ws' p = Some p'"
  obtains "fp_pid p \<le> 0" and "p' = p"
  | cs where "fp_pid p > 0" and "p' = (os_calls cs p)\<lparr>fp_pid := -1\<rparr>"
      and "cs = [Kill (fp_pid p) immediate, Kill (fp_pid p) True, Reap (fp_pid p)] \<or>
           cs = [Kill (fp_pid p) immediate, Reap (fp_pid p)]"
proof (cases "fp_pid p > 0")
  case True
  then obtain w where w: "wait_briefly ws = Some w"
    using assms by (cases "wait_briefly ws") (simp_all add: end_child_def)
  show ?thesis
  proof (cases "w = StillRunning \<or> w = WaitInterrupted")
    case soft: True
    show ?thesis
    proof (rule that(2)[OF True])
      show "p' = (os_calls [Kill (fp_pid p) immediate, Kill (fp_pid p) True, Reap (fp_pid p)] p)\<lparr>fp_pid := -1\<rparr>"
        using assms True w soft by (simp add: end_child_def split: if_splits)
    qed simp
  next
    case hard: False
    show ?thesis
    proof (rule that(2)[OF True])
      show "p' = (os_calls [Kill (fp_pid p) immediate, Reap (fp_pid p)] p)\<lparr>fp_pid := -1\<rparr>"
        using assms True w hard by (simp add: end_child_def)
    qed simp
  qed
next
  case False
  then have "fp_pid p \<le> 0" "p' = p" using assms by (simp_all add: end_child_def)
  then show ?thesis by (rule that(1))
qed

lemma end_child_effect:
  assumes "end_child immediate ws ws' p = Some p'"
  shows "fp_pid p' \<le> 0" "fp_input p' = fp_input p" "fp_output p' = fp_output p" "fp_error p' = fp_error p"
    "fp_pump p' = fp_pump p" "fp_diag p' = fp_diag p" "fp_stop_requested p' = fp_stop_requested p"
    "fp_input_end p' = fp_input_end p" "os_ok p \<Longrightarrow> os_ok p'"
  using assms
  by (auto elim!: end_child_cases simp: os_ok_def os_calls_def track_os_append held_def child_of_def)

lemma close_end_ok:
  assumes "os_ok p"
  shows "os_ok (close_input p)" and "os_ok (close_output p)" and "os_ok (close_error p)"
  using assms
  by (auto simp: close_input_def close_output_def close_error_def os_ok_def os_calls_def track_os_append
      held_def child_of_def)

lemma close_all_effect:
  "fp_input (close_all p) < 0" "fp_output (close_all p) < 0" "fp_error (close_all p) < 0"
  "fp_pid (close_all p) = fp_pid p" "fp_pump (close_all p) = fp_pump p" "fp_diag (close_all p) = fp_diag p"
  "fp_stop_requested (close_all p) = fp_stop_requested p" "fp_stop (close_all p) = fp_stop p"
  by (simp_all add: close_all_def close_input_def close_output_def close_error_def os_calls_def)

lemma close_all_ok: "os_ok p \<Longrightarrow> os_ok (close_all p)"
  by (simp add: close_all_def close_end_ok)

section \<open>Invariants of the threads\<close>

definition owner_inv :: "ffmpeg_process \<Rightarrow> bool" where
  "owner_inv p \<longleftrightarrow>
     os_ok p \<and> (fp_stop_requested p \<longleftrightarrow> fp_stop p \<noteq> NotStopping) \<and>
     (fp_stop p = JoiningThreads \<or> fp_stop p = StopFinished \<longrightarrow> fp_pid p \<le> 0) \<and>
     (fp_stop p = StopFinished \<longrightarrow> threads_done p \<and> fp_input p < 0 \<and> fp_output p < 0 \<and> fp_error p < 0) \<and>
     (fp_pump p \<noteq> PumpDone \<and> fp_stop p \<noteq> StopFinished \<longrightarrow> fp_input p \<ge> 0) \<and>
     (fp_diag p = DiagRunning \<longrightarrow> fp_error p \<ge> 0)"

lemma owner_inv_phase:
  "owner_inv p \<Longrightarrow> fp_pump p \<noteq> PumpAbsent \<Longrightarrow> fp_pump p \<noteq> PumpDone \<Longrightarrow> ph \<noteq> PumpDone \<Longrightarrow>
   owner_inv (p\<lparr>fp_pump := ph\<rparr>)"
  by (auto simp: owner_inv_def os_ok_def held_def child_of_def threads_done_def)

lemma owner_inv_input_end [simp]: "owner_inv (p\<lparr>fp_input_end := x\<rparr>) = owner_inv p"
  by (simp add: owner_inv_def os_ok_def held_def child_of_def threads_done_def)

lemma close_input_simps [simp]:
  "fp_pump (close_input p) = fp_pump p" "fp_diag (close_input p) = fp_diag p" "fp_stop (close_input p) = fp_stop p"
  "fp_stop_requested (close_input p) = fp_stop_requested p" "fp_pid (close_input p) = fp_pid p"
  "fp_output (close_input p) = fp_output p" "fp_error (close_input p) = fp_error p"
  "fp_input_end (close_input p) = fp_input_end p" "fp_input (close_input p) < 0"
  by (simp_all add: close_input_def os_calls_def)

lemma os_ok_pump [simp]: "os_ok (p\<lparr>fp_pump := ph\<rparr>) = os_ok p"
  by (simp add: os_ok_def held_def child_of_def)

lemma leave_pump_owner:
  assumes "owner_inv p" and "fp_pump p = PumpLeave"
  shows "owner_inv (leave_pump q p)"
proof -
  have close: "owner_inv ((close_input p)\<lparr>fp_pump := PumpDone\<rparr>)" if "owner_inv p" "fp_pump p = PumpLeave" for p
    using that close_end_ok(1)[of p] by (auto simp: owner_inv_def threads_done_def)
  show ?thesis
    using assms close[of p] close[of "p\<lparr>fp_input_end := SdkDataTimeout\<rparr>"] by (simp add: leave_pump_def Let_def)
qed

lemma pump_step_owner: "pump_step s s' \<Longrightarrow> owner_inv (fs_proc s) \<Longrightarrow> owner_inv (fs_proc s')"
  by (induction rule: pump_step.induct) (simp_all add: set_pump_def owner_inv_phase leave_pump_owner)

lemma read_diagnostics_frame:
  "\<exists>pending diag. read_diagnostics chunk p = p\<lparr>fp_pending := pending, fp_tail := diag\<rparr>"
  by (cases "take_lines (fp_pending p @ chunk) (fp_tail p)") (auto simp: read_diagnostics_def)

lemma close_all_owner:
  assumes "owner_inv p" and "fp_stop p = JoiningThreads" and "threads_done p"
  shows "owner_inv ((close_all p)\<lparr>fp_stop := StopFinished\<rparr>)"
proof -
  have "os_ok ((close_all p)\<lparr>fp_stop := StopFinished\<rparr>)"
    using close_all_ok[of p] assms(1) by (simp add: owner_inv_def os_ok_def held_def child_of_def)
  then show ?thesis using assms by (auto simp: owner_inv_def threads_done_def close_all_effect)
qed

lemma other_step_owner: "other_step s s' \<Longrightarrow> owner_inv (fs_proc s) \<Longrightarrow> owner_inv (fs_proc s')"
proof (induction rule: other_step.induct)
  case (Diagnose s chunk)
  obtain pending diag where "read_diagnostics chunk (fs_proc s) = (fs_proc s)\<lparr>fp_pending := pending, fp_tail := diag\<rparr>"
    using read_diagnostics_frame by blast
  then show ?case
    using Diagnose by (simp add: owner_inv_def os_ok_def held_def child_of_def threads_done_def)
next
  case (StopChild s immediate ws ws' p)
  then show ?case
    using end_child_effect[OF StopChild(2)]
    by (simp add: owner_inv_def os_ok_def held_def child_of_def threads_done_def)
next
  case (StopClose s)
  then show ?case by (simp add: close_all_owner)
qed (auto simp: owner_inv_def os_ok_def held_def child_of_def threads_done_def set_pump_def)

text \<open>What the child has been given.\<close>

definition sent :: "ffmpeg_system \<Rightarrow> bytes" where
  "sent s = concat (drop (fs_base s) (qs_popped (fs_queue s)))"

definition fed_inv :: "ffmpeg_system \<Rightarrow> bool" where
  "fed_inv s \<longleftrightarrow> system_wf (fs_queue s) \<and> fs_base s \<le> length (qs_popped (fs_queue s)) \<and>
     (case fp_pump (fs_proc s) of
        PumpWrite d \<Rightarrow> fs_fed s @ d = sent s \<and> length d \<le> q_limit (qs_queue (fs_queue s))
      | PumpLeave \<Rightarrow> prefix (fs_fed s) (sent s)
      | PumpDone \<Rightarrow> prefix (fs_fed s) (sent s)
      | _ \<Rightarrow> fs_fed s = sent s)"

lemma produce_popped: "e \<noteq> Pop \<Longrightarrow> qs_popped (queue_step e q) = qs_popped q"
  by (cases e) (auto simp: note_push_def Let_def split: prod.split push_result.split)

lemma pop_step:
  "fst (pop (qs_queue q)) = Some d \<Longrightarrow> qs_popped (queue_step Pop q) = qs_popped q @ [d]"
  by (cases "pop (qs_queue q)") auto

lemma pop_length:
  assumes "fst (pop q) = Some d" and "queue_wf q"
  shows "length d \<le> q_limit q"
  using assms pop_items(2)[OF assms(1)] by (simp add: queue_wf_def packet_ok_def)

lemma leave_pump_phase [simp]: "fp_pump (leave_pump q p) = PumpDone"
  by (simp add: leave_pump_def Let_def)

lemma pump_step_fed: "pump_step s s' \<Longrightarrow> fed_inv s \<Longrightarrow> fed_inv s'"
proof (induction rule: pump_step.induct)
  case (PumpPacket s d)
  have wf: "system_wf (queue_step Pop (fs_queue s))" using PumpPacket(3) queue_step_wf[of "fs_queue s" Pop]
    by (simp add: fed_inv_def del: queue_step.simps)
  have p: "qs_popped (queue_step Pop (fs_queue s)) = qs_popped (fs_queue s) @ [d]"
    by (rule pop_step[OF PumpPacket(2)])
  have "length d \<le> q_limit (qs_queue (fs_queue s))"
    using PumpPacket(2,3) by (intro pop_length) (simp_all add: fed_inv_def system_wf_def)
  then show ?case
    using PumpPacket wf unfolding fed_inv_def set_pump_def sent_def
    by (simp add: p queue_step_limit del: queue_step.simps)
next
  case (PumpFailed s d)
  then have "sent s = fs_fed s @ d" by (simp add: fed_inv_def)
  then show ?case using PumpFailed by (simp add: fed_inv_def set_pump_def sent_def)
qed (auto simp: fed_inv_def set_pump_def sent_def)

lemma fed_inv_frame:
  "fed_inv s \<Longrightarrow> system_wf (fs_queue s') \<Longrightarrow> qs_popped (fs_queue s') = qs_popped (fs_queue s) \<Longrightarrow>
   q_limit (qs_queue (fs_queue s')) = q_limit (qs_queue (fs_queue s)) \<Longrightarrow> fp_pump (fs_proc s') = fp_pump (fs_proc s) \<Longrightarrow> fs_base s' = fs_base s \<Longrightarrow> fs_fed s' = fs_fed s \<Longrightarrow> fed_inv s'"
  by (auto simp: fed_inv_def sent_def split: pump_phase.splits)

lemma fed_inv_wf: "fed_inv s \<Longrightarrow> system_wf (fs_queue s)"
  by (simp add: fed_inv_def)

lemma other_step_fed: "other_step s s' \<Longrightarrow> fed_inv s \<Longrightarrow> fed_inv s'"
proof (induction rule: other_step.induct)
  case (Produce e s)
  then show ?case
    by (intro fed_inv_frame[OF Produce(2)]) (simp_all add: produce_popped queue_step_wf queue_step_limit fed_inv_wf)
next
  case (Diagnose s chunk)
  obtain pending diag where "read_diagnostics chunk (fs_proc s) = (fs_proc s)\<lparr>fp_pending := pending, fp_tail := diag\<rparr>"
    using read_diagnostics_frame by blast
  then show ?case by (intro fed_inv_frame[OF Diagnose(2)]) (simp_all add: fed_inv_wf[OF Diagnose(2)])
next
  case (StopChild s immediate ws ws' p)
  then show ?case
    by (intro fed_inv_frame[OF StopChild(3)]) (simp_all add: fed_inv_wf end_child_effect[OF StopChild(2)])
next
  case (StopClose s)
  then show ?case by (intro fed_inv_frame[OF StopClose(3)]) (simp_all add: fed_inv_wf close_all_effect)
next
  case (StartPump s)
  then show ?case by (simp add: fed_inv_def sent_def set_pump_def)
next
  case (StopRequest s immediate)
  then show ?case by (intro fed_inv_frame[OF StopRequest(2)]) (simp_all add: fed_inv_wf)
next
  case (DiagnoseEnd s)
  then show ?case by (intro fed_inv_frame[OF DiagnoseEnd(2)]) (simp_all add: fed_inv_wf)
qed

definition ffmpeg_inv :: "ffmpeg_system \<Rightarrow> bool" where
  "ffmpeg_inv s \<longleftrightarrow> owner_inv (fs_proc s) \<and> fed_inv s"

lemma ffmpeg_step_inv: "ffmpeg_step s s' \<Longrightarrow> ffmpeg_inv s \<Longrightarrow> ffmpeg_inv s'"
  unfolding ffmpeg_step_def ffmpeg_inv_def
  using pump_step_owner pump_step_fed other_step_owner other_step_fed by blast

lemma ffmpeg_steps_inv: "ffmpeg_step\<^sup>*\<^sup>* s s' \<Longrightarrow> ffmpeg_inv s \<Longrightarrow> ffmpeg_inv s'"
  by (induction rule: rtranclp_induct) (auto intro: ffmpeg_step_inv)

lemma construct_inv:
  assumes "construct f e created ws ws' arguments = Some (Inr (), p)" and "env_ok e" and "system_wf q"
  shows "ffmpeg_inv (started_system q p) \<and> fp_pid p > 0"
proof -
  obtain r p1 where s: "start_linux e arguments new_process = (r, p1)" by (metis prod.exhaust)
  have eff: "os_ok p1 \<and> same_threads new_process p1 \<and>
      (case r of Inl _ \<Rightarrow> True | Inr _ \<Rightarrow> fp_pid p1 > 0 \<and> fp_input p1 \<ge> 0 \<and> fp_error p1 \<ge> 0)"
    using start_linux_effect[OF s assms(2)] by (cases r) (simp_all add: new_process_def)
  have "p = p1\<lparr>fp_diag := DiagRunning\<rparr>" "is_ok r"
    using assms(1) s by (cases r; cases f; cases created; auto simp: construct_def split: option.splits)+
  then show ?thesis
    using eff assms(3) by (cases r) (auto simp: ffmpeg_inv_def owner_inv_def os_ok_def held_def child_of_def
        threads_done_def fed_inv_def started_system_def sent_def same_threads_def new_process_def)
qed

section \<open>Reading the diagnostics\<close>

text \<open>What the tail is meant to be: the last bytes of all complete lines that are not empty.\<close>

definition last_bytes :: "string \<Rightarrow> string" where
  "last_bytes d = drop (length d - tail_limit) d"

fun complete_lines :: "string \<Rightarrow> string \<Rightarrow> string list \<times> string" where
  "complete_lines line [] = ([], line)"
| "complete_lines line (c # cs) =
     (if line_end c then (case complete_lines [] cs of (ls, rest) \<Rightarrow> (line # ls, rest))
      else complete_lines (line @ [c]) cs)"

definition log_text :: "string list \<Rightarrow> string" where
  "log_text ls = concat (map (\<lambda>l. if l = [] then [] else l @ [CHR 0x0A]) ls)"

lemma add_line_last_bytes:
  "add_line line (last_bytes d) = last_bytes (d @ (if line = [] then [] else line @ [CHR 0x0A]))"
  by (cases "line = []") (auto simp: add_line_def last_bytes_def Let_def)

lemma complete_lines_skip:
  "\<forall>c\<in>set xs. \<not> line_end c \<Longrightarrow> complete_lines line (xs @ ys) = complete_lines (line @ xs) ys"
  by (induction xs arbitrary: line) auto

lemma take_lines_complete:
  "take_lines pending (last_bytes d) =
     (snd (complete_lines [] pending), last_bytes (d @ log_text (fst (complete_lines [] pending))))"
proof (induction "length pending" arbitrary: pending d rule: less_induct)
  case less
  show ?case
  proof (cases "find_pred line_end pending")
    case None
    then have "complete_lines [] pending = ([], pending)"
      using complete_lines_skip[of pending "[]" "[]"] by simp
    then show ?thesis by (simp add: take_lines.simps[of pending] None log_text_def del: find_pred_None)
  next
    case (Some i)
    then have i: "i < length pending" "line_end (pending ! i)" "\<forall>c\<in>set (take i pending). \<not> line_end c"
      by (auto simp: find_pred_Some in_set_conv_nth)
    define rest where "rest = drop (i + 1) pending"
    have "pending = take i pending @ pending ! i # rest"
      using i(1) by (simp add: rest_def id_take_nth_drop)
    then have c: "complete_lines [] pending = (take i pending # fst (complete_lines [] rest), snd (complete_lines [] rest))"
      using complete_lines_skip[OF i(3), of "[]" "pending ! i # rest"] i(2)
      by (simp add: case_prod_beta)
    have "length rest < length pending" using i(1) by (simp add: rest_def)
    note IH = less[OF this]
    have "take_lines pending (last_bytes d) = take_lines rest (add_line (take i pending) (last_bytes d))"
      by (simp only: take_lines.simps[of pending] Some rest_def option.case)
    also have "\<dots> = (snd (complete_lines [] pending), last_bytes (d @ log_text (fst (complete_lines [] pending))))"
      unfolding add_line_last_bytes IH c by (simp add: log_text_def)
    finally show ?thesis .
  qed
qed

lemma complete_lines_append:
  "complete_lines line (xs @ ys) =
     (fst (complete_lines line xs) @ fst (complete_lines (snd (complete_lines line xs)) ys),
      snd (complete_lines (snd (complete_lines line xs)) ys))"
  by (induction xs arbitrary: line) (simp_all add: case_prod_beta)

lemma complete_lines_rest:
  "\<forall>c\<in>set line. \<not> line_end c \<Longrightarrow> \<forall>c\<in>set (snd (complete_lines line xs)). \<not> line_end c"
proof (induction xs arbitrary: line)
  case (Cons x xs)
  show ?case
  proof (cases "line_end x")
    case True
    have "\<forall>c\<in>set (snd (complete_lines [] xs)). \<not> line_end c" by (rule Cons.IH) simp
    then show ?thesis using True by (simp add: case_prod_beta)
  next
    case False
    have "\<forall>c\<in>set (line @ [x]). \<not> line_end c" using Cons.prems False by auto
    from Cons.IH[OF this] show ?thesis using False by simp
  qed
qed simp

lemma complete_lines_none: "\<forall>c\<in>set y. \<not> line_end c \<Longrightarrow> complete_lines [] y = ([], y)"
  using complete_lines_skip[of y "[]" "[]"] by simp

lemma complete_lines_pending: "complete_lines [] (snd (complete_lines [] xs)) = ([], snd (complete_lines [] xs))"
  by (rule complete_lines_none) (rule complete_lines_rest, simp)

lemma diagnostics_fold:
  assumes "fp_pending p = snd (complete_lines [] xs)" and "fp_tail p = last_bytes (log_text (fst (complete_lines [] xs)))"
  shows "fp_tail (fold read_diagnostics chunks p) = last_bytes (log_text (fst (complete_lines [] (xs @ concat chunks))))"
  using assms
proof (induction chunks arbitrary: p xs)
  case Nil
  then show ?case by simp
next
  case (Cons c chunks)
  have "complete_lines [] (fp_pending p @ c) =
      (fst (complete_lines (snd (complete_lines [] xs)) c), snd (complete_lines (snd (complete_lines [] xs)) c))"
    using complete_lines_append[of "[]" "fp_pending p" c] Cons.prems(1) complete_lines_pending[of xs] by simp
  then have "fp_pending (read_diagnostics c p) = snd (complete_lines [] (xs @ c)) \<and>
      fp_tail (read_diagnostics c p) = last_bytes (log_text (fst (complete_lines [] (xs @ c))))"
    using Cons.prems complete_lines_append[of "[]" xs c]
      take_lines_complete[of "fp_pending p @ c" "log_text (fst (complete_lines [] xs))"]
    by (simp add: read_diagnostics_def log_text_def)
  then show ?case using Cons.IH[of "read_diagnostics c p" "xs @ c"] by simp
qed

section \<open>The pump comes to an end\<close>

fun pump_measure :: "nat \<Rightarrow> pump_phase \<Rightarrow> nat" where
  "pump_measure limit PumpAbsent = 0"
| "pump_measure limit PumpDone = 0"
| "pump_measure limit PumpLeave = 1"
| "pump_measure limit PumpLoop = 2"
| "pump_measure limit (PumpWrite d) = 3 + length d"
| "pump_measure limit PumpPop = 4 + limit"

definition measure_of :: "ffmpeg_system \<Rightarrow> nat" where
  "measure_of s = pump_measure (q_limit (qs_queue (fs_queue s))) (fp_pump (fs_proc s))"

lemma leave_pump_stop [simp]: "fp_stop_requested (leave_pump q p) = fp_stop_requested p"
  by (simp add: leave_pump_def Let_def)

lemma pump_step_measure:
  "pump_step s s' \<Longrightarrow> fp_stop_requested (fs_proc s) \<Longrightarrow> fed_inv s \<Longrightarrow>
   measure_of s' < measure_of s \<and> fp_stop_requested (fs_proc s')"
proof (induction rule: pump_step.induct)
  case (PumpPacket s d)
  then have "length d \<le> q_limit (qs_queue (fs_queue s))"
    using pop_length by (simp add: fed_inv_def system_wf_def)
  then show ?case using PumpPacket by (simp add: measure_of_def set_pump_def queue_step_limit del: queue_step.simps)
qed (auto simp: measure_of_def set_pump_def)

lemma other_step_measure:
  "other_step s s' \<Longrightarrow> fp_stop_requested (fs_proc s) \<Longrightarrow> owner_inv (fs_proc s) \<Longrightarrow>
   measure_of s' = measure_of s \<and> fp_stop_requested (fs_proc s')"
proof (induction rule: other_step.induct)
  case (Diagnose s chunk)
  obtain pending diag where "read_diagnostics chunk (fs_proc s) = (fs_proc s)\<lparr>fp_pending := pending, fp_tail := diag\<rparr>"
    using read_diagnostics_frame by blast
  then show ?case using Diagnose by (simp add: measure_of_def)
next
  case (StopChild s immediate ws ws' p)
  then show ?case using end_child_effect[OF StopChild(2)] by (simp add: measure_of_def)
qed (auto simp: measure_of_def set_pump_def queue_step_limit close_all_effect owner_inv_def)

lemma pump_progress:
  assumes "fp_pump (fs_proc s) \<noteq> PumpAbsent" and "fp_pump (fs_proc s) \<noteq> PumpDone"
  shows "\<exists>s'. pump_step s s'"
proof (cases "fp_pump (fs_proc s)")
  case PumpLoop
  then show ?thesis by (cases "fp_stop_requested (fs_proc s)") (auto intro: pump_step.intros)
next
  case PumpPop
  then show ?thesis
    by (cases "fst (pop (qs_queue (fs_queue s)))";
        cases "fp_stop_requested (fs_proc s) \<or> queue_closed (qs_queue (fs_queue s))")
      (auto intro: pump_step.intros)
next
  case (PumpWrite d)
  then show ?thesis by (cases "d = []") (auto intro: pump_step.intros)
qed (use assms in \<open>auto intro: pump_step.intros\<close>)

text \<open>Runs in which the steps of the pump are counted.\<close>

inductive counted_run :: "nat \<Rightarrow> ffmpeg_system \<Rightarrow> ffmpeg_system \<Rightarrow> bool" where
  Start: "counted_run 0 s s"
| Pump: "counted_run n s s' \<Longrightarrow> pump_step s' s'' \<Longrightarrow> counted_run (Suc n) s s''"
| Other: "counted_run n s s' \<Longrightarrow> other_step s' s'' \<Longrightarrow> counted_run n s s''"

lemma counted_run_bound:
  "counted_run n s s' \<Longrightarrow> ffmpeg_inv s \<Longrightarrow> fp_stop_requested (fs_proc s) \<Longrightarrow>
   n + measure_of s' \<le> measure_of s \<and> ffmpeg_inv s' \<and> fp_stop_requested (fs_proc s')"
proof (induction rule: counted_run.induct)
  case (Pump n s s' s'')
  then show ?case
    using pump_step_measure[OF Pump(2)] ffmpeg_step_inv[of s' s'']
    by (force simp: ffmpeg_step_def ffmpeg_inv_def)
next
  case (Other n s s' s'')
  then show ?case
    using other_step_measure[OF Other(2)] ffmpeg_step_inv[of s' s'']
    by (force simp: ffmpeg_step_def ffmpeg_inv_def)
qed simp

lemma measure_of_bound: "fed_inv s \<Longrightarrow> measure_of s \<le> q_limit (qs_queue (fs_queue s)) + 4"
  by (cases "fp_pump (fs_proc s)") (auto simp: measure_of_def fed_inv_def)

section \<open>Properties\<close>

lemma nothing_held:
  "os_ok p \<Longrightarrow> fp_pid p \<le> 0 \<Longrightarrow> fp_input p < 0 \<Longrightarrow> fp_output p < 0 \<Longrightarrow> fp_error p < 0 \<Longrightarrow>
   track_os ({#}, None) (fp_calls p) = Some ({#}, None)"
  by (simp add: os_ok_def held_def child_of_def)

definition example_spawn :: spawn_env where
  "example_spawn = \<lparr>se_pipe = (\<lambda>i. if i = 0 then Some (0, 9) else Some (int (10 + 2 * i), int (11 + 2 * i))),
     se_raise = (\<lambda>i j. 7), se_init = 0, se_action = (\<lambda>k. 0), se_spawn = 0, se_child = 99\<rparr>"

lemma example_spawn_ok: "env_ok example_spawn"
  by (simp add: env_ok_def example_spawn_def)

lemma example_pipes:
  "open_pipes example_spawn [0, 1, 2] =
     (True, [7, 9, 12, 13, 14, 15],
      [OpenFd 0, OpenFd 9, OpenFd 7, CloseFd 0, OpenFd 12, OpenFd 13, OpenFd 14, OpenFd 15])"
  by (simp add: open_pipe_def protect_end_def example_spawn_def)

definition example_process :: ffmpeg_process where
  "example_process = new_process\<lparr>fp_pid := 99, fp_input := 9, fp_output := 12, fp_error := 14, fp_diag := DiagRunning,
     fp_calls := [OpenFd 0, OpenFd 9, OpenFd 7, CloseFd 0, OpenFd 12, OpenFd 13, OpenFd 14, OpenFd 15,
       Spawn 99 [''ffmpeg''], CloseFd 7, CloseFd 13, CloseFd 15]\<rparr>"

lemma example_construct: "construct None example_spawn True [] [] [] = Some (Inr (), example_process)"
proof -
  have "start_linux example_spawn [] new_process = (Inr (), example_process\<lparr>fp_diag := DiagAbsent\<rparr>)"
    unfolding start_linux_def example_pipes
    by (simp add: example_process_def new_process_def os_calls_def guard_close_def example_spawn_def)
  then show ?thesis by (simp add: construct_def example_process_def new_process_def)
qed

text \<open>C18: A constructor that fails, at whatever step, leaves no descriptor open and no child behind.\<close>

theorem failed_start_leaves_nothing:
  assumes "construct f e created ws ws' arguments = Some (Inl x, p)" and "env_ok e"
  shows "track_os ({#}, None) (fp_calls p) = Some ({#}, None)"
proof (cases f)
  case (Some g)
  then show ?thesis using assms(1) by (auto simp: construct_def new_process_def)
next
  case None
  obtain r p1 where s: "start_linux e arguments new_process = (r, p1)" by (metis prod.exhaust)
  note eff = start_linux_effect[OF s assms(2), simplified new_process_def, simplified]
  show ?thesis
  proof (cases r)
    case (Inl g)
    then show ?thesis using assms(1) None s eff nothing_held[of p1] by (auto simp: construct_def)
  next
    case (Inr u)
    then obtain p2 where p2: "end_child True ws ws' (p1\<lparr>fp_stop_requested := True\<rparr>) = Some p2"
      and p: "p = (close_all p2)\<lparr>fp_stop := StopFinished\<rparr>"
      using assms(1) None s by (auto simp: construct_def split: if_splits option.splits)
    have "os_ok (p1\<lparr>fp_stop_requested := True\<rparr>)" using eff by (simp add: os_ok_def held_def child_of_def)
    then have "os_ok (close_all p2)" using end_child_effect(9)[OF p2] close_all_ok by blast
    then show ?thesis
      using nothing_held[of "close_all p2"] end_child_effect(1)[OF p2] by (simp add: p close_all_effect)
  qed
qed

theorem failed_start_leaves_nothing_witness:
  "track_os ({#}, None) (fp_calls (os_calls [OpenFd 0, OpenFd 9, OpenFd 7, CloseFd 0, CloseFd 7, CloseFd 9] new_process))
     = Some ({#}, None)"
proof -
  have "construct None (example_spawn\<lparr>se_pipe := (\<lambda>i. if i = 0 then Some (0, 9) else None)\<rparr>) True [] [] [] =
      Some (Inl pipe_failed, (os_calls [OpenFd 0, OpenFd 9, OpenFd 7, CloseFd 0, CloseFd 7, CloseFd 9] new_process)
        \<lparr>fp_stop_requested := True, fp_stop := StopFinished\<rparr>)"
    by (simp add: construct_def start_linux_def open_pipe_def protect_end_def example_spawn_def guard_close_def
        new_process_def os_calls_def)
  from failed_start_leaves_nothing[OF this] show ?thesis by (simp add: env_ok_def example_spawn_def)
qed

text \<open>C15: Every descriptor is closed exactly once and the child is waited for exactly once: whatever the
  threads do, in any order, no descriptor is closed that is not held and no signal goes to a child
  that was already waited for; the pump always writes to an open pipe; and when \<open>stop_process\<close> has
  finished nothing is left.\<close>

theorem process_accounts:
  assumes "construct None e True ws ws' arguments = Some (Inr (), p)" and "env_ok e" and "system_wf q"
    and "ffmpeg_step\<^sup>*\<^sup>* (started_system q p) s"
  shows "track_os ({#}, None) (fp_calls (fs_proc s)) = Some (held (fs_proc s), child_of (fs_proc s)) \<and>
    (fp_pump (fs_proc s) \<noteq> PumpDone \<and> fp_stop (fs_proc s) \<noteq> StopFinished \<longrightarrow> fp_input (fs_proc s) \<ge> 0) \<and>
    (fp_stop (fs_proc s) = StopFinished \<longrightarrow>
      track_os ({#}, None) (fp_calls (fs_proc s)) = Some ({#}, None) \<and> threads_done (fs_proc s))"
proof -
  have "ffmpeg_inv s" using ffmpeg_steps_inv[OF assms(4)] construct_inv[OF assms(1-3)] by blast
  then have o: "owner_inv (fs_proc s)" by (simp add: ffmpeg_inv_def)
  then have "fp_stop (fs_proc s) = StopFinished \<longrightarrow> track_os ({#}, None) (fp_calls (fs_proc s)) = Some ({#}, None)"
    using nothing_held[of "fs_proc s"] by (simp add: owner_inv_def)
  then show ?thesis using o by (simp add: owner_inv_def os_ok_def)
qed

theorem process_accounts_witness:
  "track_os ({#}, None) (fp_calls example_process) = Some ({#9, 12, 14#}, Some 99)"
  using process_accounts[OF example_construct example_spawn_ok, of "new_system 100"
      "started_system (new_system 100) example_process"]
  by (simp add: system_wf_new started_system_def held_def child_of_def example_process_def new_process_def
      add_mset_commute)





text \<open>The child's standard streams are the right ends of the right pipes, and it keeps no other end: the
  file actions give it the reading end of the input pipe and the writing ends of the output and error
  pipes as descriptors 0, 1 and 2, whatever descriptors the parent got, also when it had been started
  with its own standard streams closed.\<close>

theorem child_streams:
  assumes "open_pipes e [0, 1, 2] = (True, ends, cs)"
    and "\<And>i j. se_raise e i j < 0 \<or> 3 \<le> se_raise e i j" and "distinct ends"
  shows "fold apply_action (file_actions ends) t 0 = t (ends ! 0) \<and>
    fold apply_action (file_actions ends) t 1 = t (ends ! 3) \<and>
    fold apply_action (file_actions ends) t 2 = t (ends ! 5) \<and>
    (\<forall>fd\<in>set ends. fold apply_action (file_actions ends) t fd = None) \<and> length ends = 6"
proof -
  have pipe: "length ends = 2 \<and> (\<forall>fd\<in>set ends. 3 \<le> fd)" if "open_pipe e i = (True, ends, cs)" for i ends cs
    using that assms(2)[of i 0] assms(2)[of i 1]
    by (auto simp: open_pipe_def protect_end_def split: option.splits if_splits)
  have len: "length ends = 6" and ge: "\<forall>fd\<in>set ends. 3 \<le> fd"
    using assms(1) by (auto split: prod.splits bool.splits dest!: pipe)
  have six: "ends = [ends ! 0, ends ! 1, ends ! 2, ends ! 3, ends ! 4, ends ! 5]"
    by (rule six_ends[OF len])
  obtain a b c d e' f where l: "ends = [a, b, c, d, e', f]" by (rule that[OF six])
  have std: "x \<noteq> 0 \<and> x \<noteq> 1 \<and> x \<noteq> 2" if "x \<in> set ends" for x using ge that by fastforce
  then have ne: "a \<noteq> 0" "a \<noteq> 1" "a \<noteq> 2" "b \<noteq> 0" "b \<noteq> 1" "b \<noteq> 2" "c \<noteq> 0" "c \<noteq> 1" "c \<noteq> 2"
    "d \<noteq> 0" "d \<noteq> 1" "d \<noteq> 2" "e' \<noteq> 0" "e' \<noteq> 1" "e' \<noteq> 2" "f \<noteq> 0" "f \<noteq> 1" "f \<noteq> 2"
    unfolding l by simp_all
  have fa: "file_actions [a, b, c, d, e', f] = [AddDup2 a 0, AddDup2 d 1, AddDup2 f 2, AddClose a, AddClose b,
      AddClose c, AddClose d, AddClose e', AddClose f]"
    by (simp add: file_actions_def)
  have acts: "fold apply_action (file_actions ends) t =
      t(0 := t a, 1 := t d, 2 := t f, a := None, b := None, c := None, d := None, e' := None, f := None)"
    unfolding l fa by (simp only: fold_simps apply_action.simps fun_upd_other[OF ne(10)] fun_upd_other[OF ne(16)]
        fun_upd_other[OF ne(17)])
  have closed: "fold apply_action (file_actions ends) t fd = None" if "fd \<in> set ends" for fd
    using that unfolding l acts[unfolded l] by (simp only: fun_upd_apply) auto
  have std: "fold apply_action (file_actions ends) t 0 = t a" "fold apply_action (file_actions ends) t 1 = t d"
    "fold apply_action (file_actions ends) t 2 = t f"
    unfolding acts
    by (simp_all only: fun_upd_apply ne ne[THEN not_sym] if_False if_True refl one_neq_zero zero_neq_one
        zero_neq_numeral one_eq_numeral_iff num.distinct simp_thms)
  have "ends ! 0 = a" "ends ! 3 = d" "ends ! 5 = f" unfolding l by simp_all
  then show ?thesis using std closed len by (simp only:) blast
qed

theorem child_streams_witness:
  "fold apply_action (file_actions [7, 9, 12, 13, 14, 15]) (\<lambda>fd. Some fd) 1 = Some (13 :: int)"
  using child_streams[OF example_pipes, of "\<lambda>fd. Some fd"] by (simp add: example_spawn_def)

text \<open>A child that dies is reported as a silent device: when a write to its input fails while the session
  is live, the pump leaves with the reason \<open>sdk_data_timeout\<close>, although the SDK did deliver data.\<close>

theorem crash_reported_as_timeout:
  assumes "fp_pump (fs_proc s) = PumpWrite d" and "d \<noteq> []"
    and "\<not> fp_stop_requested (fs_proc s)" and "\<not> queue_closed (qs_queue (fs_queue s))"
  shows "\<exists>s'. pump_step\<^sup>*\<^sup>* s s' \<and> fp_pump (fs_proc s') = PumpDone \<and> fp_input_end (fs_proc s') = SdkDataTimeout"
proof -
  let ?s = "set_pump PumpLeave s"
  have "pump_step s ?s" using assms(1,2) by (rule PumpFailed)
  moreover have "pump_step ?s (?s\<lparr>fs_proc := leave_pump (qs_queue (fs_queue ?s)) (fs_proc ?s)\<rparr>)"
    by (rule PumpFinish) (simp add: set_pump_def)
  ultimately have "pump_step\<^sup>*\<^sup>* s (?s\<lparr>fs_proc := leave_pump (qs_queue (fs_queue ?s)) (fs_proc ?s)\<rparr>)"
    by (rule converse_rtranclp_into_rtranclp[OF _ r_into_rtranclp])
  then show ?thesis using assms(3,4) by (intro exI) (auto simp: set_pump_def leave_pump_def Let_def)
qed

theorem crash_reported_as_timeout_witness:
  "\<exists>s'. pump_step\<^sup>*\<^sup>* (set_pump (PumpWrite [1]) (started_system (new_system 100) example_process)) s' \<and>
     fp_pump (fs_proc s') = PumpDone \<and> fp_input_end (fs_proc s') = SdkDataTimeout"
  by (rule crash_reported_as_timeout[where d = "[1]"])
     (simp_all add: set_pump_def started_system_def example_process_def new_process_def new_system_def
       new_queue_def queue_closed_def)

text \<open>The diagnostics kept for the log are exactly the last 8192 bytes of FFmpeg's non-empty lines,
  however its output is cut into reads.\<close>

theorem diagnostics_tail:
  "fp_tail (fold read_diagnostics chunks new_process) = last_bytes (log_text (fst (complete_lines [] (concat chunks)))) \<and>
   length (fp_tail (fold read_diagnostics chunks new_process)) \<le> tail_limit"
  using diagnostics_fold[of new_process "[]" chunks]
  by (simp add: new_process_def last_bytes_def log_text_def)

end
