(* ===== verification/Ffmpeg_Output.thy ===== *)
theory Ffmpeg_Output
  imports Ffmpeg_Process
begin

text \<open>
  Reading what FFmpeg writes: \<open>read_output_timeout\<close>, \<open>read_until_ready\<close> (with \<open>read_initial\<close> and
  \<open>read_first_media\<close>) and \<open>read\<close>.  Each list element is what one round of a loop meets: the readings
  of the clock and of \<open>g_running\<close>, the result of the check of the client, the result of the read.
  \<open>None\<close> says that the loop is still going when the list ends.
\<close>

section \<open>The code\<close>

text \<open>Linux: the time \<open>poll\<close> may take, and its outcome; a negative count means that nothing came yet.\<close>

definition poll_ms :: "int \<Rightarrow> int" where
  "poll_ms remaining = max 1 (min 100 remaining)"

definition read_output_timeout :: "int \<Rightarrow> int \<times> bytes \<Rightarrow> int \<times> bytes" where
  "read_output_timeout poll_result outcome = (if poll_result \<le> 0 then (-1, []) else outcome)"

definition ready_limit :: nat where
  "ready_limit = 4 * 1024 * 1024"

definition ready_buffer :: nat where
  "ready_buffer = 32768"

datatype ready_round =
    ReadyDeadline              \<comment> \<open>the deadline has passed at the top of the round\<close>
  | ReadyAbort failure         \<comment> \<open>\<open>check_running\<close> or the check of the client throws\<close>
  | ReadyNothing               \<comment> \<open>a negative count\<close>
  | ReadyEof
  | ReadyData bytes

definition initialized :: "bytes \<Rightarrow> bool" where
  "initialized d \<longleftrightarrow> contains_atom ''ftyp'' d \<and> contains_atom ''moov'' d"

definition has_fragment :: "bytes \<Rightarrow> bool" where
  "has_fragment d \<longleftrightarrow> contains_atom ''moof'' d \<and> contains_atom ''mdat'' d"

definition ready :: "bool \<Rightarrow> bytes \<Rightarrow> bool" where
  "ready require_media_fragment d \<longleftrightarrow> initialized d \<and> (\<not> require_media_fragment \<or> has_fragment d)"

definition not_ready :: "bool \<Rightarrow> bytes \<Rightarrow> failure" where
  "not_ready require_media_fragment d =
     (if require_media_fragment \<and> initialized d then BridgeError 504 ''FFMPEG_NO_MEDIA_FRAGMENT''
      else BridgeError 502 ''FFMPEG_NO_MP4'')"

fun read_until_ready :: "bool \<Rightarrow> ready_round list \<Rightarrow> bytes \<Rightarrow> bytes res option" where
  "read_until_ready m [] d = (if length d \<ge> ready_limit then Some (Inl (not_ready m d)) else None)"
| "read_until_ready m (r # rs) d =
     (if length d \<ge> ready_limit then Some (Inl (not_ready m d))
      else case r of
        ReadyDeadline \<Rightarrow> Some (Inl (not_ready m d))
      | ReadyAbort f \<Rightarrow> Some (Inl f)
      | ReadyNothing \<Rightarrow> read_until_ready m rs d
      | ReadyEof \<Rightarrow> Some (Inl (not_ready m d))
      | ReadyData x \<Rightarrow> (if ready m (d @ x) then Some (Inr (d @ x)) else read_until_ready m rs (d @ x)))"

definition read_initial :: "ready_round list \<Rightarrow> bytes res option" where
  "read_initial rs = read_until_ready False rs []"

definition read_first_media :: "ready_round list \<Rightarrow> bytes \<Rightarrow> bytes res option" where
  "read_first_media rs initial_mp4 = read_until_ready True rs initial_mp4"

text \<open>\<open>read\<close>: the time stands at the top of each round; an empty result ends the stream.\<close>

datatype output_round =
    OutputStopping             \<comment> \<open>\<open>g_running\<close> is false\<close>
  | OutputAbort failure
  | OutputRound int "int \<times> bytes"   \<comment> \<open>the time, and what \<open>read_output_timeout\<close> returns\<close>

fun read_output :: "int \<Rightarrow> output_round list \<Rightarrow> bytes res option" where
  "read_output deadline [] = None"
| "read_output deadline (OutputStopping # rs) = Some (Inr [])"
| "read_output deadline (OutputAbort f # rs) = Some (Inl f)"
| "read_output deadline (OutputRound now (n, d) # rs) =
     (if now \<ge> deadline then Some (Inl (BridgeError 504 ''FFMPEG_OUTPUT_TIMEOUT''))
      else if n \<ge> 0 then Some (Inr d)
      else read_output deadline rs)"

section \<open>What comes out\<close>

fun data_of :: "ready_round \<Rightarrow> bytes" where
  "data_of (ReadyData x) = x"
| "data_of _ = []"

text \<open>The result is what was there, followed by what was read, and nothing is ready before it.\<close>

lemma read_until_ready_result:
  assumes "read_until_ready m rs d = Some (Inr r)" and "\<forall>x\<in>set rs. length (data_of x) \<le> ready_buffer"
  shows "\<exists>n. n < length rs \<and> r = d @ concat (map data_of (take (Suc n) rs)) \<and> ready m r \<and>
    length r < ready_limit + ready_buffer \<and>
    (\<forall>k\<le>n. 0 < k \<longrightarrow> data_of (rs ! (k - 1)) \<noteq> [] \<longrightarrow> \<not> ready m (d @ concat (map data_of (take k rs))))"
  using assms
proof (induction m rs d rule: read_until_ready.induct)
  case (1 m d)
  then show ?case by (simp split: if_splits)
next
  case (2 m x rs d)
  have small: "length d < ready_limit" using 2(3) by (auto split: if_splits)
  have bounds: "\<forall>x\<in>set rs. length (data_of x) \<le> ready_buffer" "length (data_of x) \<le> ready_buffer"
    using 2(4) by auto
  have shift: "\<exists>n. n < length (x # rs) \<and> r = d @ concat (map data_of (take (Suc n) (x # rs))) \<and> ready m r \<and>
      length r < ready_limit + ready_buffer \<and>
      (\<forall>k\<le>n. 0 < k \<longrightarrow> data_of ((x # rs) ! (k - 1)) \<noteq> [] \<longrightarrow> \<not> ready m (d @ concat (map data_of (take k (x # rs)))))"
    if tail: "\<exists>n. n < length rs \<and> r = (d @ data_of x) @ concat (map data_of (take (Suc n) rs)) \<and> ready m r \<and>
      length r < ready_limit + ready_buffer \<and>
      (\<forall>k\<le>n. 0 < k \<longrightarrow> data_of (rs ! (k - 1)) \<noteq> [] \<longrightarrow> \<not> ready m ((d @ data_of x) @ concat (map data_of (take k rs))))"
      and first: "data_of x \<noteq> [] \<longrightarrow> \<not> ready m (d @ data_of x)"
  proof -
    obtain n where n: "n < length rs" "r = (d @ data_of x) @ concat (map data_of (take (Suc n) rs))" "ready m r"
      "length r < ready_limit + ready_buffer"
      "\<forall>k\<le>n. 0 < k \<longrightarrow> data_of (rs ! (k - 1)) \<noteq> [] \<longrightarrow> \<not> ready m ((d @ data_of x) @ concat (map data_of (take k rs)))"
      using tail by blast
    have "\<not> ready m (d @ concat (map data_of (take k (x # rs))))"
      if kn: "k \<le> Suc n" and k0: "0 < k" and kd: "data_of ((x # rs) ! (k - 1)) \<noteq> []" for k
    proof (cases "k = 1")
      case True
      then show ?thesis using kd first by simp
    next
      case False
      then obtain j where "k = Suc (Suc j)" using k0 by (cases k; cases "k - 1") auto
      then show ?thesis using n(5)[THEN spec, of "Suc j"] kn kd by simp
    qed
    then show ?thesis using n(1-4) by (intro exI[of _ "Suc n"]) simp
  qed
  show ?case
  proof (cases x)
    case (ReadyData y)
    show ?thesis
    proof (cases "ready m (d @ y)")
      case True
      then show ?thesis using 2(3) small bounds ReadyData by (intro exI[of _ 0]) auto
    next
      case False
      then show ?thesis using 2(2)[OF _ ReadyData False] 2(3) small bounds ReadyData shift by simp
    qed
  next
    case ReadyNothing
    then show ?thesis using 2(1)[OF _ ReadyNothing] 2(3) small bounds shift by simp
  qed (use 2(3) small in auto)
qed


section \<open>Properties\<close>

text \<open>What is handed to the browser first is what FFmpeg wrote, complete and in order, and it can be
  played: it holds the initialization and, for the response, the first media fragment; reading stops
  with the first read that completes it, and the result is bounded although the limit is only tested
  between reads.\<close>

theorem first_media_complete:
  assumes "read_first_media rs d = Some (Inr r)" and "\<forall>x\<in>set rs. length (data_of x) \<le> ready_buffer"
  shows "\<exists>n<length rs. r = d @ concat (map data_of (take (Suc n) rs)) \<and>
    initialized r \<and> has_fragment r \<and> length r < ready_limit + ready_buffer \<and>
    (\<forall>k\<le>n. 0 < k \<longrightarrow> data_of (rs ! (k - 1)) \<noteq> [] \<longrightarrow>
      \<not> (initialized (d @ concat (map data_of (take k rs))) \<and> has_fragment (d @ concat (map data_of (take k rs)))))"
  using read_until_ready_result[of True rs d r] assms
  by (auto simp: read_first_media_def ready_def)

definition media_of_text :: "string \<Rightarrow> bytes" where
  "media_of_text = map (\<lambda>c. of_nat (of_char c))"

lemma media_of_text_inverse: "media_text (media_of_text t) = t"
  by (induction t) (simp_all add: media_text_def media_of_text_def unat_of_nat take_bit_nat_eq_self)

definition example_media :: bytes where
  "example_media = media_of_text ''ftyp..moov..moof..mdat''"

lemma example_media_text: "media_text example_media = ''ftyp..moov..moof..mdat''"
  unfolding example_media_def by (rule media_of_text_inverse)

lemma example_media_ready: "initialized example_media \<and> has_fragment example_media"
  unfolding initialized_def has_fragment_def contains_atom_def find_atom_def example_media_text by simp

theorem first_media_complete_witness:
  "initialized example_media \<and> has_fragment example_media"
proof -
  have "read_first_media [ReadyNothing, ReadyData example_media] [] = Some (Inr example_media)"
    using example_media_ready by (simp add: read_first_media_def ready_limit_def ready_def)
  from first_media_complete[OF this] show ?thesis by (auto simp: example_media_def media_of_text_def ready_buffer_def)
qed

text \<open>A complete first fragment can be refused: the data already read is only looked at again after
  more data has come, so a probe that happened to read the whole first fragment fails with
  \<open>FFMPEG_NO_MEDIA_FRAGMENT\<close> when FFmpeg writes nothing more in time.\<close>

theorem complete_fragment_refused:
  assumes "initialized d" and "has_fragment d" and "length d < ready_limit"
  shows "read_first_media (replicate n ReadyNothing @ [ReadyDeadline]) d =
    Some (Inl (BridgeError 504 ''FFMPEG_NO_MEDIA_FRAGMENT''))"
  using assms by (induction n) (simp_all add: read_first_media_def not_ready_def)

theorem complete_fragment_refused_witness:
  "read_first_media (replicate 3 ReadyNothing @ [ReadyDeadline]) example_media =
    Some (Inl (BridgeError 504 ''FFMPEG_NO_MEDIA_FRAGMENT''))"
  using example_media_ready
  by (intro complete_fragment_refused) (simp_all add: example_media_def media_of_text_def ready_limit_def)

text \<open>Reading the stream times out exactly when no round before the deadline had data: any data read
  before the deadline is delivered, however many rounds passed without any.\<close>

lemma read_output_skip:
  "read_output deadline (map (\<lambda>t. OutputRound t (-1, [])) ts @ rs) =
     (if \<exists>t\<in>set ts. t \<ge> deadline then Some (Inl (BridgeError 504 ''FFMPEG_OUTPUT_TIMEOUT''))
      else read_output deadline rs)"
  by (induction ts) auto

theorem output_timeout_exact:
  "read_output (start + stall) (map (\<lambda>t. OutputRound t (read_output_timeout 0 (n, d))) ts @ [OutputRound t (read_output_timeout 1 (int (length d), d))]) =
     (if \<exists>t'\<in>set (ts @ [t]). t' - start \<ge> stall then Some (Inl (BridgeError 504 ''FFMPEG_OUTPUT_TIMEOUT''))
      else Some (Inr d))"
proof -
  have "read_output_timeout 0 (n, d) = (-1, [])" "read_output_timeout 1 (int (length d), d) = (int (length d), d)"
    by (simp_all add: read_output_timeout_def)
  then show ?thesis by (auto simp: read_output_skip algebra_simps)
qed

end
