(* ===== verification/Socket_IO.thy ===== *)
theory Socket_IO
  imports Os_Calls Stream_Request Byte_Queue
begin

text \<open>
  The bridge's own socket operations: the check whether the browser is still there, writing with a
  stall limit, probing the device's port, and creating the listener.  What the system calls answer
  and what the clock says are arguments; descriptors that are opened and closed are recorded.
\<close>

section \<open>Is the client still there?\<close>

datatype poll_outcome =
    PollFailed bool            \<comment> \<open>negative; interrupted or not\<close>
  | PollQuiet
  | PollReady bool bool        \<comment> \<open>\<open>POLLERR | POLLHUP | POLLNVAL\<close>; readable\<close>

datatype peek_outcome = PeekClosed | PeekData | PeekWouldBlock | PeekInterrupted | PeekFailed

definition check_video_client :: "platform \<Rightarrow> bool \<Rightarrow> poll_outcome \<Rightarrow> peek_outcome \<Rightarrow> unit res" where
  "check_video_client pf running poll_result peek =
     (if \<not> running then Inl ClientDisconnected
      else case poll_result of
        PollFailed interrupted \<Rightarrow>
          if pf = Linux \<and> interrupted then Inr () else Inl ClientDisconnected
      | PollQuiet \<Rightarrow> Inr ()
      | PollReady broken readable \<Rightarrow>
          if broken then Inl ClientDisconnected
          else if readable then
            (case peek of
               PeekClosed \<Rightarrow> Inl ClientDisconnected
             | PeekData \<Rightarrow> Inr ()
             | PeekWouldBlock \<Rightarrow> Inr ()
             | PeekInterrupted \<Rightarrow> if pf = Linux then Inr () else Inl ClientDisconnected
             | PeekFailed \<Rightarrow> Inl ClientDisconnected)
          else Inr ())"

section \<open>Writing\<close>

text \<open>A round of \<open>write_socket_all\<close>, with the time it reads.  A \<open>send\<close> is offered up to 64 KiB and
  accepts between one byte and what it is offered.\<close>

datatype send_round =
    SendStopping
  | Sent nat int               \<comment> \<open>bytes accepted, time\<close>
  | SendBlocked "unit res" int \<comment> \<open>the check of the client, time\<close>
  | SendInterrupted            \<comment> \<open>\<open>EINTR\<close>, Linux\<close>
  | SendFailed                 \<comment> \<open>anything else, a count of 0 included\<close>

fun write_socket_all :: "int \<Rightarrow> send_round list \<Rightarrow> int \<Rightarrow> bytes \<Rightarrow> bytes \<times> bool res option" where
  "write_socket_all stall_ms [] since d = ([], if d = [] then Some (Inr True) else None)"
| "write_socket_all stall_ms (r # rs) since d =
     (if d = [] then ([], Some (Inr True))
      else case r of
        SendStopping \<Rightarrow> ([], Some (Inr False))
      | Sent n now \<Rightarrow>
          (case write_socket_all stall_ms rs now (drop n d) of (out, res) \<Rightarrow> (take n d @ out, res))
      | SendBlocked client now \<Rightarrow>
          (case client of
             Inl f \<Rightarrow> ([], Some (Inl f))
           | Inr _ \<Rightarrow>
               if now - since \<ge> stall_ms then ([], Some (Inl (BridgeError 504 ''CLIENT_WRITE_TIMEOUT'')))
               else write_socket_all stall_ms rs since d)
      | SendInterrupted \<Rightarrow> write_socket_all stall_ms rs since d
      | SendFailed \<Rightarrow> ([], Some (Inr False)))"

text \<open>\<open>send_text\<close>.\<close>

definition send_all :: "int \<Rightarrow> send_round list \<Rightarrow> int \<Rightarrow> bytes \<Rightarrow> bytes \<times> unit res option" where
  "send_all stall_ms rs start d =
     (case write_socket_all stall_ms rs start d of
        (out, None) \<Rightarrow> (out, None)
      | (out, Some (Inl f)) \<Rightarrow> (out, Some (Inl f))
      | (out, Some (Inr whole)) \<Rightarrow> (out, Some (if whole then Inr () else Inl ClientDisconnected)))"

section \<open>Probing the device\<close>

datatype connect_outcome = Connected | ConnectPending | ConnectFailed int

datatype pending_outcome =
    PollWritable "int option"  \<comment> \<open>\<open>SO_ERROR\<close>, if \<open>getsockopt\<close> succeeds\<close>
  | PollTimedOut
  | PollError int

record address_env =
  ae_elapsed :: int            \<comment> \<open>milliseconds since the start, at the top of the round\<close>
  ae_socket :: "int option"
  ae_nonblocking :: bool
  ae_connect :: connect_outcome
  ae_pending :: pending_outcome

text \<open>The outcome for one address: connected or not; descriptors opened and closed.\<close>

definition try_address :: "address_env \<Rightarrow> bool \<times> os_call list" where
  "try_address a =
     (case ae_socket a of
        None \<Rightarrow> (False, [])
      | Some fd \<Rightarrow>
          if \<not> ae_nonblocking a then (False, [OpenFd fd, CloseFd fd])
          else (case ae_connect a of
                  Connected \<Rightarrow> (True, [OpenFd fd, CloseFd fd])
                | ConnectPending \<Rightarrow> (ae_pending a = PollWritable (Some 0), [OpenFd fd, CloseFd fd])
                | ConnectFailed _ \<Rightarrow> (False, [OpenFd fd, CloseFd fd])))"

fun probe_addresses :: "int \<Rightarrow> address_env list \<Rightarrow> bool \<times> os_call list" where
  "probe_addresses timeout_ms [] = (False, [])"
| "probe_addresses timeout_ms (a # as) =
     (if timeout_ms - ae_elapsed a \<le> 0 then (False, [])
      else case try_address a of
        (True, cs) \<Rightarrow> (True, cs)
      | (False, cs) \<Rightarrow> (case probe_addresses timeout_ms as of (r, cs') \<Rightarrow> (r, cs @ cs')))"

definition nvr_unreachable :: failure where
  "nvr_unreachable = BridgeError 502 ''NVR_UNREACHABLE''"

text \<open>\<open>None\<close> is a \<open>getaddrinfo\<close> that fails.\<close>

definition probe_nvr_endpoint :: "int \<Rightarrow> address_env list option \<Rightarrow> unit res \<times> os_call list" where
  "probe_nvr_endpoint timeout_ms addresses =
     (case addresses of
        None \<Rightarrow> (Inl nvr_unreachable, [])
      | Some as \<Rightarrow>
          (case probe_addresses timeout_ms as of
             (True, cs) \<Rightarrow> (Inr (), cs)
           | (False, cs) \<Rightarrow> (Inl nvr_unreachable, cs)))"

section \<open>The listener\<close>

record listen_env =
  le_socket :: "int option"
  le_option :: bool            \<comment> \<open>\<open>SO_REUSEADDR\<close> or \<open>SO_EXCLUSIVEADDRUSE\<close>\<close>
  le_listen :: bool            \<comment> \<open>\<open>bind\<close> and \<open>listen\<close>\<close>

fun listen_on :: "listen_env list \<Rightarrow> int option \<times> os_call list" where
  "listen_on [] = (None, [])"
| "listen_on (a # as) =
     (case le_socket a of
        None \<Rightarrow> listen_on as
      | Some fd \<Rightarrow>
          if le_option a \<and> le_listen a then (Some fd, [OpenFd fd])
          else (case listen_on as of (r, cs) \<Rightarrow> (r, [OpenFd fd, CloseFd fd] @ cs)))"

definition bind_failed :: failure where
  "bind_failed = BridgeError 500 ''BIND_FAILED''"

definition create_listener :: "listen_env list option \<Rightarrow> int res \<times> os_call list" where
  "create_listener addresses =
     (case addresses of
        None \<Rightarrow> (Inl bind_failed, [])
      | Some as \<Rightarrow>
          (case listen_on as of
             (None, cs) \<Rightarrow> (Inl bind_failed, cs)
           | (Some fd, cs) \<Rightarrow> (Inr fd, cs)))"

section \<open>Lemmas\<close>

lemma write_prefix: "prefix (fst (write_socket_all stall rs since d)) d"
proof (induction stall rs since d rule: write_socket_all.induct)
  case (2 stall r rs since d)
  show ?case
  proof (cases r)
    case (Sent n now)
    have "prefix (fst (write_socket_all stall rs now (drop n d))) (drop n d)" if "d \<noteq> []"
      using 2(1)[OF that Sent] .
    then have "prefix (take n d @ fst (write_socket_all stall rs now (drop n d))) d" if "d \<noteq> []"
      using that by (metis append_take_drop_id same_prefix_prefix)
    then show ?thesis using Sent by (auto simp: case_prod_beta)
  qed (use 2 in \<open>auto split: sum.split\<close>)
qed simp

text \<open>Every step of the loop, for properties of its result.\<close>

lemma write_complete:
  "snd (write_socket_all stall rs since d) = Some (Inr True) \<Longrightarrow> fst (write_socket_all stall rs since d) = d"
proof (induction stall rs since d rule: write_socket_all.induct)
  case (2 stall r rs since d)
  show ?case
  proof (cases r)
    case (Sent n now)
    then show ?thesis using 2 by (auto simp: case_prod_beta split: if_splits)
  qed (use 2 in \<open>auto split: sum.splits if_splits\<close>)
qed (simp split: if_splits)

text \<open>The time of the last progress, as the loop sees it.\<close>

fun last_progress :: "int \<Rightarrow> send_round list \<Rightarrow> int" where
  "last_progress since [] = since"
| "last_progress since (Sent n now # rs) = last_progress now rs"
| "last_progress since (_ # rs) = last_progress since rs"

lemma write_timeout:
  assumes "snd (write_socket_all stall rs since d) = Some (Inl (BridgeError 504 ''CLIENT_WRITE_TIMEOUT''))"
    and "\<forall>r\<in>set rs. \<forall>f now. r = SendBlocked (Inl f) now \<longrightarrow> f = ClientDisconnected"
  shows "\<exists>n<length rs. \<exists>now. rs ! n = SendBlocked (Inr ()) now \<and> now - last_progress since (take n rs) \<ge> stall"
  using assms
proof (induction stall rs since d rule: write_socket_all.induct)
  case (1 stall since d)
  then show ?case by (simp split: if_splits)
next
  case (2 stall r rs since d)
  have d: "d \<noteq> []" using 2(4) by auto
  have later: "\<exists>n<length (r # rs). \<exists>now. (r # rs) ! n = SendBlocked (Inr ()) now \<and>
      now - last_progress since (take n (r # rs)) \<ge> stall"
    if "\<exists>n<length rs. \<exists>now. rs ! n = SendBlocked (Inr ()) now \<and> now - last_progress since' (take n rs) \<ge> stall"
      and "\<And>rs. last_progress since (r # rs) = last_progress since' rs" for since'
    using that by (metis Suc_less_eq length_Cons nth_Cons_Suc take_Suc_Cons)
  have rest: "\<forall>r\<in>set rs. \<forall>f now. r = SendBlocked (Inl f) now \<longrightarrow> f = ClientDisconnected" using 2(5) by simp
  show ?case
  proof (cases r)
    case SendStopping
    then show ?thesis using 2(4) d by simp
  next
    case (Sent n now)
    show ?thesis
      by (rule later[OF 2(1)[OF d Sent _ rest]]) (use Sent 2(4) d in \<open>auto simp: case_prod_beta\<close>)
  next
    case (SendBlocked c now)
    show ?thesis
    proof (cases c)
      case (Inl f)
      then show ?thesis using 2(4,5) d SendBlocked by simp
    next
      case (Inr u)
      show ?thesis
      proof (cases "now - since \<ge> stall")
        case True
        then show ?thesis using SendBlocked Inr by (intro exI[of _ 0]) simp
      next
        case False
        show ?thesis
          by (rule later[OF 2(2)[OF d SendBlocked Inr False _ rest]]) (use SendBlocked Inr False 2(4) d in auto)
      qed
    qed
  next
    case SendInterrupted
    show ?thesis
      by (rule later[OF 2(3)[OF d SendInterrupted _ rest]]) (use SendInterrupted 2(4) d in auto)
  next
    case SendFailed
    then show ?thesis using 2(4) d by simp
  qed
qed

lemma try_address_track: "track_os (S, c) (snd (try_address a)) = Some (S, c)"
  by (auto simp: try_address_def split: option.split connect_outcome.split)

lemma probe_addresses_track: "track_os (S, c) (snd (probe_addresses t as)) = Some (S, c)"
proof (induction "as")
  case (Cons a "as")
  then show ?case
    using try_address_track[of S c a]
    by (cases "try_address a"; cases "fst (try_address a)") (auto simp: case_prod_beta track_os_append)
qed simp

lemma listen_on_track:
  "track_os (S, c) (snd (listen_on as)) =
     Some (S + (case fst (listen_on as) of None \<Rightarrow> {#} | Some fd \<Rightarrow> {#fd#}), c)"
  by (induction "as" arbitrary: S) (auto simp: case_prod_beta split: option.split)

section \<open>Properties\<close>

text \<open>Writing to the browser keeps the bytes in order: what the socket accepted is always a prefix of the
  data, and success means all of it.  The write timeout is thrown only when the browser has accepted
  nothing for the configured time, counted from the last byte it accepted, not from the start.\<close>

theorem socket_write_sound:
  assumes "write_socket_all stall rs start d = (out, r)"
    and "\<forall>x\<in>set rs. \<forall>f now. x = SendBlocked (Inl f) now \<longrightarrow> f = ClientDisconnected"
  shows "prefix out d \<and> (r = Some (Inr True) \<longrightarrow> out = d) \<and>
    (r = Some (Inl (BridgeError 504 ''CLIENT_WRITE_TIMEOUT'')) \<longrightarrow>
      (\<exists>n<length rs. \<exists>now. rs ! n = SendBlocked (Inr ()) now \<and> now - last_progress start (take n rs) \<ge> stall))"
  using assms write_prefix[of stall rs start d] write_complete[of stall rs start d] write_timeout[of stall rs start d]
  by auto

theorem socket_write_sound_witness:
  "prefix [1] [1, 2 :: 8 word] \<and>
   (\<exists>n<2. \<exists>now. [Sent 1 10, SendBlocked (Inr ()) 70] ! n = SendBlocked (Inr ()) now \<and>
      now - last_progress 0 (take n [Sent 1 10, SendBlocked (Inr ()) 70]) \<ge> 60)"
  using socket_write_sound[of 60 "[Sent 1 10, SendBlocked (Inr ()) 70]" 0 "[1, 2]"] by (simp add: numeral_2_eq_2)

text \<open>A slow but living browser is not cut off: as long as it accepts something in every interval shorter
  than the limit, the write neither fails nor times out before all data is sent.\<close>

lemma blocked_rounds:
  "\<forall>t\<in>set ts. t - since < stall \<Longrightarrow>
   write_socket_all stall (map (\<lambda>t. SendBlocked (Inr ()) t) ts @ rs) since d =
     (if d = [] then ([], Some (Inr True)) else write_socket_all stall rs since d)"
proof (induction ts)
  case Nil
  then show ?case by (cases rs) simp_all
qed auto

text \<open>A round of the browser: times at which it accepts nothing, then one at which it accepts bytes.\<close>

fun slow_rounds :: "(int list \<times> nat \<times> int) list \<Rightarrow> send_round list" where
  "slow_rounds [] = []"
| "slow_rounds ((ts, n, now) # xs) = map (\<lambda>t. SendBlocked (Inr ()) t) ts @ [Sent n now] @ slow_rounds xs"

fun slow_enough :: "int \<Rightarrow> int \<Rightarrow> (int list \<times> nat \<times> int) list \<Rightarrow> bool" where
  "slow_enough stall since [] = True"
| "slow_enough stall since ((ts, n, now) # xs) =
     ((\<forall>t\<in>set ts. t - since < stall) \<and> n > 0 \<and> slow_enough stall now xs)"

theorem slow_client_served:
  assumes "slow_enough stall since xs" and "length d \<le> sum_list (map (fst \<circ> snd) xs)"
  shows "write_socket_all stall (slow_rounds xs) since d = (d, Some (Inr True))"
  using assms
proof (induction xs arbitrary: since d)
  case Nil
  then show ?case by simp
next
  case (Cons x xs)
  obtain ts n now where x: "x = (ts, n, now)" by (cases x) auto
  have "write_socket_all stall (slow_rounds xs) now (drop n d) = (drop n d, Some (Inr True))"
    using Cons.prems x by (intro Cons.IH) auto
  then show ?case using Cons.prems x by (auto simp: blocked_rounds)
qed

theorem slow_client_served_witness:
  "write_socket_all 60 (slow_rounds [([10, 50], 1, 55), ([100], 2, 110)]) 0 [1, 2, 3] = ([1, 2, 3], Some (Inr True))"
  by (rule slow_client_served) simp_all


text \<open>The probe reports a device as reachable exactly when an address answers in time: there is one whose
  connection comes about, and every address before it was tried, none of them answering.\<close>

theorem probe_exact:
  "fst (probe_nvr_endpoint timeout_ms (Some as)) = Inr () \<longleftrightarrow>
     (\<exists>k<length as. fst (try_address (as ! k)) \<and> list_all (\<lambda>a. ae_elapsed a < timeout_ms) (take (Suc k) as))"
proof -
  have "fst (probe_addresses timeout_ms as) \<longleftrightarrow>
      (\<exists>k<length as. fst (try_address (as ! k)) \<and> list_all (\<lambda>a. ae_elapsed a < timeout_ms) (take (Suc k) as))"
  proof (induction "as")
    case (Cons a "as")
    have "(\<exists>k<length (a # as). fst (try_address ((a # as) ! k)) \<and> list_all (\<lambda>a. ae_elapsed a < timeout_ms) (take (Suc k) (a # as))) \<longleftrightarrow>
        ae_elapsed a < timeout_ms \<and> (fst (try_address a) \<or>
          (\<exists>k<length as. fst (try_address (as ! k)) \<and> list_all (\<lambda>a. ae_elapsed a < timeout_ms) (take (Suc k) as)))"
      by (auto simp: less_Suc_eq_0_disj)
    then show ?case using Cons.IH
      by (cases "try_address a"; cases "fst (try_address a)") (auto simp: case_prod_beta)
  qed simp
  moreover have "fst (probe_nvr_endpoint timeout_ms (Some as)) = Inr () \<longleftrightarrow> fst (probe_addresses timeout_ms as)"
    by (auto simp: probe_nvr_endpoint_def split: prod.split bool.split)
  ultimately show ?thesis by simp
qed

end
