(* ===== verification/Exception_State.thy ===== *)
theory Exception_State
  imports Bridge_Prelude
begin

text \<open>
  Code that changes a state and may throw: a computation takes a state and returns a value or a
  failure, and the state at that moment.  Sequencing, handlers, and a small Hoare logic with one
  postcondition for the normal and one for the exceptional exit.
\<close>

named_theorems spec_rules \<open>rules that take a computation apart\<close>

type_synonym ('s, 'a) comp = "'s \<Rightarrow> 'a res \<times> 's"

definition ret :: "'a \<Rightarrow> ('s, 'a) comp" where
  "ret x = (\<lambda>s. (Inr x, s))"

definition throw :: "failure \<Rightarrow> ('s, 'a) comp" where
  "throw f = (\<lambda>s. (Inl f, s))"

definition asks :: "('s \<Rightarrow> 'a) \<Rightarrow> ('s, 'a) comp" where
  "asks g = (\<lambda>s. (Inr (g s), s))"

definition modify :: "('s \<Rightarrow> 's) \<Rightarrow> ('s, unit) comp" where
  "modify g = (\<lambda>s. (Inr (), g s))"

definition andthen :: "('s, 'a) comp \<Rightarrow> ('a \<Rightarrow> ('s, 'b) comp) \<Rightarrow> ('s, 'b) comp" where
  "andthen m k = (\<lambda>s. case m s of (Inl f, s) \<Rightarrow> (Inl f, s) | (Inr x, s) \<Rightarrow> k x s)"

definition seq :: "('s, 'a) comp \<Rightarrow> ('s, 'b) comp \<Rightarrow> ('s, 'b) comp" where
  "seq m n = andthen m (\<lambda>_. n)"

definition catch :: "('s, 'a) comp \<Rightarrow> (failure \<Rightarrow> ('s, 'a) comp) \<Rightarrow> ('s, 'a) comp" where
  "catch m h = (\<lambda>s. case m s of (Inl f, s) \<Rightarrow> h f s | (Inr x, s) \<Rightarrow> (Inr x, s))"

definition throw_if :: "failure option \<Rightarrow> ('s, unit) comp" where
  "throw_if f = (case f of Some f \<Rightarrow> throw f | None \<Rightarrow> ret ())"

definition of_res :: "'a res \<Rightarrow> ('s, 'a) comp" where
  "of_res r = (case r of Inl f \<Rightarrow> throw f | Inr x \<Rightarrow> ret x)"

lemmas comp_defs = ret_def throw_def asks_def modify_def andthen_def seq_def catch_def throw_if_def of_res_def

section \<open>Hoare triples\<close>

definition spec :: "('s \<Rightarrow> bool) \<Rightarrow> ('s, 'a) comp \<Rightarrow> ('a \<Rightarrow> 's \<Rightarrow> bool) \<Rightarrow> (failure \<Rightarrow> 's \<Rightarrow> bool) \<Rightarrow> bool" where
  "spec P m Q R \<longleftrightarrow> (\<forall>s. P s \<longrightarrow> (case m s of (Inl f, s') \<Rightarrow> R f s' | (Inr x, s') \<Rightarrow> Q x s'))"

lemma specI: "(\<And>s. P s \<Longrightarrow> (case m s of (Inl f, s') \<Rightarrow> R f s' | (Inr x, s') \<Rightarrow> Q x s')) \<Longrightarrow> spec P m Q R"
  by (simp add: spec_def)

lemma specD: "spec P m Q R \<Longrightarrow> P s \<Longrightarrow> (case m s of (Inl f, s') \<Rightarrow> R f s' | (Inr x, s') \<Rightarrow> Q x s')"
  by (simp add: spec_def)

lemma spec_weaken:
  "spec P' m Q' R' \<Longrightarrow> (\<And>s. P s \<Longrightarrow> P' s) \<Longrightarrow> (\<And>x s. Q' x s \<Longrightarrow> Q x s) \<Longrightarrow> (\<And>f s. R' f s \<Longrightarrow> R f s) \<Longrightarrow> spec P m Q R"
  by (fastforce simp: spec_def split: prod.splits sum.splits)

lemma spec_pre: "spec P' m Q R \<Longrightarrow> (\<And>s. P s \<Longrightarrow> P' s) \<Longrightarrow> spec P m Q R"
  by (erule spec_weaken) auto

lemma spec_ret [spec_rules]: "(\<And>s. P s \<Longrightarrow> Q x s) \<Longrightarrow> spec P (ret x) Q R"
  by (simp add: spec_def ret_def)

lemma spec_throw [spec_rules]: "(\<And>s. P s \<Longrightarrow> R f s) \<Longrightarrow> spec P (throw f) Q R"
  by (simp add: spec_def throw_def)

lemma spec_asks [spec_rules]: "(\<And>s. P s \<Longrightarrow> Q (g s) s) \<Longrightarrow> spec P (asks g) Q R"
  by (simp add: spec_def asks_def)

lemma spec_modify [spec_rules]: "(\<And>s. P s \<Longrightarrow> Q () (g s)) \<Longrightarrow> spec P (modify g) Q R"
  by (simp add: spec_def modify_def)

lemma spec_andthen: "spec P m Q' R \<Longrightarrow> (\<And>x. spec (Q' x) (k x) Q R) \<Longrightarrow> spec P (andthen m k) Q R"
  by (fastforce simp: spec_def andthen_def split: prod.splits sum.splits)

lemma spec_seq: "spec P m (\<lambda>_. Q') R \<Longrightarrow> spec Q' n Q R \<Longrightarrow> spec P (seq m n) Q R"
  by (simp add: seq_def spec_andthen)

lemma spec_catch: "spec P m Q R' \<Longrightarrow> (\<And>f. spec (R' f) (h f) Q R) \<Longrightarrow> spec P (catch m h) Q R"
  by (fastforce simp: spec_def catch_def split: prod.splits sum.splits)

lemma spec_throw_if [spec_rules]:
  "(\<And>s. P s \<Longrightarrow> c = None \<Longrightarrow> Q () s) \<Longrightarrow> (\<And>s f. P s \<Longrightarrow> c = Some f \<Longrightarrow> R f s) \<Longrightarrow> spec P (throw_if c) Q R"
  by (auto simp: spec_def throw_if_def throw_def ret_def split: option.split)

lemma spec_of_res [spec_rules]:
  "(\<And>s x. P s \<Longrightarrow> c = Inr x \<Longrightarrow> Q x s) \<Longrightarrow> (\<And>s f. P s \<Longrightarrow> c = Inl f \<Longrightarrow> R f s) \<Longrightarrow> spec P (of_res c) Q R"
  by (auto simp: spec_def of_res_def throw_def ret_def split: sum.split)

lemma spec_if [spec_rules]:
  "(b \<Longrightarrow> spec P m Q R) \<Longrightarrow> (\<not> b \<Longrightarrow> spec P n Q R) \<Longrightarrow> spec P (if b then m else n) Q R"
  by simp

lemma spec_option [spec_rules]:
  "(x = None \<Longrightarrow> spec P m Q R) \<Longrightarrow> (\<And>y. x = Some y \<Longrightarrow> spec P (n y) Q R) \<Longrightarrow>
   spec P (case x of None \<Rightarrow> m | Some y \<Rightarrow> n y) Q R"
  by (cases x) auto

lemma spec_conj: "spec P m Q R \<Longrightarrow> spec P m Q' R' \<Longrightarrow> spec P m (\<lambda>x s. Q x s \<and> Q' x s) (\<lambda>f s. R f s \<and> R' f s)"
  by (fastforce simp: spec_def split: prod.splits sum.splits)

lemma spec_false: "spec (\<lambda>_. False) m Q R"
  by (simp add: spec_def)

lemma spec_cond: "(b \<Longrightarrow> spec P m Q R) \<Longrightarrow> spec (\<lambda>s. P s \<and> b) m Q R"
  by (auto simp: spec_def)

text \<open>Sequential code computes step by step.\<close>

lemma comp_eval [simp]:
  "ret x s = (Inr x, s)" "throw f s = (Inl f, s)" "asks g s = (Inr (g s), s)" "modify g' s = (Inr (), g' s)"
  by (simp_all add: comp_defs)

lemma andthen_eval [simp]:
  "m s = (Inr x, s') \<Longrightarrow> andthen m k s = k x s'" "m s = (Inl f, s') \<Longrightarrow> andthen m k s = (Inl f, s')"
  "m s = (Inr x, s') \<Longrightarrow> seq m n s = n s'" "m s = (Inl f, s') \<Longrightarrow> seq m n s = (Inl f, s')"
  by (simp_all add: comp_defs)

lemma catch_eval [simp]:
  "m s = (Inr x, s') \<Longrightarrow> catch m h s = (Inr x, s')" "m s = (Inl f, s') \<Longrightarrow> catch m h s = h f s'"
  by (simp_all add: comp_defs)

end
