(* ===== verification/Video_Pipeline.thy ===== *)
theory Video_Pipeline
  imports Exception_State Ffmpeg_Output Codec_Cache Session_Registry
begin

text \<open>
  \<open>handle_video\<close>: from the granted lease to its return.  The handler decides how the video is produced
  (copied or transcoded, in hardware or software), tries again when a pipeline does not come up, and
  streams.  The operations of \<open>HcSession\<close> and \<open>FfmpegProcess\<close> it calls are modelled in their own
  theories; here their outcomes are arguments, one per object and call, and what the handler does to
  the outside is a trace of actions.
\<close>

section \<open>State and environment\<close>

datatype video_action =
    CreateSession nat
  | StartSession nat
  | FreeSession nat
  | StartFfmpeg nat output_mode transcode_plan
  | StopFfmpeg nat
  | OutputReady
  | SendHeaders output_mode bytes
  | SendChunk bytes
  | SendLast
  | PublishEnd stream_end_reason
  | ReturnLease

record pipeline =
  vp_session :: "(nat \<times> bool) option"   \<comment> \<open>the session and whether its stream is started\<close>
  vp_sessions :: nat                     \<comment> \<open>sessions created so far\<close>
  vp_probe :: "nat option"
  vp_ffmpeg :: "(nat \<times> bool) option"    \<comment> \<open>the process and whether it encodes in hardware\<close>
  vp_ffmpegs :: nat
  vp_codec :: video_codec
  vp_mode :: output_mode
  vp_prefix :: bytes
  vp_restart :: bool
  vp_cache :: codec_cache
  vp_disk :: "string option"
  vp_response_started :: bool
  vp_status_published :: bool
  vp_actions :: "video_action list"

type_synonym 'a video = "(pipeline, 'a) comp"

datatype stream_round =
    ReadThrows failure
  | ReadEnds bool                        \<comment> \<open>a count of 0 or less; \<open>g_running\<close>\<close>
  | ReadGives bytes "failure option"     \<comment> \<open>data, and what \<open>send_chunk\<close> throws\<close>

record video_env =
  ve_prepare :: "nat \<Rightarrow> failure option"           \<comment> \<open>by number of the session\<close>
  ve_configured :: "nat \<Rightarrow> video_codec"
  ve_start :: "nat \<Rightarrow> failure option"
  ve_construct :: "nat \<Rightarrow> failure option"         \<comment> \<open>by number of the process, with \<open>start_pump\<close>\<close>
  ve_initial :: "nat \<Rightarrow> bytes res"
  ve_media :: "nat \<Rightarrow> bytes \<Rightarrow> bytes res"
  ve_clock :: "nat \<Rightarrow> int"
  ve_persist :: "nat \<Rightarrow> persist_outcome"
  ve_headers :: "failure option"
  ve_first_chunk :: "failure option"
  ve_rounds :: "stream_round list"               \<comment> \<open>behind the last one \<open>g_running\<close> is false\<close>
  ve_last :: "failure option"
  ve_running :: bool                             \<comment> \<open>when an exception is handled\<close>
  ve_cancelled :: bool                           \<comment> \<open>the lease, when the status is published\<close>
  ve_session_end :: stream_end_reason
  ve_input_end :: stream_end_reason

definition new_pipeline :: "codec_cache \<Rightarrow> string option \<Rightarrow> pipeline" where
  "new_pipeline cache disk =
     \<lparr>vp_session = None, vp_sessions = 0, vp_probe = None, vp_ffmpeg = None, vp_ffmpegs = 0,
      vp_codec = CodecUnknown, vp_mode = H264Transcode, vp_prefix = [], vp_restart = False,
      vp_cache = cache, vp_disk = disk, vp_response_started = False, vp_status_published = False,
      vp_actions = []\<rparr>"

definition act :: "video_action \<Rightarrow> pipeline \<Rightarrow> pipeline" where
  "act a p = p\<lparr>vp_actions := vp_actions p @ [a]\<rparr>"

definition is_bridge_error :: "failure \<Rightarrow> bool" where
  "is_bridge_error f = (case f of BridgeError _ _ \<Rightarrow> True | _ \<Rightarrow> False)"

section \<open>Sessions and processes\<close>

text \<open>\<open>make_unique<HcSession>\<close> and \<open>prepare\<close>.\<close>

definition open_session :: "video_env \<Rightarrow> unit video" where
  "open_session e =
     andthen (asks vp_sessions) (\<lambda>n.
       seq (modify (\<lambda>p. act (CreateSession n) (p\<lparr>vp_session := Some (n, False), vp_sessions := n + 1\<rparr>)))
           (throw_if (ve_prepare e n)))"

definition start_session :: "video_env \<Rightarrow> unit video" where
  "start_session e =
     andthen (asks (fst \<circ> the \<circ> vp_session)) (\<lambda>n.
       seq (throw_if (ve_start e n))
           (modify (\<lambda>p. act (StartSession n) (p\<lparr>vp_session := Some (n, True)\<rparr>))))"

definition drop_session :: "unit video" where
  "drop_session = modify (\<lambda>p. case vp_session p of
       None \<Rightarrow> p
     | Some (n, _) \<Rightarrow> act (FreeSession n) (p\<lparr>vp_session := None\<rparr>))"

definition drop_probe :: "unit video" where
  "drop_probe = modify (\<lambda>p. case vp_probe p of
       None \<Rightarrow> p
     | Some k \<Rightarrow> act (StopFfmpeg k) (p\<lparr>vp_probe := None\<rparr>))"

definition drop_ffmpeg :: "unit video" where
  "drop_ffmpeg = modify (\<lambda>p. case vp_ffmpeg p of
       None \<Rightarrow> p
     | Some (k, _) \<Rightarrow> act (StopFfmpeg k) (p\<lparr>vp_ffmpeg := None\<rparr>))"

text \<open>A process that cannot be constructed leaves nothing behind.\<close>

definition create_ffmpeg :: "video_env \<Rightarrow> output_mode \<Rightarrow> transcode_plan \<Rightarrow> nat video" where
  "create_ffmpeg e mode plan =
     andthen (asks vp_ffmpegs) (\<lambda>k.
       seq (modify (\<lambda>p. p\<lparr>vp_ffmpegs := k + 1\<rparr>))
         (seq (throw_if (ve_construct e k))
           (seq (modify (act (StartFfmpeg k mode plan))) (ret k))))"

text \<open>The lambda \<open>start_pipeline\<close>.\<close>

definition start_pipeline :: "video_env \<Rightarrow> hardware_backend \<Rightarrow> output_mode \<Rightarrow> bool \<Rightarrow> unit video" where
  "start_pipeline e hardware mode force_software =
     andthen (asks vp_codec) (\<lambda>codec.
       let plan = select_plan hardware mode (force_software \<or> codec \<noteq> H265)
       in andthen (create_ffmpeg e mode plan) (\<lambda>k.
            seq (modify (\<lambda>p. p\<lparr>vp_ffmpeg := Some (k, hardware_enabled plan)\<rparr>))
              (andthen (of_res (ve_media e k [])) (\<lambda>d. modify (\<lambda>p. p\<lparr>vp_prefix := d\<rparr>)))))"

text \<open>What a handler that goes back from hardware to software does.\<close>

definition software_fallback :: "video_env \<Rightarrow> hardware_backend \<Rightarrow> output_mode \<Rightarrow> failure \<Rightarrow> unit video" where
  "software_fallback e hardware mode f =
     andthen (asks vp_ffmpeg) (\<lambda>current.
       case current of
         None \<Rightarrow> throw f
       | Some k \<Rightarrow>
           if \<not> snd k then throw f
           else seq drop_ffmpeg (start_pipeline e hardware mode True))"

section \<open>The decision how to produce the video\<close>

definition store_codec :: "video_env \<Rightarrow> stream_request \<Rightarrow> nat \<Rightarrow> video_codec \<Rightarrow> unit video" where
  "store_codec e r i codec = modify (\<lambda>p.
     case set_codec (ve_clock e i) (ve_clock e (i + 1)) (ve_persist e i) r codec (vp_cache p) (vp_disk p) of
       (cache, disk) \<Rightarrow> p\<lparr>vp_cache := cache, vp_disk := disk\<rparr>)"

definition lookup_codec :: "video_env \<Rightarrow> stream_request \<Rightarrow> bool video" where
  "lookup_codec e r = (\<lambda>p.
     case try_get (ve_clock e 0) (ve_clock e 1) (ve_persist e 0) r (vp_cache p) (vp_disk p) of
       (hit, codec, cache, disk) \<Rightarrow> (Inr hit, p\<lparr>vp_codec := codec, vp_cache := cache, vp_disk := disk\<rparr>))"

text \<open>Probing: a session and a copying process, kept when its output can be used.\<close>

definition probe_codec :: "video_env \<Rightarrow> platform \<Rightarrow> hardware_backend \<Rightarrow> stream_request \<Rightarrow> unit video" where
  "probe_codec e pf hardware r =
     seq (start_session e)
       (andthen (create_ffmpeg e CopyMode (select_plan hardware CopyMode False)) (\<lambda>k.
          seq (modify (\<lambda>p. p\<lparr>vp_probe := Some k\<rparr>))
            (andthen (of_res (ve_initial e k)) (\<lambda>d.
               let codec = detect_video_codec d
               in seq (modify (\<lambda>p. p\<lparr>vp_codec := codec\<rparr>))
                    (seq (store_codec e r 4 codec)
                       (if codec = H264 \<and> h264_copy_allowed pf r
                        then modify (\<lambda>p. p\<lparr>vp_prefix := d, vp_ffmpeg := Some (k, False), vp_probe := None\<rparr>)
                        else if codec = H264 then modify (\<lambda>p. p\<lparr>vp_restart := True\<rparr>)
                        else ret ()))))))"

definition decide_codec :: "video_env \<Rightarrow> platform \<Rightarrow> hardware_backend \<Rightarrow> stream_request \<Rightarrow> unit video" where
  "decide_codec e pf hardware r =
     seq (open_session e)
       (andthen (lookup_codec e r) (\<lambda>hit.
          if hit then ret ()
          else andthen (asks (ve_configured e \<circ> fst \<circ> the \<circ> vp_session)) (\<lambda>configured.
            if configured \<noteq> CodecUnknown
            then seq (modify (\<lambda>p. p\<lparr>vp_codec := configured\<rparr>)) (store_codec e r 2 configured)
            else probe_codec e pf hardware r)))"

text \<open>The output mode, and a session whose stream runs.\<close>

definition settle_session :: "video_env \<Rightarrow> platform \<Rightarrow> stream_request \<Rightarrow> unit video" where
  "settle_session e pf r =
     seq (modify (\<lambda>p. p\<lparr>vp_mode := if vp_codec p = H264 \<and> h264_copy_allowed pf r then CopyMode else H264Transcode\<rparr>))
       (seq drop_probe
         (andthen (asks vp_restart) (\<lambda>restart.
            seq (if restart then seq drop_session (open_session e) else ret ())
              (andthen (asks vp_session) (\<lambda>session.
                 seq (if session = None then open_session e else ret ())
                   (andthen (asks (snd \<circ> the \<circ> vp_session)) (\<lambda>started.
                      if started then ret () else start_session e)))))))"

section \<open>Bringing the pipeline up\<close>

text \<open>The first attempt; the result says whether copying failed.\<close>

definition first_pipeline :: "video_env \<Rightarrow> hardware_backend \<Rightarrow> bool video" where
  "first_pipeline e hardware =
     andthen (asks vp_mode) (\<lambda>mode. andthen (asks vp_ffmpeg) (\<lambda>current.
       case current of
         Some k \<Rightarrow>
           catch (andthen (asks vp_prefix) (\<lambda>d.
                    andthen (of_res (ve_media e (fst k) d)) (\<lambda>d.
                      seq (modify (\<lambda>p. p\<lparr>vp_prefix := d\<rparr>)) (ret False))))
             (\<lambda>f. if \<not> is_bridge_error f \<or> mode \<noteq> CopyMode then throw f else ret True)
       | None \<Rightarrow>
           catch (seq (start_pipeline e hardware mode False) (ret False))
             (\<lambda>f. if \<not> is_bridge_error f then throw f
                  else if mode = CopyMode then ret True
                  else seq (software_fallback e hardware mode f) (ret False))))"

text \<open>Copying failed: a new session, and transcoding in software.\<close>

definition copy_fallback :: "video_env \<Rightarrow> hardware_backend \<Rightarrow> unit video" where
  "copy_fallback e hardware =
     seq drop_ffmpeg (seq drop_session (seq (open_session e) (seq (start_session e)
       (seq (modify (\<lambda>p. p\<lparr>vp_mode := H264Transcode\<rparr>)) (start_pipeline e hardware H264Transcode True)))))"

text \<open>The last check: a copied stream that turns out to be H.265 is transcoded after all.\<close>

definition correct_codec :: "video_env \<Rightarrow> hardware_backend \<Rightarrow> stream_request \<Rightarrow> unit video" where
  "correct_codec e hardware r =
     andthen (asks (\<lambda>p. vp_mode p = CopyMode \<and> detect_video_codec (vp_prefix p) = H265)) (\<lambda>wrong.
       if wrong then
         seq (modify (\<lambda>p. p\<lparr>vp_codec := H265\<rparr>))
           (seq (store_codec e r 6 H265)
             (seq drop_ffmpeg
               (seq (modify (\<lambda>p. p\<lparr>vp_mode := H264Transcode\<rparr>))
                 (catch (start_pipeline e hardware H264Transcode False)
                    (\<lambda>f. if is_bridge_error f then software_fallback e hardware H264Transcode f else throw f)))))
       else ret ())"

section \<open>Streaming and the end\<close>

definition resolve_end_reason :: "stream_end_reason option \<Rightarrow> stream_end_reason option \<Rightarrow> stream_end_reason" where
  "resolve_end_reason session ffmpeg =
     (case session of
        Some s \<Rightarrow> if s \<noteq> Active then s
                 else (case ffmpeg of Some i \<Rightarrow> if i = SdkDataTimeout then SdkDataTimeout else FfmpegExit
                                    | None \<Rightarrow> StreamEnded)
      | None \<Rightarrow> (case ffmpeg of Some i \<Rightarrow> if i = SdkDataTimeout then SdkDataTimeout else FfmpegExit
                              | None \<Rightarrow> StreamEnded))"

definition end_of_stream :: "video_env \<Rightarrow> bool \<Rightarrow> stream_end_reason video" where
  "end_of_stream e alive = asks (\<lambda>p.
     if alive then resolve_end_reason (map_option (\<lambda>_. ve_session_end e) (vp_session p))
                       (map_option (\<lambda>_. ve_input_end e) (vp_ffmpeg p))
     else ServerStopped)"

fun stream_loop :: "video_env \<Rightarrow> stream_round list \<Rightarrow> stream_end_reason video" where
  "stream_loop e [] = end_of_stream e False"
| "stream_loop e (ReadThrows f # rs) = throw f"
| "stream_loop e (ReadEnds alive # rs) = end_of_stream e alive"
| "stream_loop e (ReadGives d f # rs) =
     seq (modify (act (SendChunk d))) (seq (throw_if f) (stream_loop e rs))"

definition publish_status :: "video_env \<Rightarrow> stream_end_reason \<Rightarrow> unit video" where
  "publish_status e reason = modify (\<lambda>p.
     if vp_status_published p then p
     else act (PublishEnd (if ve_cancelled e then ManualCleanup else reason)) (p\<lparr>vp_status_published := True\<rparr>))"

definition respond :: "video_env \<Rightarrow> unit video" where
  "respond e =
     seq (modify (act OutputReady))
       (andthen (asks vp_mode) (\<lambda>mode. andthen (asks vp_prefix) (\<lambda>d.
         seq (modify (act (SendHeaders mode d)))
           (seq (throw_if (ve_headers e))
             (seq (modify (\<lambda>p. p\<lparr>vp_response_started := True\<rparr>))
               (seq (modify (act (SendChunk d)))
                 (seq (throw_if (ve_first_chunk e))
                   (andthen (stream_loop e (ve_rounds e)) (\<lambda>reason.
                      seq (publish_status e reason)
                        (seq (modify (act SendLast)) (throw_if (ve_last e))))))))))))"

definition produce :: "video_env \<Rightarrow> platform \<Rightarrow> hardware_backend \<Rightarrow> stream_request \<Rightarrow> unit video" where
  "produce e pf hardware r =
     seq (decide_codec e pf hardware r) (seq (settle_session e pf r)
       (andthen (first_pipeline e hardware) (\<lambda>fallback.
          seq (if fallback then copy_fallback e hardware else ret ())
            (seq (correct_codec e hardware r) (respond e)))))"

text \<open>The reason an exception stands for.\<close>

definition failure_reason :: "bool \<Rightarrow> failure \<Rightarrow> stream_end_reason" where
  "failure_reason alive f =
     (case f of
        ClientDisconnected \<Rightarrow> if alive then ClientReplaced else ServerStopped
      | BridgeError _ code \<Rightarrow>
          if code = ''FFMPEG_OUTPUT_TIMEOUT'' then FfmpegOutputTimeout
          else if code = ''CLIENT_WRITE_TIMEOUT'' then ClientWriteTimeout
          else StartupFailed
      | RuntimeError \<Rightarrow> if alive then StartupFailed else ServerStopped)"

text \<open>The scope: resources first, the lease last.\<close>

definition run_video :: "video_env \<Rightarrow> platform \<Rightarrow> hardware_backend \<Rightarrow> stream_request \<Rightarrow> unit video" where
  "run_video e pf hardware r = (\<lambda>p.
     case catch (produce e pf hardware r)
            (\<lambda>f. seq (publish_status e (failure_reason (ve_running e) f)) (throw f)) p of
       (result, p) \<Rightarrow>
         (result, snd (seq drop_probe (seq drop_ffmpeg (seq drop_session (modify (act ReturnLease)))) p)))"

section \<open>What is kept throughout\<close>

text \<open>
  A trace leaves a session (started or not) and a process, or nothing.  \<open>None\<close> is a violation: a second
  session or process, a process without a started session to feed it, a session freed while a process
  still pumps from its queue, the lease given back while something lives.
\<close>

fun track_video :: "(nat \<times> bool) option \<times> nat option \<Rightarrow> video_action list \<Rightarrow> ((nat \<times> bool) option \<times> nat option) option" where
  "track_video o' [] = Some o'"
| "track_video (s, f) (CreateSession n # as) = (if s = None then track_video (Some (n, False), f) as else None)"
| "track_video (s, f) (StartSession n # as) = (if s = Some (n, False) then track_video (Some (n, True), f) as else None)"
| "track_video (s, f) (FreeSession n # as) =
     (if map_option fst s = Some n \<and> f = None then track_video (None, f) as else None)"
| "track_video (s, f) (StartFfmpeg k _ _ # as) =
     (if map_option snd s = Some True \<and> f = None then track_video (s, Some k) as else None)"
| "track_video (s, f) (StopFfmpeg k # as) = (if f = Some k then track_video (s, None) as else None)"
| "track_video (s, f) (ReturnLease # as) = (if s = None \<and> f = None then track_video (s, f) as else None)"
| "track_video o' (_ # as) = track_video o' as"

lemma track_video_append: "track_video o' (as @ bs) = Option.bind (track_video o' as) (\<lambda>o'. track_video o' bs)"
  by (induction o' as rule: track_video.induct) auto

lemma track_video_step:
  "track_video o' as = Some (s, f) \<Longrightarrow> track_video o' (as @ [a]) = track_video (s, f) [a]"
  by (simp add: track_video_append)

fun is_output :: "video_action \<Rightarrow> bool" where
  "is_output (SendHeaders _ _) = True"
| "is_output (SendChunk _) = True"
| "is_output SendLast = True"
| "is_output (PublishEnd _) = True"
| "is_output _ = False"

definition outputs :: "pipeline \<Rightarrow> video_action list" where
  "outputs p = filter is_output (vp_actions p)"

definition first_of :: "'a option \<Rightarrow> 'a option \<Rightarrow> 'a option" where
  "first_of a b = (case a of Some x \<Rightarrow> Some x | None \<Rightarrow> b)"

lemma first_of_simps [simp]: "first_of None b = b" "first_of (Some x) b = Some x"
  by (simp_all add: first_of_def)

definition owned :: "pipeline \<Rightarrow> bool" where
  "owned p \<longleftrightarrow>
     track_video (None, None) (vp_actions p) =
       Some (vp_session p, first_of (vp_probe p) (map_option fst (vp_ffmpeg p))) \<and>
     (vp_probe p = None \<or> vp_ffmpeg p = None) \<and> ReturnLease \<notin> set (vp_actions p)"

text \<open>Nothing sent yet, and bounds on what was created.\<close>

definition quiet :: "nat \<Rightarrow> nat \<Rightarrow> pipeline \<Rightarrow> bool" where
  "quiet n k p \<longleftrightarrow> owned p \<and> outputs p = [] \<and> \<not> vp_status_published p \<and> \<not> vp_response_started p \<and>
     vp_sessions p \<le> n \<and> vp_ffmpegs p \<le> k"

definition decision :: "pipeline \<Rightarrow> video_codec \<times> output_mode \<times> bool" where
  "decision p = (vp_codec p, vp_mode p, vp_restart p)"

definition no_ffmpeg :: "pipeline \<Rightarrow> bool" where
  "no_ffmpeg p \<longleftrightarrow> vp_probe p = None \<and> vp_ffmpeg p = None"

definition session_is :: "bool \<Rightarrow> pipeline \<Rightarrow> bool" where
  "session_is started p \<longleftrightarrow> (\<exists>n. vp_session p = Some (n, started))"

lemmas pipeline_defs = quiet_def owned_def outputs_def decision_def no_ffmpeg_def session_is_def act_def

lemma quiet_mono: "quiet n k p \<Longrightarrow> n \<le> n' \<Longrightarrow> k \<le> k' \<Longrightarrow> quiet n' k' p"
  by (auto simp: quiet_def)

lemma open_session_spec:
  "spec (\<lambda>p. quiet n k p \<and> vp_session p = None \<and> no_ffmpeg p \<and> decision p = x)
     (open_session e)
     (\<lambda>_ p. quiet (Suc n) k p \<and> session_is False p \<and> no_ffmpeg p \<and> decision p = x) (\<lambda>_ p. quiet (Suc n) k p)"
  by (rule specI) (auto simp: open_session_def comp_defs pipeline_defs track_video_append split: option.split)

lemma start_session_spec:
  "spec (\<lambda>p. quiet n k p \<and> session_is False p \<and> no_ffmpeg p \<and> decision p = x)
     (start_session e)
     (\<lambda>_ p. quiet n k p \<and> session_is True p \<and> no_ffmpeg p \<and> decision p = x) (\<lambda>_ p. quiet n k p)"
  by (rule specI) (auto simp: start_session_def comp_defs pipeline_defs track_video_append split: option.split)

lemma drop_session_spec:
  "spec (\<lambda>p. quiet n k p \<and> no_ffmpeg p \<and> decision p = x) drop_session
     (\<lambda>_ p. quiet n k p \<and> vp_session p = None \<and> no_ffmpeg p \<and> decision p = x) R"
  by (rule specI) (auto simp: drop_session_def comp_defs pipeline_defs track_video_append split: option.splits)

lemma drop_probe_spec:
  "spec (\<lambda>p. quiet n k p \<and> session_is st p \<and> vp_ffmpeg p = f \<and> decision p = x) drop_probe
     (\<lambda>_ p. quiet n k p \<and> session_is st p \<and> vp_probe p = None \<and> vp_ffmpeg p = f \<and> decision p = x) R"
  by (rule specI) (auto simp: drop_probe_def comp_defs pipeline_defs track_video_append split: option.splits)

lemma drop_ffmpeg_spec:
  "spec (\<lambda>p. quiet n k p \<and> session_is st p \<and> vp_probe p = None \<and> decision p = x) drop_ffmpeg
     (\<lambda>_ p. quiet n k p \<and> session_is st p \<and> no_ffmpeg p \<and> decision p = x) R"
  by (rule specI) (auto simp: drop_ffmpeg_def comp_defs pipeline_defs track_video_append split: option.splits)

text \<open>A pipeline that is up: its data came from a read that waits for the first fragment.\<close>

definition up :: "video_env \<Rightarrow> nat \<Rightarrow> nat \<Rightarrow> video_codec \<times> output_mode \<times> bool \<Rightarrow> pipeline \<Rightarrow> bool" where
  "up e n k x p \<longleftrightarrow> quiet n k p \<and> session_is True p \<and> vp_probe p = None \<and> vp_ffmpeg p \<noteq> None \<and> decision p = x \<and>
     (\<exists>j i. ve_media e j i = Inr (vp_prefix p))"

definition attempted :: "nat \<Rightarrow> nat \<Rightarrow> video_codec \<times> output_mode \<times> bool \<Rightarrow> pipeline \<Rightarrow> bool" where
  "attempted n k x p \<longleftrightarrow> quiet n k p \<and> session_is True p \<and> vp_probe p = None \<and> decision p = x"

lemma start_pipeline_spec:
  "spec (\<lambda>p. quiet n k p \<and> session_is True p \<and> no_ffmpeg p \<and> decision p = x)
     (start_pipeline e hardware mode force)
     (\<lambda>_. up e n (Suc k) x) (\<lambda>_. attempted n (Suc k) x)"
  by (rule specI)
     (auto simp: start_pipeline_def create_ffmpeg_def comp_defs pipeline_defs up_def attempted_def
        track_video_append Let_def split: option.split sum.split)

lemma software_fallback_spec:
  "spec (attempted n k x) (software_fallback e hardware mode f) (\<lambda>_. up e n (Suc k) x) (\<lambda>_. quiet n (Suc k))"
  unfolding software_fallback_def
proof (rule spec_andthen[where Q' = "\<lambda>_. attempted n k x"])
  show "spec (attempted n k x) (asks vp_ffmpeg) (\<lambda>_. attempted n k x) (\<lambda>_. quiet n (Suc k))"
    by (rule spec_asks)
  fix current
  have "spec (attempted n k x) (seq drop_ffmpeg (start_pipeline e hardware mode True)) (\<lambda>_. up e n (Suc k) x) (\<lambda>_. quiet n (Suc k))"
  proof (rule spec_seq[OF spec_pre[OF drop_ffmpeg_spec[of n k True x]]])
    show "spec (\<lambda>p. quiet n k p \<and> session_is True p \<and> no_ffmpeg p \<and> decision p = x)
        (start_pipeline e hardware mode True) (\<lambda>_. up e n (Suc k) x) (\<lambda>_. quiet n (Suc k))"
      by (rule spec_weaken[OF start_pipeline_spec[of n k x e hardware mode True]]) (auto simp: attempted_def)
  qed (auto simp: attempted_def)
  then show "spec (attempted n k x)
      (case current of None \<Rightarrow> throw f
       | Some k \<Rightarrow> if \<not> snd k then throw f else seq drop_ffmpeg (start_pipeline e hardware mode True))
      (\<lambda>_. up e n (Suc k) x) (\<lambda>_. quiet n (Suc k))"
    by (auto simp: attempted_def intro!: spec_throw intro: quiet_mono split: option.split)
qed

section \<open>Stage by stage\<close>

text \<open>The states in which the codec has been decided.\<close>

definition allowed_copy :: "platform \<Rightarrow> stream_request \<Rightarrow> pipeline \<Rightarrow> bool" where
  "allowed_copy pf r p \<longleftrightarrow> vp_codec p = H264 \<and> h264_copy_allowed pf r"

definition decided :: "platform \<Rightarrow> stream_request \<Rightarrow> pipeline \<Rightarrow> bool" where
  "decided pf r p \<longleftrightarrow> quiet 1 1 p \<and>
     (session_is False p \<and> no_ffmpeg p \<and> \<not> vp_restart p \<and> vp_ffmpegs p = 0 \<or>
      session_is True p \<and> vp_probe p = None \<and> vp_ffmpeg p \<noteq> None \<and> \<not> vp_restart p \<and> allowed_copy pf r p \<or>
      session_is True p \<and> vp_probe p \<noteq> None \<and> vp_ffmpeg p = None \<and> \<not> allowed_copy pf r p)"

lemma store_codec_frame:
  "\<exists>cache disk. store_codec e r i codec p = (Inr (), p\<lparr>vp_cache := cache, vp_disk := disk\<rparr>)"
  by (auto simp: store_codec_def modify_def split: prod.split)

lemma store_codec_spec:
  assumes "\<And>p cache disk. P p \<Longrightarrow> Q () (p\<lparr>vp_cache := cache, vp_disk := disk\<rparr>)"
  shows "spec P (store_codec e r i codec) Q R"
proof (rule specI)
  fix s assume "P s"
  obtain cache disk where "store_codec e r i codec s = (Inr (), s\<lparr>vp_cache := cache, vp_disk := disk\<rparr>)"
    using store_codec_frame by blast
  then show "case store_codec e r i codec s of (Inl f, s') \<Rightarrow> R f s' | (Inr x, s') \<Rightarrow> Q x s'"
    using assms[OF \<open>P s\<close>] by simp
qed

lemma lookup_codec_spec:
  assumes "\<And>p hit codec cache disk. P p \<Longrightarrow> Q hit (p\<lparr>vp_codec := codec, vp_cache := cache, vp_disk := disk\<rparr>)"
  shows "spec P (lookup_codec e r) Q R"
  using assms by (auto simp: spec_def lookup_codec_def split: prod.split)

lemma quiet_fields [simp]:
  "quiet n k (p\<lparr>vp_cache := cache\<rparr>) = quiet n k p" "quiet n k (p\<lparr>vp_disk := disk\<rparr>) = quiet n k p"
  "quiet n k (p\<lparr>vp_codec := codec\<rparr>) = quiet n k p" "quiet n k (p\<lparr>vp_mode := mode\<rparr>) = quiet n k p"
  "quiet n k (p\<lparr>vp_restart := b\<rparr>) = quiet n k p" "quiet n k (p\<lparr>vp_prefix := d\<rparr>) = quiet n k p"
  by (simp_all add: pipeline_defs)

lemma session_is_fields [simp]:
  "session_is st (p\<lparr>vp_cache := cache\<rparr>) = session_is st p" "session_is st (p\<lparr>vp_disk := disk\<rparr>) = session_is st p"
  "session_is st (p\<lparr>vp_codec := codec\<rparr>) = session_is st p" "session_is st (p\<lparr>vp_mode := mode\<rparr>) = session_is st p"
  "session_is st (p\<lparr>vp_restart := b\<rparr>) = session_is st p" "session_is st (p\<lparr>vp_prefix := d\<rparr>) = session_is st p"
  "session_is st (p\<lparr>vp_ffmpeg := f\<rparr>) = session_is st p" "session_is st (p\<lparr>vp_probe := g\<rparr>) = session_is st p"
  by (simp_all add: session_is_def)

lemma no_ffmpeg_fields [simp]:
  "no_ffmpeg (p\<lparr>vp_cache := cache\<rparr>) = no_ffmpeg p" "no_ffmpeg (p\<lparr>vp_disk := disk\<rparr>) = no_ffmpeg p"
  "no_ffmpeg (p\<lparr>vp_codec := codec\<rparr>) = no_ffmpeg p" "no_ffmpeg (p\<lparr>vp_mode := mode\<rparr>) = no_ffmpeg p"
  "no_ffmpeg (p\<lparr>vp_restart := b\<rparr>) = no_ffmpeg p" "no_ffmpeg (p\<lparr>vp_prefix := d\<rparr>) = no_ffmpeg p"
  by (simp_all add: no_ffmpeg_def)

text \<open>The probing process, once it runs.\<close>

definition probing :: "pipeline \<Rightarrow> bool" where
  "probing p \<longleftrightarrow> quiet 1 1 p \<and> session_is True p \<and> vp_probe p \<noteq> None \<and> vp_ffmpeg p = None \<and> \<not> vp_restart p"

lemma create_probe_spec:
  "spec (\<lambda>p. quiet 1 0 p \<and> session_is True p \<and> no_ffmpeg p \<and> decision p = (c, m, False))
     (create_ffmpeg e mode plan) (\<lambda>k p. probing (p\<lparr>vp_probe := Some k\<rparr>)) (\<lambda>_. quiet 1 1)"
  by (rule specI)
     (auto simp: create_ffmpeg_def comp_defs pipeline_defs probing_def track_video_append Let_def split: option.split)

lemma probe_result_spec:
  "spec (\<lambda>p. probing p \<and> vp_probe p = Some k)
     (andthen (of_res d) (\<lambda>d.
        let codec = detect_video_codec d
        in seq (modify (\<lambda>p. p\<lparr>vp_codec := codec\<rparr>))
             (seq (store_codec e r 4 codec)
                (if codec = H264 \<and> h264_copy_allowed pf r
                 then modify (\<lambda>p. p\<lparr>vp_prefix := d, vp_ffmpeg := Some (k, False), vp_probe := None\<rparr>)
                 else if codec = H264 then modify (\<lambda>p. p\<lparr>vp_restart := True\<rparr>)
                 else ret ()))))
     (\<lambda>_. decided pf r) (\<lambda>_. quiet 1 1)"
proof (rule spec_andthen[OF spec_of_res[where Q = "\<lambda>_ p. probing p \<and> vp_probe p = Some k"]])
  fix d'
  show "spec (\<lambda>p. probing p \<and> vp_probe p = Some k)
       (let codec = detect_video_codec d'
        in seq (modify (\<lambda>p. p\<lparr>vp_codec := codec\<rparr>))
             (seq (store_codec e r 4 codec)
                (if codec = H264 \<and> h264_copy_allowed pf r
                 then modify (\<lambda>p. p\<lparr>vp_prefix := d', vp_ffmpeg := Some (k, False), vp_probe := None\<rparr>)
                 else if codec = H264 then modify (\<lambda>p. p\<lparr>vp_restart := True\<rparr>)
                 else ret ())))
     (\<lambda>_. decided pf r) (\<lambda>_. quiet 1 1)"
    unfolding Let_def
  proof (rule spec_seq[where Q' = "\<lambda>p. probing p \<and> vp_probe p = Some k \<and> vp_codec p = detect_video_codec d'"],
      goal_cases)
    case 1
    show ?case by (rule spec_modify) (simp add: probing_def)
  next
    case 2
    show ?case
    proof (rule spec_seq[where Q' = "\<lambda>p. probing p \<and> vp_probe p = Some k \<and> vp_codec p = detect_video_codec d'"],
        goal_cases)
      case 1
      show ?case by (rule store_codec_spec) (simp add: probing_def)
    next
      case 2
      show ?case
        by (intro spec_rules)
           (auto simp: decided_def allowed_copy_def probing_def quiet_def owned_def outputs_def session_is_def no_ffmpeg_def)
    qed
  qed
qed (auto simp: probing_def)

lemma probe_codec_spec:
  "spec (\<lambda>p. quiet 1 0 p \<and> session_is False p \<and> no_ffmpeg p \<and> decision p = (c, m, False))
     (probe_codec e pf hardware r) (\<lambda>_. decided pf r) (\<lambda>_. quiet 1 1)"
  unfolding probe_codec_def
proof (rule spec_seq)
  show "spec (\<lambda>p. quiet 1 0 p \<and> session_is False p \<and> no_ffmpeg p \<and> decision p = (c, m, False)) (start_session e)
      (\<lambda>_ p. quiet 1 0 p \<and> session_is True p \<and> no_ffmpeg p \<and> decision p = (c, m, False)) (\<lambda>_. quiet 1 1)"
    by (rule spec_weaken[OF start_session_spec[of 1 0 "(c, m, False)"]]) (auto intro: quiet_mono)
next
  show "spec (\<lambda>p. quiet 1 0 p \<and> session_is True p \<and> no_ffmpeg p \<and> decision p = (c, m, False))
     (andthen (create_ffmpeg e CopyMode (select_plan hardware CopyMode False))
       (\<lambda>k. seq (modify (\<lambda>p. p\<lparr>vp_probe := Some k\<rparr>))
          (andthen (of_res (ve_initial e k))
             (\<lambda>d. let codec = detect_video_codec d
                  in seq (modify (\<lambda>p. p\<lparr>vp_codec := codec\<rparr>))
                      (seq (store_codec e r 4 codec)
                        (if codec = H264 \<and> h264_copy_allowed pf r
                         then modify (\<lambda>p. p\<lparr>vp_prefix := d, vp_ffmpeg := Some (k, False), vp_probe := None\<rparr>)
                         else if codec = H264 then modify (\<lambda>p. p\<lparr>vp_restart := True\<rparr>)
                         else ret ()))))))
     (\<lambda>_. decided pf r) (\<lambda>_. quiet 1 1)"
    by (rule spec_andthen[OF create_probe_spec],
        rule spec_seq[OF spec_modify[where Q = "\<lambda>_ p. probing p \<and> vp_probe p = Some k" for k] probe_result_spec]) simp
qed

lemma decide_codec_spec:
  "spec (\<lambda>p. quiet 0 0 p \<and> vp_session p = None \<and> no_ffmpeg p \<and> decision p = (c, m, False))
     (decide_codec e pf hardware r) (\<lambda>_. decided pf r) (\<lambda>_. quiet 1 1)"
  unfolding decide_codec_def
proof (rule spec_seq)
  show "spec (\<lambda>p. quiet 0 0 p \<and> vp_session p = None \<and> no_ffmpeg p \<and> decision p = (c, m, False)) (open_session e)
      (\<lambda>_ p. quiet (Suc 0) 0 p \<and> session_is False p \<and> no_ffmpeg p \<and> decision p = (c, m, False)) (\<lambda>_. quiet 1 1)"
    by (rule spec_weaken[OF open_session_spec[of 0 0 "(c, m, False)"]]) (auto intro: quiet_mono)
next
  let ?A = "\<lambda>p. quiet 1 0 p \<and> session_is False p \<and> no_ffmpeg p \<and> \<not> vp_restart p"
  have fresh: "decided pf r p" if "?A p" for p
    using that by (auto simp: decided_def quiet_def intro: quiet_mono)
  show "spec (\<lambda>p. quiet (Suc 0) 0 p \<and> session_is False p \<and> no_ffmpeg p \<and> decision p = (c, m, False))
     (andthen (lookup_codec e r)
       (\<lambda>hit. if hit then ret ()
          else andthen (asks (ve_configured e \<circ> fst \<circ> the \<circ> vp_session))
                (\<lambda>configured.
                    if configured \<noteq> CodecUnknown
                    then seq (modify (\<lambda>p. p\<lparr>vp_codec := configured\<rparr>)) (store_codec e r 2 configured)
                    else probe_codec e pf hardware r)))
     (\<lambda>_. decided pf r) (\<lambda>_. quiet 1 1)"
  proof (rule spec_andthen[OF lookup_codec_spec[where Q = "\<lambda>_. ?A"]], goal_cases)
    case (1 p)
    then show ?case by (simp add: decision_def)
  next
    case (2 hit)
    show ?case
    proof (cases hit)
      case True
      then show ?thesis by (simp add: spec_ret fresh)
    next
      case False
      have "spec ?A (if configured \<noteq> CodecUnknown
            then seq (modify (\<lambda>p. p\<lparr>vp_codec := configured\<rparr>)) (store_codec e r 2 configured)
            else probe_codec e pf hardware r) (\<lambda>_. decided pf r) (\<lambda>_. quiet 1 1)" for configured
      proof (cases "configured = CodecUnknown")
        case True
        have probe: "spec (\<lambda>p. ?A p \<and> decision p = (c, m, False)) (probe_codec e pf hardware r) (\<lambda>_. decided pf r) (\<lambda>_. quiet 1 1)"
          for c m by (rule spec_pre[OF probe_codec_spec[of c m]]) (simp add: decision_def)
        show ?thesis
        proof (rule specI)
          fix s assume "?A s"
          then have "?A s \<and> decision s = (vp_codec s, vp_mode s, False)" by (simp add: decision_def)
          then show "case (if configured \<noteq> CodecUnknown
                then seq (modify (\<lambda>p. p\<lparr>vp_codec := configured\<rparr>)) (store_codec e r 2 configured)
                else probe_codec e pf hardware r) s of
              (Inl f, s') \<Rightarrow> quiet 1 1 s' | (Inr x, s') \<Rightarrow> decided pf r s'"
            using True specD[OF probe] by simp
        qed
      next
        case False
        have "spec ?A (seq (modify (\<lambda>p. p\<lparr>vp_codec := configured\<rparr>)) (store_codec e r 2 configured)) (\<lambda>_. decided pf r) (\<lambda>_. quiet 1 1)"
          by (rule spec_seq[OF spec_modify[where Q = "\<lambda>_. ?A"] store_codec_spec]) (auto intro!: fresh)
        then show ?thesis using False by simp
      qed
      then show ?thesis using False by (simp add: spec_andthen[OF spec_asks[where Q = "\<lambda>_. ?A"]])
    qed
  qed
qed

definition settled :: "platform \<Rightarrow> stream_request \<Rightarrow> pipeline \<Rightarrow> bool" where
  "settled pf r p \<longleftrightarrow> quiet (if vp_mode p = CopyMode then 1 else 2) 1 p \<and> session_is True p \<and> vp_probe p = None \<and>
     (vp_mode p = CopyMode \<longleftrightarrow> allowed_copy pf r p) \<and> (vp_ffmpeg p \<noteq> None \<longrightarrow> vp_mode p = CopyMode) \<and>
     (vp_mode p = CopyMode \<and> vp_ffmpeg p = None \<longrightarrow> quiet 1 0 p)"

text \<open>A session is there, the probing process gone.\<close>

definition chosen :: "platform \<Rightarrow> stream_request \<Rightarrow> pipeline \<Rightarrow> bool" where
  "chosen pf r p \<longleftrightarrow> quiet (if vp_mode p = CopyMode then 1 else 2) 1 p \<and> vp_session p \<noteq> None \<and> vp_probe p = None \<and>
     (vp_mode p = CopyMode \<longleftrightarrow> allowed_copy pf r p) \<and>
     (vp_ffmpeg p \<noteq> None \<longrightarrow> vp_mode p = CopyMode \<and> session_is True p) \<and>
     (vp_mode p = CopyMode \<and> vp_ffmpeg p = None \<longrightarrow> quiet 1 0 p)"

lemma session_is_some: "session_is st p \<Longrightarrow> vp_session p \<noteq> None"
  by (auto simp: session_is_def)

lemma drop_probe_decided:
  "spec (\<lambda>p. decided pf r p \<and> (vp_mode p = CopyMode \<longleftrightarrow> allowed_copy pf r p)) drop_probe
     (\<lambda>_ p. chosen pf r p \<and> quiet 1 1 p \<and> (vp_restart p \<longrightarrow> no_ffmpeg p \<and> session_is True p \<and> vp_mode p \<noteq> CopyMode)) R"
  by (rule specI)
     (auto simp: drop_probe_def modify_def decided_def chosen_def pipeline_defs allowed_copy_def track_video_append
       split: option.splits)

lemma reopen_spec:
  "spec (\<lambda>p. quiet 1 1 p \<and> no_ffmpeg p \<and> session_is True p \<and> decision p = x)
     (seq drop_session (open_session e))
     (\<lambda>_ p. quiet 2 1 p \<and> session_is False p \<and> no_ffmpeg p \<and> decision p = x) (\<lambda>_. quiet 2 1)"
proof (rule spec_seq)
  show "spec (\<lambda>p. quiet 1 1 p \<and> no_ffmpeg p \<and> session_is True p \<and> decision p = x) drop_session
      (\<lambda>_ p. quiet 1 1 p \<and> vp_session p = None \<and> no_ffmpeg p \<and> decision p = x) (\<lambda>_. quiet 2 1)"
    by (rule spec_pre[OF drop_session_spec]) simp
  show "spec (\<lambda>p. quiet 1 1 p \<and> vp_session p = None \<and> no_ffmpeg p \<and> decision p = x) (open_session e)
      (\<lambda>_ p. quiet 2 1 p \<and> session_is False p \<and> no_ffmpeg p \<and> decision p = x) (\<lambda>_. quiet 2 1)"
    using open_session_spec[of 1 1 x e] by (simp add: numeral_2_eq_2)
qed

text \<open>A triple whose precondition fixes the decision holds without that, if its postcondition does not
  need it.\<close>

lemma spec_decision:
  assumes "\<And>x. spec (\<lambda>p. P p \<and> decision p = x) m (\<lambda>y p. Q x y p) R"
  shows "spec P m (\<lambda>y p. \<exists>x. Q x y p) R"
proof (rule specI)
  fix s assume "P s"
  then have "P s \<and> decision s = decision s" by simp
  from specD[OF assms this] show "case m s of (Inl f, s') \<Rightarrow> R f s' | (Inr y, s') \<Rightarrow> \<exists>x. Q x y s'"
    by (auto split: prod.splits sum.splits simp del: split_paired_Ex)
qed

lemma chosen_session: "chosen pf r p \<Longrightarrow> vp_session p \<noteq> None"
  unfolding chosen_def by blast

lemma settle_start:
  "spec (chosen pf r)
     (andthen (asks vp_session) (\<lambda>session.
        seq (if session = None then open_session e else ret ())
          (andthen (asks (snd \<circ> the \<circ> vp_session)) (\<lambda>started. if started then ret () else start_session e))))
     (\<lambda>_. settled pf r) (\<lambda>_. quiet 2 1)"
proof (rule spec_andthen[OF spec_asks[where Q = "\<lambda>session p. chosen pf r p \<and> session \<noteq> None"]])
  fix s assume "chosen pf r s"
  then show "chosen pf r s \<and> vp_session s \<noteq> None" using chosen_session by blast
next
  fix session
  show "spec (\<lambda>p. chosen pf r p \<and> session \<noteq> None)
     (seq (if session = None then open_session e else ret ())
       (andthen (asks (snd \<circ> the \<circ> vp_session)) (\<lambda>started. if started then ret () else start_session e)))
     (\<lambda>_. settled pf r) (\<lambda>_. quiet 2 1)"
  proof (rule spec_seq)
    show "spec (\<lambda>p. chosen pf r p \<and> session \<noteq> None) (if session = None then open_session e else ret ())
        (\<lambda>_. chosen pf r) (\<lambda>_. quiet 2 1)"
      by (rule specI) auto
    show "spec (chosen pf r)
        (andthen (asks (snd \<circ> the \<circ> vp_session)) (\<lambda>started. if started then ret () else start_session e))
        (\<lambda>_. settled pf r) (\<lambda>_. quiet 2 1)"
    proof (rule spec_andthen[OF spec_asks[where Q = "\<lambda>started p. chosen pf r p \<and> session_is started p"]])
      fix s assume "chosen pf r s"
      then show "chosen pf r s \<and> session_is ((snd \<circ> the \<circ> vp_session) s) s"
        using chosen_session[of pf r s] by (auto simp: session_is_def)
    next
      fix started
      show "spec (\<lambda>p. chosen pf r p \<and> session_is started p) (if started then ret () else start_session e)
          (\<lambda>_. settled pf r) (\<lambda>_. quiet 2 1)"
      proof (cases started)
        case True
        then show ?thesis by (auto intro!: spec_ret simp: chosen_def settled_def)
      next
        case False
        have "spec (\<lambda>p. chosen pf r p \<and> session_is False p) (start_session e) (\<lambda>_. settled pf r) (\<lambda>_. quiet 2 1)"
          by (rule specI)
             (auto simp: start_session_def comp_defs chosen_def settled_def pipeline_defs allowed_copy_def
               track_video_append split: option.splits if_splits)
        then show ?thesis using False by simp
      qed
    qed
  qed
qed

lemma settle_session_spec:
  "spec (decided pf r) (settle_session e pf r) (\<lambda>_. settled pf r) (\<lambda>_. quiet 2 1)"
  unfolding settle_session_def
proof (rule spec_seq)
  show "spec (decided pf r)
     (modify (\<lambda>p. p\<lparr>vp_mode := if vp_codec p = H264 \<and> h264_copy_allowed pf r then CopyMode else H264Transcode\<rparr>))
     (\<lambda>_ p. decided pf r p \<and> (vp_mode p = CopyMode \<longleftrightarrow> allowed_copy pf r p)) (\<lambda>_. quiet 2 1)"
    by (rule spec_modify) (auto simp: decided_def allowed_copy_def)
  show "spec (\<lambda>p. decided pf r p \<and> (vp_mode p = CopyMode \<longleftrightarrow> allowed_copy pf r p))
     (seq drop_probe
       (andthen (asks vp_restart)
         (\<lambda>restart. seq (if restart then seq drop_session (open_session e) else ret ())
            (andthen (asks vp_session)
              (\<lambda>session. seq (if session = None then open_session e else ret ())
                 (andthen (asks (snd \<circ> the \<circ> vp_session)) (\<lambda>started. if started then ret () else start_session e)))))))
     (\<lambda>_. settled pf r) (\<lambda>_. quiet 2 1)"
  proof (rule spec_seq[OF drop_probe_decided],
      rule spec_andthen[OF spec_asks[where Q = "\<lambda>restart p. chosen pf r p \<and> quiet 1 1 p \<and>
        (restart \<longrightarrow> no_ffmpeg p \<and> session_is True p \<and> vp_mode p \<noteq> CopyMode)"]])
    fix restart
    let ?P = "\<lambda>p. chosen pf r p \<and> quiet 1 1 p \<and> (restart \<longrightarrow> no_ffmpeg p \<and> session_is True p \<and> vp_mode p \<noteq> CopyMode)"
    show "spec ?P
       (seq (if restart then seq drop_session (open_session e) else ret ())
         (andthen (asks vp_session)
           (\<lambda>session. seq (if session = None then open_session e else ret ())
              (andthen (asks (snd \<circ> the \<circ> vp_session)) (\<lambda>started. if started then ret () else start_session e)))))
       (\<lambda>_. settled pf r) (\<lambda>_. quiet 2 1)"
    proof (rule spec_seq[OF _ settle_start], cases restart)
      case True
      have "spec ?P (seq drop_session (open_session e)) (\<lambda>_. chosen pf r) (\<lambda>_. quiet 2 1)"
      proof (rule spec_weaken[OF spec_decision[where P = ?P]])
        fix x
        show "spec (\<lambda>p. ?P p \<and> decision p = x) (seq drop_session (open_session e))
           (\<lambda>_ p. quiet 2 1 p \<and> session_is False p \<and> no_ffmpeg p \<and> decision p = x \<and> fst (snd x) \<noteq> CopyMode \<and>
              \<not> (fst x = H264 \<and> h264_copy_allowed pf r)) (\<lambda>_. quiet 2 1)"
        proof (cases "fst (snd x) \<noteq> CopyMode \<and> \<not> (fst x = H264 \<and> h264_copy_allowed pf r)")
          case True
          then show ?thesis using \<open>restart\<close> by (intro spec_weaken[OF reopen_spec[of x e]]) auto
        next
          case False
          then have "\<not> (?P p \<and> decision p = x)" for p
            using \<open>restart\<close> by (auto simp: chosen_def allowed_copy_def decision_def)
          then show ?thesis by (auto simp: spec_def)
        qed
      qed (auto simp: chosen_def decision_def allowed_copy_def no_ffmpeg_def session_is_def)
      then show "spec ?P (if restart then seq drop_session (open_session e) else ret ()) (\<lambda>_. chosen pf r) (\<lambda>_. quiet 2 1)"
        using True by simp
    qed (auto intro!: spec_ret)
  qed auto
qed

text \<open>The first attempt.\<close>

definition first_result :: "video_env \<Rightarrow> platform \<Rightarrow> stream_request \<Rightarrow> bool \<Rightarrow> pipeline \<Rightarrow> bool" where
  "first_result e pf r fallback p \<longleftrightarrow>
     (if fallback then vp_mode p = CopyMode \<and> quiet 1 1 p \<and> session_is True p \<and> vp_probe p = None
      else (\<exists>x. up e 2 3 x p) \<and> (vp_mode p = CopyMode \<longrightarrow> allowed_copy pf r p \<and> quiet 1 1 p))"

lemma reuse_probe_spec:
  "spec (\<lambda>p. settled pf r p \<and> vp_mode p = mode \<and> vp_ffmpeg p = Some k)
     (catch (andthen (asks vp_prefix) (\<lambda>d.
              andthen (of_res (ve_media e (fst k) d)) (\<lambda>d.
                seq (modify (\<lambda>p. p\<lparr>vp_prefix := d\<rparr>)) (ret False))))
       (\<lambda>f. if \<not> is_bridge_error f \<or> mode \<noteq> CopyMode then throw f else ret True))
     (first_result e pf r) (\<lambda>_. quiet 2 3)"
proof (rule specI)
  fix p assume P: "settled pf r p \<and> vp_mode p = mode \<and> vp_ffmpeg p = Some k"
  then have m: "mode = CopyMode" "quiet 1 1 p" "session_is True p" "vp_probe p = None" "allowed_copy pf r p"
    by (auto simp: settled_def)
  have q: "quiet 2 3 p" using m(2) by (rule quiet_mono) simp_all
  show "case catch (andthen (asks vp_prefix) (\<lambda>d.
              andthen (of_res (ve_media e (fst k) d)) (\<lambda>d.
                seq (modify (\<lambda>p. p\<lparr>vp_prefix := d\<rparr>)) (ret False))))
       (\<lambda>f. if \<not> is_bridge_error f \<or> mode \<noteq> CopyMode then throw f else ret True) p of
     (Inl f, s') \<Rightarrow> quiet 2 3 s' | (Inr x, s') \<Rightarrow> first_result e pf r x s'"
  proof (cases "ve_media e (fst k) (vp_prefix p)")
    case (Inl f)
    then show ?thesis using P m q by (simp add: comp_defs first_result_def)
  next
    case (Inr d)
    have "up e 2 3 (decision p) (p\<lparr>vp_prefix := d\<rparr>)"
      using Inr P m q by (auto simp: up_def decision_def)
    then have "first_result e pf r False (p\<lparr>vp_prefix := d\<rparr>)"
      using m by (auto simp: first_result_def allowed_copy_def simp del: split_paired_Ex)
    then show ?thesis using Inr by (simp add: comp_defs)
  qed
qed

lemma spec_fixed:
  assumes "\<And>x. spec (\<lambda>p. P p \<and> g p = x) m Q R"
  shows "spec P m Q R"
proof (rule specI)
  fix s assume "P s"
  then show "case m s of (Inl f, s') \<Rightarrow> R f s' | (Inr y, s') \<Rightarrow> Q y s'"
    using specD[OF assms[of "g s"], of s] by simp
qed

lemma fresh_pipeline_spec:
  "spec (\<lambda>p. settled pf r p \<and> vp_mode p = mode \<and> vp_ffmpeg p = None)
     (catch (seq (start_pipeline e hardware mode False) (ret False))
       (\<lambda>f. if \<not> is_bridge_error f then throw f
            else if mode = CopyMode then ret True
            else seq (software_fallback e hardware mode f) (ret False)))
     (first_result e pf r) (\<lambda>_. quiet 2 3)"
proof (rule spec_fixed[where g = decision])
  fix x
  let ?P = "\<lambda>p. (settled pf r p \<and> vp_mode p = mode \<and> vp_ffmpeg p = None) \<and> decision p = x"
  have x: "fst (snd x) = mode \<and> (mode = CopyMode \<longleftrightarrow> fst x = H264 \<and> h264_copy_allowed pf r)" if "?P p" for p
    using that by (auto simp: settled_def decision_def allowed_copy_def)
  have res: "first_result e pf r False p" if "up e n k x p" "n \<le> 2" "k \<le> 3" "mode = CopyMode \<longrightarrow> n = 1 \<and> k = 1"
      "fst (snd x) = mode" "mode = CopyMode \<longleftrightarrow> fst x = H264 \<and> h264_copy_allowed pf r" for n k p
  proof -
    have "up e 2 3 x p" using that(1-3) quiet_mono by (auto simp: up_def)
    then show ?thesis
      using that by (auto simp: first_result_def up_def decision_def allowed_copy_def simp del: split_paired_Ex)
  qed
  define n :: nat where "n = (if mode = CopyMode then 1 else 2)"
  define k :: nat where "k = (if mode = CopyMode then 0 else 1)"
  have start: "spec ?P (start_pipeline e hardware mode False)
      (\<lambda>_ p. up e n (Suc k) x p \<and> fst (snd x) = mode \<and> (mode = CopyMode \<longleftrightarrow> fst x = H264 \<and> h264_copy_allowed pf r))
      (\<lambda>_ p. attempted n (Suc k) x p \<and> fst (snd x) = mode \<and> (mode = CopyMode \<longleftrightarrow> fst x = H264 \<and> h264_copy_allowed pf r))"
  proof (rule specI)
    fix s assume s: "?P s"
    have "quiet n k s \<and> session_is True s \<and> no_ffmpeg s \<and> decision s = x"
      using s by (auto simp: settled_def n_def k_def no_ffmpeg_def split: if_splits)
    from specD[OF start_pipeline_spec this, of e hardware mode False]
    show "case start_pipeline e hardware mode False s of
        (Inl f, p) \<Rightarrow> attempted n (Suc k) x p \<and> fst (snd x) = mode \<and> (mode = CopyMode \<longleftrightarrow> fst x = H264 \<and> h264_copy_allowed pf r)
      | (Inr u, p) \<Rightarrow> up e n (Suc k) x p \<and> fst (snd x) = mode \<and> (mode = CopyMode \<longleftrightarrow> fst x = H264 \<and> h264_copy_allowed pf r)"
      using x[OF s] by (auto split: prod.splits sum.splits)
  qed
  show "spec ?P
     (catch (seq (start_pipeline e hardware mode False) (ret False))
       (\<lambda>f. if \<not> is_bridge_error f then throw f
            else if mode = CopyMode then ret True
            else seq (software_fallback e hardware mode f) (ret False)))
     (first_result e pf r) (\<lambda>_. quiet 2 3)"
  proof (rule spec_catch[OF spec_seq[OF start spec_ret]])
    fix s assume "up e n (Suc k) x s \<and> fst (snd x) = mode \<and> (mode = CopyMode \<longleftrightarrow> fst x = H264 \<and> h264_copy_allowed pf r)"
    then show "first_result e pf r False s" by (intro res[of n "Suc k"]) (auto simp: n_def k_def)
  next
    fix f
    let ?A = "\<lambda>p. attempted n (Suc k) x p \<and> fst (snd x) = mode \<and> (mode = CopyMode \<longleftrightarrow> fst x = H264 \<and> h264_copy_allowed pf r)"
    have a: "quiet 2 3 p" if "?A p" for p
      using that quiet_mono[of n "Suc k" p 2 3] by (auto simp: attempted_def n_def k_def split: if_splits)
    have fb: "spec ?A (seq (software_fallback e hardware mode f) (ret False)) (first_result e pf r) (\<lambda>_. quiet 2 3)" if "mode \<noteq> CopyMode"
    proof (rule spec_seq)
      show "spec ?A (software_fallback e hardware mode f)
          (\<lambda>_ p. up e 2 3 x p \<and> fst (snd x) = mode \<and> (mode = CopyMode \<longleftrightarrow> fst x = H264 \<and> h264_copy_allowed pf r)) (\<lambda>_. quiet 2 3)"
      proof (rule specI)
        fix s assume s: "?A s"
        then have "attempted 2 2 x s" using that by (simp add: n_def k_def numeral_2_eq_2)
        from specD[OF software_fallback_spec this, of e hardware mode f]
        show "case software_fallback e hardware mode f s of (Inl f, p) \<Rightarrow> quiet 2 3 p
          | (Inr u, p) \<Rightarrow> up e 2 3 x p \<and> fst (snd x) = mode \<and> (mode = CopyMode \<longleftrightarrow> fst x = H264 \<and> h264_copy_allowed pf r)"
          using s by (auto simp: numeral_3_eq_3 split: prod.splits sum.splits)
      qed
      show "spec (\<lambda>p. up e 2 3 x p \<and> fst (snd x) = mode \<and> (mode = CopyMode \<longleftrightarrow> fst x = H264 \<and> h264_copy_allowed pf r))
          (ret False) (first_result e pf r) (\<lambda>_. quiet 2 3)"
        using that by (intro spec_ret res[of 2 3]) auto
    qed
    show "spec ?A
       (if \<not> is_bridge_error f then throw f
        else if mode = CopyMode then ret True
        else seq (software_fallback e hardware mode f) (ret False))
       (first_result e pf r) (\<lambda>_. quiet 2 3)"
    proof (intro spec_if)
      assume "\<not> is_bridge_error f"
      show "spec ?A (throw f) (first_result e pf r) (\<lambda>_. quiet 2 3)" by (rule spec_throw) (rule a)
    next
      assume m: "mode = CopyMode"
      then show "spec ?A (ret True) (first_result e pf r) (\<lambda>_. quiet 2 3)"
        by (intro spec_ret) (auto simp: first_result_def attempted_def decision_def n_def k_def)
    next
      assume "mode \<noteq> CopyMode"
      then show "spec ?A (seq (software_fallback e hardware mode f) (ret False)) (first_result e pf r) (\<lambda>_. quiet 2 3)"
        by (rule fb)
    qed
  qed
qed

lemma first_pipeline_spec: "spec (settled pf r) (first_pipeline e hardware) (first_result e pf r) (\<lambda>_. quiet 2 3)"
  unfolding first_pipeline_def
proof (rule spec_andthen[OF spec_asks[where Q = "\<lambda>mode p. settled pf r p \<and> vp_mode p = mode"]])
  fix mode
  show "spec (\<lambda>p. settled pf r p \<and> vp_mode p = mode)
     (andthen (asks vp_ffmpeg) (\<lambda>current.
       case current of
         Some k \<Rightarrow>
           catch (andthen (asks vp_prefix) (\<lambda>d.
                    andthen (of_res (ve_media e (fst k) d)) (\<lambda>d.
                      seq (modify (\<lambda>p. p\<lparr>vp_prefix := d\<rparr>)) (ret False))))
             (\<lambda>f. if \<not> is_bridge_error f \<or> mode \<noteq> CopyMode then throw f else ret True)
       | None \<Rightarrow>
           catch (seq (start_pipeline e hardware mode False) (ret False))
             (\<lambda>f. if \<not> is_bridge_error f then throw f
                  else if mode = CopyMode then ret True
                  else seq (software_fallback e hardware mode f) (ret False))))
     (first_result e pf r) (\<lambda>_. quiet 2 3)"
  proof (rule spec_andthen[OF spec_asks[where Q = "\<lambda>current p. (settled pf r p \<and> vp_mode p = mode) \<and> vp_ffmpeg p = current"]], simp)
    fix current
    show "spec (\<lambda>p. (settled pf r p \<and> vp_mode p = mode) \<and> vp_ffmpeg p = current)
       (case current of
         Some k \<Rightarrow>
           catch (andthen (asks vp_prefix) (\<lambda>d.
                    andthen (of_res (ve_media e (fst k) d)) (\<lambda>d.
                      seq (modify (\<lambda>p. p\<lparr>vp_prefix := d\<rparr>)) (ret False))))
             (\<lambda>f. if \<not> is_bridge_error f \<or> mode \<noteq> CopyMode then throw f else ret True)
       | None \<Rightarrow>
           catch (seq (start_pipeline e hardware mode False) (ret False))
             (\<lambda>f. if \<not> is_bridge_error f then throw f
                  else if mode = CopyMode then ret True
                  else seq (software_fallback e hardware mode f) (ret False)))
       (first_result e pf r) (\<lambda>_. quiet 2 3)"
      using reuse_probe_spec[of pf r mode "the current" e] fresh_pipeline_spec[of pf r mode e hardware]
      by (cases current) (simp_all add: conj_assoc)
  qed
qed simp

text \<open>The second attempt, after copying failed.\<close>

lemma copy_fallback_spec:
  "spec (first_result e pf r True) (copy_fallback e hardware)
     (\<lambda>_ p. \<exists>x. up e 2 2 x p \<and> fst (snd x) = H264Transcode) (\<lambda>_. quiet 2 3)"
proof (rule spec_weaken[OF spec_decision[where P = "\<lambda>p. quiet 1 1 p \<and> session_is True p \<and> vp_probe p = None"
      and Q = "\<lambda>x _ p. up e 2 2 (fst x, H264Transcode, snd (snd x)) p \<and> fst (snd (fst x, H264Transcode, snd (snd x))) = H264Transcode"]])
  fix x :: "video_codec \<times> output_mode \<times> bool"
  let ?x = "(fst x, H264Transcode, snd (snd x))"
  show "spec (\<lambda>p. (quiet 1 1 p \<and> session_is True p \<and> vp_probe p = None) \<and> decision p = x) (copy_fallback e hardware)
     (\<lambda>_ p. up e 2 2 ?x p \<and> fst (snd ?x) = H264Transcode) (\<lambda>_. quiet 2 3)"
    unfolding copy_fallback_def
  proof (rule spec_seq)
    show "spec (\<lambda>p. (quiet 1 1 p \<and> session_is True p \<and> vp_probe p = None) \<and> decision p = x) drop_ffmpeg
        (\<lambda>_ p. quiet 1 1 p \<and> session_is True p \<and> no_ffmpeg p \<and> decision p = x) (\<lambda>_. quiet 2 3)"
      by (rule spec_pre[OF drop_ffmpeg_spec]) simp
    have reopen: "spec (\<lambda>p. quiet 1 1 p \<and> session_is True p \<and> no_ffmpeg p \<and> decision p = x)
        (seq drop_session (open_session e))
        (\<lambda>_ p. quiet 2 1 p \<and> session_is False p \<and> no_ffmpeg p \<and> decision p = x) (\<lambda>_. quiet 2 3)"
      by (rule spec_weaken[OF reopen_spec[of x e]]) (auto intro: quiet_mono)
    have begun: "spec (\<lambda>p. quiet 2 1 p \<and> session_is False p \<and> no_ffmpeg p \<and> decision p = x) (start_session e)
        (\<lambda>_ p. quiet 2 1 p \<and> session_is True p \<and> no_ffmpeg p \<and> decision p = x) (\<lambda>_. quiet 2 3)"
      by (rule spec_weaken[OF start_session_spec[of 2 1 x e]]) (auto intro: quiet_mono)
    have mode: "spec (\<lambda>p. quiet 2 1 p \<and> session_is True p \<and> no_ffmpeg p \<and> decision p = x)
        (modify (\<lambda>p. p\<lparr>vp_mode := H264Transcode\<rparr>))
        (\<lambda>_ p. quiet 2 1 p \<and> session_is True p \<and> no_ffmpeg p \<and> decision p = ?x) (\<lambda>_. quiet 2 3)"
      by (rule spec_modify) (auto simp: decision_def)
    have go: "spec (\<lambda>p. quiet 2 1 p \<and> session_is True p \<and> no_ffmpeg p \<and> decision p = ?x)
        (start_pipeline e hardware H264Transcode True)
        (\<lambda>_ p. up e 2 2 ?x p \<and> fst (snd ?x) = H264Transcode) (\<lambda>_. quiet 2 3)"
      by (rule spec_weaken[OF start_pipeline_spec[of 2 1 ?x e hardware H264Transcode True]])
         (auto simp: attempted_def numeral_2_eq_2 intro: quiet_mono)
    have assoc: "seq drop_session (seq (open_session e) rest) = seq (seq drop_session (open_session e)) rest" for rest :: "unit video"
      by (auto simp: seq_def andthen_def fun_eq_iff split: prod.splits sum.splits)
    show "spec (\<lambda>p. quiet 1 1 p \<and> session_is True p \<and> no_ffmpeg p \<and> decision p = x)
        (seq drop_session (seq (open_session e) (seq (start_session e)
          (seq (modify (\<lambda>p. p\<lparr>vp_mode := H264Transcode\<rparr>)) (start_pipeline e hardware H264Transcode True)))))
        (\<lambda>_ p. up e 2 2 ?x p \<and> fst (snd ?x) = H264Transcode) (\<lambda>_. quiet 2 3)"
      unfolding assoc by (rule spec_seq[OF reopen spec_seq[OF begun spec_seq[OF mode go]]])
  qed
qed (auto simp: first_result_def simp del: split_paired_Ex)

text \<open>The pipeline that answers.\<close>

definition serving :: "video_env \<Rightarrow> platform \<Rightarrow> stream_request \<Rightarrow> pipeline \<Rightarrow> bool" where
  "serving e pf r p \<longleftrightarrow> (\<exists>x. up e 2 3 x p) \<and>
     (vp_mode p = CopyMode \<longrightarrow> h264_copy_allowed pf r \<and> detect_video_codec (vp_prefix p) \<noteq> H265)"

definition correctable :: "video_env \<Rightarrow> platform \<Rightarrow> stream_request \<Rightarrow> pipeline \<Rightarrow> bool" where
  "correctable e pf r p \<longleftrightarrow> (\<exists>x. up e 2 3 x p) \<and> (vp_mode p = CopyMode \<longrightarrow> allowed_copy pf r p \<and> quiet 1 1 p)"

lemma up_mono: "up e n k x p \<Longrightarrow> n \<le> n' \<Longrightarrow> k \<le> k' \<Longrightarrow> up e n' k' x p"
  by (auto simp: up_def intro: quiet_mono)

lemma transcode_again_spec:
  assumes "fst (snd x) = H264Transcode"
  shows "spec (\<lambda>p. quiet 1 1 p \<and> session_is True p \<and> no_ffmpeg p \<and> decision p = x)
     (catch (start_pipeline e hardware H264Transcode False)
        (\<lambda>f. if is_bridge_error f then software_fallback e hardware H264Transcode f else throw f))
     (\<lambda>_. serving e pf r) (\<lambda>_. quiet 2 3)"
proof (rule spec_catch)
  have ok: "serving e pf r p" if "up e n k x p" "n \<le> 2" "k \<le> 3" for n k p
    using up_mono[OF that] assms by (auto simp: serving_def up_def decision_def simp del: split_paired_Ex)
  show "spec (\<lambda>p. quiet 1 1 p \<and> session_is True p \<and> no_ffmpeg p \<and> decision p = x)
      (start_pipeline e hardware H264Transcode False) (\<lambda>_. serving e pf r) (\<lambda>_. attempted 1 2 x)"
    by (rule spec_weaken[OF start_pipeline_spec[of 1 1 x e hardware H264Transcode False]])
       (auto simp: numeral_2_eq_2 intro: ok[of 1 2])
  fix f
  show "spec (attempted 1 2 x)
      (if is_bridge_error f then software_fallback e hardware H264Transcode f else throw f)
      (\<lambda>_. serving e pf r) (\<lambda>_. quiet 2 3)"
  proof (rule spec_if)
    show "spec (attempted 1 2 x) (software_fallback e hardware H264Transcode f) (\<lambda>_. serving e pf r) (\<lambda>_. quiet 2 3)"
      by (rule spec_weaken[OF software_fallback_spec[of 1 2 x]])
         (auto simp: numeral_3_eq_3 intro: ok[of 1 3] quiet_mono)
    show "spec (attempted 1 2 x) (throw f) (\<lambda>_. serving e pf r) (\<lambda>_. quiet 2 3)"
      by (rule spec_throw) (auto simp: attempted_def intro: quiet_mono)
  qed
qed

lemma transcode_instead_spec:
  "spec (\<lambda>p. quiet 1 1 p \<and> session_is True p \<and> vp_probe p = None)
     (seq drop_ffmpeg (seq (modify (\<lambda>p. p\<lparr>vp_mode := H264Transcode\<rparr>))
        (catch (start_pipeline e hardware H264Transcode False)
           (\<lambda>f. if is_bridge_error f then software_fallback e hardware H264Transcode f else throw f))))
     (\<lambda>_. serving e pf r) (\<lambda>_. quiet 2 3)"
proof (rule spec_fixed[where g = decision])
  fix x :: "video_codec \<times> output_mode \<times> bool"
  let ?y = "(fst x, H264Transcode, snd (snd x))"
  show "spec (\<lambda>p. (quiet 1 1 p \<and> session_is True p \<and> vp_probe p = None) \<and> decision p = x)
     (seq drop_ffmpeg (seq (modify (\<lambda>p. p\<lparr>vp_mode := H264Transcode\<rparr>))
        (catch (start_pipeline e hardware H264Transcode False)
           (\<lambda>f. if is_bridge_error f then software_fallback e hardware H264Transcode f else throw f))))
     (\<lambda>_. serving e pf r) (\<lambda>_. quiet 2 3)"
  proof (rule spec_seq)
    show "spec (\<lambda>p. (quiet 1 1 p \<and> session_is True p \<and> vp_probe p = None) \<and> decision p = x) drop_ffmpeg
        (\<lambda>_ p. quiet 1 1 p \<and> session_is True p \<and> no_ffmpeg p \<and> decision p = x) (\<lambda>_. quiet 2 3)"
      by (rule spec_pre[OF drop_ffmpeg_spec]) simp
    show "spec (\<lambda>p. quiet 1 1 p \<and> session_is True p \<and> no_ffmpeg p \<and> decision p = x)
        (seq (modify (\<lambda>p. p\<lparr>vp_mode := H264Transcode\<rparr>))
          (catch (start_pipeline e hardware H264Transcode False)
             (\<lambda>f. if is_bridge_error f then software_fallback e hardware H264Transcode f else throw f)))
        (\<lambda>_. serving e pf r) (\<lambda>_. quiet 2 3)"
    proof (rule spec_seq)
      show "spec (\<lambda>p. quiet 1 1 p \<and> session_is True p \<and> no_ffmpeg p \<and> decision p = x)
          (modify (\<lambda>p. p\<lparr>vp_mode := H264Transcode\<rparr>))
          (\<lambda>_ p. quiet 1 1 p \<and> session_is True p \<and> no_ffmpeg p \<and> decision p = ?y) (\<lambda>_. quiet 2 3)"
        by (rule spec_modify) (auto simp: decision_def)
    qed (rule transcode_again_spec, simp)
  qed
qed

lemma correct_codec_spec:
  "spec (correctable e pf r) (correct_codec e hardware r) (\<lambda>_. serving e pf r) (\<lambda>_. quiet 2 3)"
  unfolding correct_codec_def
proof (rule spec_andthen[OF spec_asks[where Q = "\<lambda>wrong p. correctable e pf r p \<and>
      wrong = (vp_mode p = CopyMode \<and> detect_video_codec (vp_prefix p) = H265)"]], simp, rule spec_if)
  fix wrong :: bool
  let ?P = "\<lambda>p. correctable e pf r p \<and> wrong = (vp_mode p = CopyMode \<and> detect_video_codec (vp_prefix p) = H265)"
  let ?I = "\<lambda>p. quiet 1 1 p \<and> session_is True p \<and> vp_probe p = None"
  {
    assume wrong
    show "spec ?P
       (seq (modify (\<lambda>p. p\<lparr>vp_codec := H265\<rparr>))
         (seq (store_codec e r 6 H265)
           (seq drop_ffmpeg
             (seq (modify (\<lambda>p. p\<lparr>vp_mode := H264Transcode\<rparr>))
               (catch (start_pipeline e hardware H264Transcode False)
                  (\<lambda>f. if is_bridge_error f then software_fallback e hardware H264Transcode f else throw f))))))
       (\<lambda>_. serving e pf r) (\<lambda>_. quiet 2 3)"
    proof (rule spec_seq[where Q' = ?I])
      show "spec ?P (modify (\<lambda>p. p\<lparr>vp_codec := H265\<rparr>)) (\<lambda>_. ?I) (\<lambda>_. quiet 2 3)"
        using \<open>wrong\<close> by (intro spec_modify) (auto simp: correctable_def up_def)
      show "spec ?I (seq (store_codec e r 6 H265)
           (seq drop_ffmpeg
             (seq (modify (\<lambda>p. p\<lparr>vp_mode := H264Transcode\<rparr>))
               (catch (start_pipeline e hardware H264Transcode False)
                  (\<lambda>f. if is_bridge_error f then software_fallback e hardware H264Transcode f else throw f)))))
         (\<lambda>_. serving e pf r) (\<lambda>_. quiet 2 3)"
        by (rule spec_seq[OF store_codec_spec transcode_instead_spec]) simp
    qed
  next
    assume "\<not> wrong"
    then show "spec ?P (ret ()) (\<lambda>_. serving e pf r) (\<lambda>_. quiet 2 3)"
      by (intro spec_ret) (auto simp: correctable_def serving_def allowed_copy_def simp del: split_paired_Ex)
  }
qed

text \<open>Everything before the answer.\<close>

definition prepare_answer :: "video_env \<Rightarrow> platform \<Rightarrow> hardware_backend \<Rightarrow> stream_request \<Rightarrow> unit video" where
  "prepare_answer e pf hardware r =
     seq (decide_codec e pf hardware r) (seq (settle_session e pf r)
       (andthen (first_pipeline e hardware) (\<lambda>fallback.
          seq (if fallback then copy_fallback e hardware else ret ()) (correct_codec e hardware r))))"

lemma seq_assoc: "seq (seq a b) c = seq a (seq b c)" "seq (andthen a k) c = andthen a (\<lambda>x. seq (k x) c)"
  by (auto simp: seq_def andthen_def fun_eq_iff split: prod.splits sum.splits)

lemma produce_prepare: "produce e pf hardware r = seq (prepare_answer e pf hardware r) (respond e)"
  by (simp add: produce_def prepare_answer_def seq_assoc)

lemma prepare_answer_spec:
  "spec (\<lambda>p. quiet 0 0 p \<and> vp_session p = None \<and> no_ffmpeg p \<and> \<not> vp_restart p)
     (prepare_answer e pf hardware r) (\<lambda>_. serving e pf r) (\<lambda>_. quiet 2 3)"
  unfolding prepare_answer_def
proof (rule spec_seq)
  show "spec (\<lambda>p. quiet 0 0 p \<and> vp_session p = None \<and> no_ffmpeg p \<and> \<not> vp_restart p) (decide_codec e pf hardware r)
      (\<lambda>_. decided pf r) (\<lambda>_. quiet 2 3)"
  proof (rule spec_fixed[where g = decision])
    fix x :: "video_codec \<times> output_mode \<times> bool"
    show "spec (\<lambda>p. (quiet 0 0 p \<and> vp_session p = None \<and> no_ffmpeg p \<and> \<not> vp_restart p) \<and> decision p = x)
        (decide_codec e pf hardware r) (\<lambda>_. decided pf r) (\<lambda>_. quiet 2 3)"
      by (rule spec_weaken[OF decide_codec_spec[of "fst x" "fst (snd x)"]])
         (auto simp: decision_def intro: quiet_mono)
  qed
  show "spec (decided pf r) (seq (settle_session e pf r)
       (andthen (first_pipeline e hardware) (\<lambda>fallback.
          seq (if fallback then copy_fallback e hardware else ret ()) (correct_codec e hardware r))))
      (\<lambda>_. serving e pf r) (\<lambda>_. quiet 2 3)"
  proof (rule spec_seq)
    show "spec (decided pf r) (settle_session e pf r) (\<lambda>_. settled pf r) (\<lambda>_. quiet 2 3)"
      by (rule spec_weaken[OF settle_session_spec]) (auto intro: quiet_mono)
    show "spec (settled pf r) (andthen (first_pipeline e hardware) (\<lambda>fallback.
          seq (if fallback then copy_fallback e hardware else ret ()) (correct_codec e hardware r)))
        (\<lambda>_. serving e pf r) (\<lambda>_. quiet 2 3)"
    proof (rule spec_andthen[OF first_pipeline_spec], rule spec_seq[OF _ correct_codec_spec], rule spec_if)
      fix fallback :: bool
      assume fallback
      then show "spec (first_result e pf r fallback) (copy_fallback e hardware) (\<lambda>_. correctable e pf r) (\<lambda>_. quiet 2 3)"
        by (simp, intro spec_weaken[OF copy_fallback_spec[of e pf r hardware]])
           (auto simp: correctable_def up_def decision_def intro: quiet_mono)
    next
      fix fallback :: bool
      assume "\<not> fallback"
      then show "spec (first_result e pf r fallback) (ret ()) (\<lambda>_. correctable e pf r) (\<lambda>_. quiet 2 3)"
        by (intro spec_ret) (auto simp: correctable_def first_result_def simp del: split_paired_Ex)
    qed
  qed
qed

end
