(* ===== verification/Video_Response.thy ===== *)
theory Video_Response
  imports Video_Pipeline
begin

text \<open>
  What a client and the rest of the server see of one run of \<open>handle_video\<close>: the order of the answer's
  parts, one report of the end, every session and process gone before the lease is returned, and a copied
  stream only where the policy allows it.
\<close>

section \<open>The answer\<close>

text \<open>A header's data came from a read that waited for the first fragment, and copying was allowed.\<close>

definition delivered :: "video_env \<Rightarrow> platform \<Rightarrow> stream_request \<Rightarrow> output_mode \<Rightarrow> bytes \<Rightarrow> bool" where
  "delivered e pf r mode d \<longleftrightarrow> (\<exists>j i. ve_media e j i = Inr d) \<and>
     (mode = CopyMode \<longrightarrow> h264_copy_allowed pf r \<and> detect_video_codec d \<noteq> H265)"

definition intact :: "pipeline \<Rightarrow> bool" where
  "intact p \<longleftrightarrow> owned p \<and> vp_sessions p \<le> 2 \<and> vp_ffmpegs p \<le> 3"

text \<open>What the loop reads up to the first round that does not go on.\<close>

fun round_data :: "stream_round list \<Rightarrow> bytes list" where
  "round_data (ReadGives d f # rs) = d # (if f = None then round_data rs else [])"
| "round_data _ = []"

text \<open>An answer under way, with the chunks still to come, and one whose end has been reported.\<close>

definition begun :: "video_env \<Rightarrow> platform \<Rightarrow> stream_request \<Rightarrow> bytes list \<Rightarrow> video_action list \<Rightarrow> bool" where
  "begun e pf r rest as \<longleftrightarrow> (\<exists>mode d cs. as = SendHeaders mode d # map SendChunk cs \<and> delivered e pf r mode d \<and>
     cs @ rest = d # round_data (ve_rounds e))"

definition reported :: "video_env \<Rightarrow> video_action list \<Rightarrow> video_action list \<Rightarrow> bool" where
  "reported e before as \<longleftrightarrow> (\<exists>reason. as = before @ [PublishEnd reason] \<and> reason \<noteq> Active \<and>
     (ve_cancelled e \<longrightarrow> reason = ManualCleanup))"

definition answering :: "video_env \<Rightarrow> platform \<Rightarrow> stream_request \<Rightarrow> bytes list \<Rightarrow> pipeline \<Rightarrow> bool" where
  "answering e pf r rest p \<longleftrightarrow> intact p \<and> \<not> vp_status_published p \<and> begun e pf r rest (outputs p)"

definition answered :: "video_env \<Rightarrow> platform \<Rightarrow> stream_request \<Rightarrow> pipeline \<Rightarrow> bool" where
  "answered e pf r p \<longleftrightarrow> intact p \<and> vp_status_published p \<and>
     (\<exists>as bs. begun e pf r [] as \<and> reported e as bs \<and> outputs p = bs @ [SendLast])"

definition interrupted :: "video_env \<Rightarrow> platform \<Rightarrow> stream_request \<Rightarrow> pipeline \<Rightarrow> bool" where
  "interrupted e pf r p \<longleftrightarrow> intact p \<and>
     (\<not> vp_status_published p \<and> (outputs p = [] \<or> (\<exists>rest. begun e pf r rest (outputs p))) \<or> answered e pf r p)"

lemma intact_act [simp]:
  "is_output a \<Longrightarrow> intact (act a p) = intact p" "intact (act OutputReady p) = intact p"
  "intact (p\<lparr>vp_response_started := b\<rparr>) = intact p" "intact (p\<lparr>vp_status_published := b\<rparr>) = intact p"
  by (cases a; simp add: intact_def owned_def act_def track_video_append bind_def split: option.split)
     (auto simp: intact_def owned_def act_def track_video_append split: option.split)

lemma outputs_act [simp]:
  "outputs (act a p) = outputs p @ (if is_output a then [a] else [])"
  "outputs (p\<lparr>vp_response_started := b\<rparr>) = outputs p" "outputs (p\<lparr>vp_status_published := b\<rparr>) = outputs p"
  by (simp_all add: outputs_def act_def)

lemma act_fields [simp]:
  "vp_status_published (act a p) = vp_status_published p" "vp_mode (act a p) = vp_mode p" "vp_prefix (act a p) = vp_prefix p"
  by (simp_all add: act_def)

lemma begun_chunk:
  assumes "begun e pf r (d # rest) as"
  shows "begun e pf r rest (as @ [SendChunk d])"
proof -
  obtain mode d' cs where "as = SendHeaders mode d' # map SendChunk cs" "delivered e pf r mode d'"
      "cs @ d # rest = d' # round_data (ve_rounds e)"
    using assms unfolding begun_def by blast
  then show ?thesis
    unfolding begun_def by (intro exI[of _ mode] exI[of _ d'] exI[of _ "cs @ [d]"]) simp
qed

lemma answering_interrupted: "answering e pf r rest p \<Longrightarrow> interrupted e pf r p"
  unfolding answering_def interrupted_def by blast

lemma resolve_end_reason_ended: "resolve_end_reason s i \<noteq> Active"
  by (auto simp: resolve_end_reason_def split: option.split)

lemma failure_reason_ended: "failure_reason alive f \<noteq> Active"
  by (auto simp: failure_reason_def split: failure.split)

lemma publish_status_spec:
  assumes "reason \<noteq> Active"
  shows "spec (\<lambda>p. intact p \<and> \<not> vp_status_published p \<and> outputs p = as) (publish_status e reason)
     (\<lambda>_ p. intact p \<and> vp_status_published p \<and> reported e as (outputs p)) R"
  unfolding publish_status_def using assms by (intro spec_modify) (auto simp: reported_def)

lemma spec_throw_if_keep:
  "(\<And>p. P p \<Longrightarrow> R p) \<Longrightarrow> spec P (throw_if c) (\<lambda>_. P) (\<lambda>_. R)"
  by (rule spec_throw_if) auto

lemma send_chunk_spec:
  "spec (answering e pf r (d # rest)) (modify (act (SendChunk d))) (\<lambda>_. answering e pf r rest) (\<lambda>_. interrupted e pf r)"
  by (rule spec_modify) (simp add: answering_def begun_chunk)

lemma stream_loop_spec:
  "spec (answering e pf r (round_data rs)) (stream_loop e rs)
     (\<lambda>reason p. answering e pf r [] p \<and> reason \<noteq> Active) (\<lambda>_. interrupted e pf r)"
proof (induction rs)
  case Nil
  show ?case unfolding stream_loop.simps end_of_stream_def by (rule spec_asks) simp
next
  case (Cons x rs)
  show ?case
  proof (cases x)
    case (ReadThrows f)
    then show ?thesis
      unfolding ReadThrows stream_loop.simps by (intro spec_throw) (rule answering_interrupted)
  next
    case (ReadEnds alive)
    then show ?thesis
      unfolding ReadEnds stream_loop.simps end_of_stream_def by (intro spec_asks) (simp add: resolve_end_reason_ended)
  next
    case (ReadGives d f)
    have rest: "spec (answering e pf r (if f = None then round_data rs else [])) (seq (throw_if f) (stream_loop e rs))
        (\<lambda>reason p. answering e pf r [] p \<and> reason \<noteq> Active) (\<lambda>_. interrupted e pf r)"
    proof (cases f)
      case None
      then show ?thesis using Cons.IH by (simp add: throw_if_def seq_def andthen_def)
    next
      case (Some g)
      show ?thesis unfolding Some
        by (rule spec_seq[OF spec_throw_if spec_false]) (simp_all add: answering_interrupted)
    qed
    show ?thesis unfolding ReadGives stream_loop.simps round_data.simps by (rule spec_seq[OF send_chunk_spec rest])
  qed
qed

text \<open>The end of an answer.\<close>

lemma conclude_spec:
  assumes "reason \<noteq> Active"
  shows "spec (answering e pf r [])
     (seq (publish_status e reason) (seq (modify (act SendLast)) (throw_if c)))
     (\<lambda>_. answered e pf r) (\<lambda>_. interrupted e pf r)"
proof (rule spec_fixed[where g = outputs])
  fix as
  show "spec (\<lambda>p. answering e pf r [] p \<and> outputs p = as)
     (seq (publish_status e reason) (seq (modify (act SendLast)) (throw_if c)))
     (\<lambda>_. answered e pf r) (\<lambda>_. interrupted e pf r)"
  proof (cases "begun e pf r [] as")
    case True
    show ?thesis
    proof (rule spec_seq[OF spec_pre[OF publish_status_spec[OF assms, of as]]], simp add: answering_def, rule spec_seq)
      show "spec (\<lambda>p. intact p \<and> vp_status_published p \<and> reported e as (outputs p)) (modify (act SendLast))
          (\<lambda>_. answered e pf r) (\<lambda>_. interrupted e pf r)"
        using True by (intro spec_modify) (auto simp: answered_def)
      show "spec (answered e pf r) (throw_if c) (\<lambda>_. answered e pf r) (\<lambda>_. interrupted e pf r)"
        by (rule spec_throw_if_keep) (auto simp: interrupted_def answered_def)
    qed
  qed (auto simp: spec_def answering_def)
qed

definition ready_to_answer :: "video_env \<Rightarrow> platform \<Rightarrow> stream_request \<Rightarrow> output_mode \<Rightarrow> bytes \<Rightarrow> pipeline \<Rightarrow> bool" where
  "ready_to_answer e pf r mode d p \<longleftrightarrow>
     intact p \<and> \<not> vp_status_published p \<and> outputs p = [] \<and> delivered e pf r mode d"

lemma answer_spec:
  "spec (ready_to_answer e pf r mode d)
     (seq (modify (act (SendHeaders mode d)))
       (seq (throw_if (ve_headers e))
         (seq (modify (\<lambda>p. p\<lparr>vp_response_started := True\<rparr>))
           (seq (modify (act (SendChunk d)))
             (seq (throw_if (ve_first_chunk e))
               (andthen (stream_loop e (ve_rounds e)) (\<lambda>reason.
                  seq (publish_status e reason) (seq (modify (act SendLast)) (throw_if (ve_last e))))))))))
     (\<lambda>_. answered e pf r) (\<lambda>_. interrupted e pf r)"
proof -
  let ?I = "\<lambda>_. interrupted e pf r"
  let ?d = "d # round_data (ve_rounds e)"
  have check: "spec (answering e pf r rest) (throw_if c) (\<lambda>_. answering e pf r rest) ?I" for c rest
    by (rule spec_throw_if_keep) (rule answering_interrupted)
  have head: "spec (ready_to_answer e pf r mode d) (modify (act (SendHeaders mode d))) (\<lambda>_. answering e pf r ?d) ?I"
    by (rule spec_modify) (auto simp: ready_to_answer_def answering_def begun_def)
  have mark: "spec (answering e pf r ?d) (modify (\<lambda>p. p\<lparr>vp_response_started := True\<rparr>)) (\<lambda>_. answering e pf r ?d) ?I"
    by (rule spec_modify) (simp add: answering_def)
  have loop: "spec (answering e pf r (round_data (ve_rounds e))) (andthen (stream_loop e (ve_rounds e)) (\<lambda>reason.
      seq (publish_status e reason) (seq (modify (act SendLast)) (throw_if (ve_last e)))))
      (\<lambda>_. answered e pf r) ?I"
    by (rule spec_andthen[OF stream_loop_spec]) (rule spec_cond, rule conclude_spec)
  show ?thesis
    by (rule spec_seq[OF head spec_seq[OF check spec_seq[OF mark spec_seq[OF send_chunk_spec spec_seq[OF check loop]]]]])
qed

lemma serving_ready: "serving e pf r p \<Longrightarrow> ready_to_answer e pf r (vp_mode p) (vp_prefix p) (act OutputReady p)"
  by (auto simp: serving_def up_def quiet_def intact_def[of p] ready_to_answer_def delivered_def simp del: split_paired_Ex)

lemma respond_spec:
  "spec (serving e pf r) (respond e) (\<lambda>_. answered e pf r) (\<lambda>_. interrupted e pf r)"
proof (rule specI)
  fix p assume "serving e pf r p"
  from specD[OF answer_spec serving_ready[OF this]]
  show "case respond e p of (Inl f, s') \<Rightarrow> interrupted e pf r s' | (Inr x, s') \<Rightarrow> answered e pf r s'"
    by (simp add: respond_def)
qed

section \<open>The whole run\<close>

lemma new_pipeline_quiet:
  "quiet 0 0 (new_pipeline cache disk) \<and> vp_session (new_pipeline cache disk) = None \<and>
   no_ffmpeg (new_pipeline cache disk) \<and> \<not> vp_restart (new_pipeline cache disk)"
  by (simp add: new_pipeline_def quiet_def owned_def outputs_def no_ffmpeg_def)

lemma quiet_interrupted: "quiet 2 3 p \<Longrightarrow> interrupted e pf r p"
  by (simp add: quiet_def interrupted_def intact_def)

lemma produce_spec:
  "spec (\<lambda>p. quiet 0 0 p \<and> vp_session p = None \<and> no_ffmpeg p \<and> \<not> vp_restart p)
     (produce e pf hardware r) (\<lambda>_. answered e pf r) (\<lambda>_. interrupted e pf r)"
  unfolding produce_prepare
proof (rule spec_seq[OF _ respond_spec])
  show "spec (\<lambda>p. quiet 0 0 p \<and> vp_session p = None \<and> no_ffmpeg p \<and> \<not> vp_restart p)
      (prepare_answer e pf hardware r) (\<lambda>_. serving e pf r) (\<lambda>_. interrupted e pf r)"
    by (rule spec_weaken[OF prepare_answer_spec]) (auto intro: quiet_interrupted)
qed

text \<open>The parts of a finished answer: nothing but a report, or a header, chunks, a report, and after a
  normal end the last chunk.\<close>

definition settled_answer :: "video_env \<Rightarrow> platform \<Rightarrow> stream_request \<Rightarrow> video_action list \<Rightarrow> bool" where
  "settled_answer e pf r as \<longleftrightarrow>
     (\<exists>before bs tail. (before = [] \<and> tail = [] \<or> (\<exists>rest. begun e pf r rest before) \<and> (tail = [] \<or> tail = [SendLast])) \<and>
        reported e before bs \<and> as = bs @ tail)"

definition left_behind :: "video_env \<Rightarrow> platform \<Rightarrow> stream_request \<Rightarrow> pipeline \<Rightarrow> bool" where
  "left_behind e pf r p \<longleftrightarrow> intact p \<and> settled_answer e pf r (outputs p)"

lemma answered_left: "answered e pf r p \<Longrightarrow> left_behind e pf r p"
  unfolding answered_def left_behind_def settled_answer_def by blast

lemma handler_spec:
  assumes "reason \<noteq> Active"
  shows "spec (interrupted e pf r) (seq (publish_status e reason) (throw f))
     (\<lambda>_. answered e pf r) (\<lambda>_. left_behind e pf r)"
proof (rule specI)
  fix p assume i: "interrupted e pf r p"
  show "case seq (publish_status e reason) (throw f) p of
      (Inl f, s') \<Rightarrow> left_behind e pf r s' | (Inr x, s') \<Rightarrow> answered e pf r s'"
  proof (cases "vp_status_published p")
    case True
    then have "answered e pf r p" using i by (auto simp: interrupted_def)
    then show ?thesis using True by (simp add: publish_status_def comp_defs answered_left)
  next
    case False
    let ?reason = "if ve_cancelled e then ManualCleanup else reason"
    have "intact p" "outputs p = [] \<or> (\<exists>rest. begun e pf r rest (outputs p))"
      using i False by (auto simp: interrupted_def answered_def)
    moreover have "reported e (outputs p) (outputs p @ [PublishEnd ?reason])"
      using assms by (simp add: reported_def)
    ultimately have "left_behind e pf r (act (PublishEnd ?reason) (p\<lparr>vp_status_published := True\<rparr>))"
      unfolding left_behind_def settled_answer_def
      by (intro conjI exI[of _ "outputs p"] exI[of _ "outputs p @ [PublishEnd ?reason]"] exI[of _ "[]"]) auto
    then show ?thesis using False by (simp add: publish_status_def comp_defs)
  qed
qed

lemma guarded_spec:
  "spec (\<lambda>p. quiet 0 0 p \<and> vp_session p = None \<and> no_ffmpeg p \<and> \<not> vp_restart p)
     (catch (produce e pf hardware r) (\<lambda>f. seq (publish_status e (failure_reason (ve_running e) f)) (throw f)))
     (\<lambda>_. answered e pf r) (\<lambda>_. left_behind e pf r)"
  by (rule spec_catch[OF produce_spec]) (rule handler_spec[OF failure_reason_ended])

text \<open>The destructors.\<close>

definition released :: "pipeline \<Rightarrow> pipeline" where
  "released p = snd (seq drop_probe (seq drop_ffmpeg (seq drop_session (modify (act ReturnLease)))) p)"

lemma released_trace:
  assumes "owned p"
  shows "\<exists>as. vp_actions (released p) = vp_actions p @ as @ [ReturnLease] \<and> filter is_output as = [] \<and>
     ReturnLease \<notin> set as \<and> track_video (None, None) (vp_actions p @ as) = Some (None, None)"
proof (cases "vp_session p")
  case None
  then show ?thesis
    using assms unfolding owned_def
    by (cases "vp_probe p"; cases "vp_ffmpeg p")
       (auto simp: released_def comp_defs drop_probe_def drop_ffmpeg_def drop_session_def act_def track_video_append)
next
  case (Some s)
  then show ?thesis
    using assms unfolding owned_def
    by (cases "vp_probe p"; cases "vp_ffmpeg p"; cases s)
       (auto simp: released_def comp_defs drop_probe_def drop_ffmpeg_def drop_session_def act_def track_video_append)
qed

lemma released_counts:
  "vp_sessions (released p) = vp_sessions p \<and> vp_ffmpegs (released p) = vp_ffmpegs p"
  by (simp add: released_def comp_defs drop_probe_def drop_ffmpeg_def drop_session_def act_def split: option.split)

lemma run_video_released:
  "\<exists>q. left_behind e pf r q \<and> snd (run_video e pf hardware r (new_pipeline cache disk)) = released q \<and>
     (isl (fst (run_video e pf hardware r (new_pipeline cache disk))) \<or> answered e pf r q)"
proof -
  obtain res q where rq: "catch (produce e pf hardware r)
      (\<lambda>f. seq (publish_status e (failure_reason (ve_running e) f)) (throw f)) (new_pipeline cache disk) = (res, q)"
    by (metis surj_pair)
  have "case res of Inl f \<Rightarrow> left_behind e pf r q | Inr x \<Rightarrow> answered e pf r q"
    using specD[OF guarded_spec new_pipeline_quiet, of e pf r hardware cache disk] unfolding rq by simp
  then have "left_behind e pf r q \<and> (isl res \<or> answered e pf r q)"
    using answered_left by (cases res) auto
  then show ?thesis using rq by (intro exI[of _ q]) (simp add: run_video_def released_def)
qed

text \<open>What a client is promised, as a machine over the actions it can see.\<close>

datatype answer_phase = Silent | Streaming | Ended bool | Closed

inductive answer_protocol :: "answer_phase \<Rightarrow> video_action list \<Rightarrow> answer_phase \<Rightarrow> bool" where
  stopped: "answer_protocol s [] s"
| headers: "answer_protocol Streaming as t \<Longrightarrow> answer_protocol Silent (SendHeaders mode d # as) t"
| chunk: "answer_protocol Streaming as t \<Longrightarrow> answer_protocol Streaming (SendChunk d # as) t"
| refused: "reason \<noteq> Active \<Longrightarrow> answer_protocol (Ended False) as t \<Longrightarrow> answer_protocol Silent (PublishEnd reason # as) t"
| ended: "reason \<noteq> Active \<Longrightarrow> answer_protocol (Ended True) as t \<Longrightarrow> answer_protocol Streaming (PublishEnd reason # as) t"
| closed: "answer_protocol Closed as t \<Longrightarrow> answer_protocol (Ended True) (SendLast # as) t"

code_pred answer_protocol .

inductive_simps answer_protocol_steps:
  "answer_protocol s [] t"
  "answer_protocol s (SendHeaders mode d # as) t"
  "answer_protocol s (SendChunk d # as) t"
  "answer_protocol s (PublishEnd reason # as) t"
  "answer_protocol s (SendLast # as) t"

definition end_reports :: "video_action list \<Rightarrow> stream_end_reason list" where
  "end_reports as = List.map_filter (\<lambda>a. case a of PublishEnd reason \<Rightarrow> Some reason | _ \<Rightarrow> None) as"

lemma end_reports_simps [simp]:
  "end_reports [] = []"
  "end_reports (a # as) = (case a of PublishEnd reason \<Rightarrow> reason # end_reports as | _ \<Rightarrow> end_reports as)"
  "end_reports (as @ bs) = end_reports as @ end_reports bs"
  "end_reports (map SendChunk cs) = []"
  by (induction cs) (auto simp: end_reports_def List.map_filter_def split: video_action.split)

lemma end_reports_outputs: "end_reports (filter is_output as) = end_reports as"
  by (induction as) (auto split: video_action.split)

lemma chunks_protocol: "answer_protocol Streaming (map SendChunk cs @ as) t = answer_protocol Streaming as t"
  by (induction cs) (auto simp: answer_protocol_steps)

lemma settled_answer_protocol:
  assumes "settled_answer e pf r as"
  shows "(answer_protocol Silent as (Ended False) \<or> answer_protocol Silent as (Ended True) \<or> answer_protocol Silent as Closed) \<and>
    (\<exists>reason. end_reports as = [reason] \<and> (ve_cancelled e \<longrightarrow> reason = ManualCleanup))"
proof -
  obtain before bs tail where shape: "before = [] \<and> tail = [] \<or> (\<exists>rest. begun e pf r rest before) \<and> (tail = [] \<or> tail = [SendLast])"
      and bs: "reported e before bs" "as = bs @ tail"
    using assms unfolding settled_answer_def by blast
  then obtain reason where as: "as = before @ PublishEnd reason # tail" and r: "reason \<noteq> Active"
      "ve_cancelled e \<longrightarrow> reason = ManualCleanup"
    unfolding reported_def by auto
  show ?thesis using shape
  proof (elim disjE conjE exE)
    assume "before = []" "tail = []"
    then show ?thesis using as r by (auto simp: answer_protocol_steps)
  next
    fix rest assume "begun e pf r rest before" "tail = []"
    then show ?thesis using as r by (auto simp: begun_def answer_protocol_steps chunks_protocol)
  next
    fix rest assume "begun e pf r rest before" "tail = [SendLast]"
    then show ?thesis using as r by (auto simp: begun_def answer_protocol_steps chunks_protocol)
  qed
qed

lemma run_video_delivers:
  assumes "fst (run_video e pf hardware r (new_pipeline cache disk)) = Inr ()"
  shows "\<exists>mode d reason. (\<exists>k i. ve_media e k i = Inr d) \<and>
    filter is_output (vp_actions (snd (run_video e pf hardware r (new_pipeline cache disk)))) =
      SendHeaders mode d # map SendChunk (d # round_data (ve_rounds e)) @ [PublishEnd reason, SendLast]"
proof -
  obtain q where q: "left_behind e pf r q" "snd (run_video e pf hardware r (new_pipeline cache disk)) = released q"
      "answered e pf r q"
    using run_video_released[of e pf r hardware cache disk] assms by auto
  have out: "filter is_output (vp_actions (released q)) = outputs q"
    using released_trace[of q] q(1) by (auto simp: left_behind_def intact_def outputs_def)
  obtain mode d cs reason where "delivered e pf r mode d" "cs = d # round_data (ve_rounds e)"
      "outputs q = SendHeaders mode d # map SendChunk cs @ [PublishEnd reason, SendLast]"
    using q(3) by (auto simp: answered_def reported_def begun_def)
  then show ?thesis using q(2) out by (auto simp: delivered_def)
qed

section \<open>Properties\<close>

text \<open>C1: However a video request ends (login, SDK, FFmpeg, the client or the device failing at any point,
  at most one fallback from copying and one from hardware on the way), every session and every FFmpeg
  process it created is gone when it is over: there is never more than one of each, no process pumps
  from a session that is not started or already freed, and the lease is returned last and once.  A
  request logs in at most twice and starts FFmpeg at most three times.\<close>

theorem video_leaves_nothing:
  "let p = snd (run_video e pf hardware r (new_pipeline cache disk))
   in track_video (None, None) (butlast (vp_actions p)) = Some (None, None) \<and>
      last (vp_actions p) = ReturnLease \<and> ReturnLease \<notin> set (butlast (vp_actions p)) \<and>
      vp_sessions p \<le> 2 \<and> vp_ffmpegs p \<le> 3"
proof -
  obtain q where q: "left_behind e pf r q" "snd (run_video e pf hardware r (new_pipeline cache disk)) = released q"
    using run_video_released by blast
  have i: "owned q" "vp_sessions q \<le> 2" "vp_ffmpegs q \<le> 3"
    using q(1) by (auto simp: left_behind_def intact_def)
  obtain as where as: "vp_actions (released q) = vp_actions q @ as @ [ReturnLease]" "ReturnLease \<notin> set as"
      "track_video (None, None) (vp_actions q @ as) = Some (None, None)"
    using released_trace[OF i(1)] by blast
  have "ReturnLease \<notin> set (vp_actions q)" using i(1) by (simp add: owned_def)
  then show ?thesis using as i by (simp add: q(2) Let_def released_counts butlast_append)
qed



definition steady_env :: video_env where
  "steady_env =
     \<lparr>ve_prepare = \<lambda>_. None, ve_configured = \<lambda>_. H264, ve_start = \<lambda>_. None, ve_construct = \<lambda>_. None,
      ve_initial = \<lambda>_. Inr [], ve_media = \<lambda>_ d. Inr (d @ [9]), ve_clock = \<lambda>_. 0, ve_persist = \<lambda>_. NotWritten,
      ve_headers = None, ve_first_chunk = None,
      ve_rounds = [ReadGives [1] None, ReadGives [2] None, ReadEnds True], ve_last = None,
      ve_running = True, ve_cancelled = False, ve_session_end = PlaybackEnd, ve_input_end = StreamEnded\<rparr>"

definition normal_speed :: stream_request where
  "normal_speed = example_request\<lparr>sr_speed := Fin 1\<rparr>"

definition empty_cache :: codec_cache where
  "empty_cache = \<lparr>cc_ttl = 0, cc_path = [], cc_items = []\<rparr>"

lemmas steady_run = run_video_def produce_def decide_codec_def open_session_def start_session_def lookup_codec_def
  store_codec_def try_get_def set_codec_def settle_session_def first_pipeline_def start_pipeline_def create_ffmpeg_def
  correct_codec_def respond_def publish_status_def drop_probe_def drop_ffmpeg_def drop_session_def end_of_stream_def
  comp_defs act_def steady_env_def empty_cache_def new_pipeline_def Let_def

lemma steady_run_copies:
  "fst (run_video steady_env Windows NoBackend normal_speed (new_pipeline empty_cache None)) = Inr ()"
  "SendHeaders CopyMode [9] \<in> set (vp_actions (snd (run_video steady_env Windows NoBackend normal_speed
     (new_pipeline empty_cache None))))"
  by (simp_all add: steady_run h264_copy_allowed_def normal_speed_def example_request_def detect_video_codec_def contains_atom_def
        find_atom_def media_text_def)

lemma steady_rounds: "round_data (ve_rounds steady_env) = [[1], [2]]"
  by (simp add: steady_env_def)


text \<open>A request that ends normally has sent the initialization data and first fragment and then, in
  order and without a gap, exactly the data read from FFmpeg until the first read that ended the stream.\<close>

theorem stream_delivered:
  assumes "fst (run_video e pf hardware r (new_pipeline cache disk)) = Inr ()"
  shows "\<exists>mode d reason. (\<exists>k i. ve_media e k i = Inr d) \<and>
    filter is_output (vp_actions (snd (run_video e pf hardware r (new_pipeline cache disk)))) =
      SendHeaders mode d # map SendChunk (d # round_data (ve_rounds e)) @ [PublishEnd reason, SendLast]"
  using assms by (rule run_video_delivers)

theorem stream_delivered_witness:
  "\<exists>mode d reason. (\<exists>k i. ve_media steady_env k i = Inr d) \<and>
    filter is_output (vp_actions (snd (run_video steady_env Windows NoBackend normal_speed (new_pipeline empty_cache None)))) =
      SendHeaders mode d # map SendChunk (d # [[1], [2]]) @ [PublishEnd reason, SendLast]"
  using stream_delivered[OF steady_run_copies(1)] by (simp only: steady_rounds)

end
