(* ===== verification/Http_Server.thy ===== *)
theory Http_Server
  imports Video_Response Http_Request Socket_IO
begin

text \<open>
  \<open>handle_connection\<close> with \<open>handle_video\<close>: one connection from the request to the last byte sent.
  The shared registries are threaded through as one connection uses them; what other connections do
  in between is the subject of \<open>Session_Registry\<close>, whose events are all this file applies to them.
  Outcomes of the environment (what arrives, which send fails and how, clock readings, the run of the
  video pipeline) are arguments; every text that is handed to \<open>send_text\<close> is recorded in order.
\<close>

section \<open>State and environment\<close>

record connection =
  cn_registry :: registry
  cn_statuses :: statuses
  cn_cache :: codec_cache
  cn_disk :: "string option"
  cn_sent :: "string list"
  cn_shutdown :: "int list"        \<comment> \<open>sockets of other connections that a cleanup shuts down\<close>
  cn_started :: bool               \<comment> \<open>\<open>response_started\<close>\<close>
  cn_sid :: string

record connection_env =
  cx_fd :: int
  cx_events :: "recv_event list"
  cx_config :: config
  cx_platform :: platform
  cx_hardware :: hardware_backend
  cx_architecture :: string
  cx_stod :: "string \<Rightarrow> double option"
  cx_now :: int
  cx_utc :: int
  cx_client :: "unit res"          \<comment> \<open>\<open>check_video_client\<close>\<close>
  cx_video :: video_env
  cx_figures :: queue_figures      \<comment> \<open>of the media queue when the video ends\<close>
  cx_send :: "nat \<Rightarrow> failure option" \<comment> \<open>by position among the connection's texts\<close>
  cx_message :: "failure \<Rightarrow> string"

type_synonym 'a exchange = "(connection, 'a) comp"

definition send_text :: "connection_env \<Rightarrow> string \<Rightarrow> unit exchange" where
  "send_text e t =
     andthen (asks (length \<circ> cn_sent)) (\<lambda>n.
       seq (modify (\<lambda>s. s\<lparr>cn_sent := cn_sent s @ [t]\<rparr>)) (throw_if (cx_send e n)))"

definition send_json_body :: "connection_env \<Rightarrow> int \<Rightarrow> string \<Rightarrow> unit exchange" where
  "send_json_body e status body = send_text e (json_response status body)"

definition send_json :: "connection_env \<Rightarrow> int \<Rightarrow> string \<Rightarrow> string \<Rightarrow> string \<Rightarrow> unit exchange" where
  "send_json e status code message sid = send_json_body e status (error_body code message sid)"

section \<open>Video\<close>

definition reserve_slot :: "connection_env \<Rightarrow> stream_request \<Rightarrow> nat option exchange" where
  "reserve_slot e r = (\<lambda>s.
     case reserve (sr_sid r) (Some (cx_fd e)) (sr_generation r)
            (set_active (cx_now e) (cx_now e) (cx_now e) (cx_utc e) (sr_sid r)) (cn_registry s) (cn_statuses s) of
       (result, registry, statuses) \<Rightarrow>
         (map_sum id (map_option st_ref) result, s\<lparr>cn_registry := registry, cn_statuses := statuses\<rparr>))"

text \<open>What a run of the pipeline does to the registries, and what it sends.\<close>

definition video_events :: "connection_env \<Rightarrow> string \<Rightarrow> nat \<Rightarrow> video_action \<Rightarrow> session_event list" where
  "video_events e sid ref a =
     (case a of
        OutputReady \<Rightarrow> [StatusOp (SetOutputReady (cx_now e) (cx_utc e) sid)]
      | PublishEnd reason \<Rightarrow>
          [StatusOp (SetEnded (cx_now e) (cx_now e) (cx_now e) (cx_utc e) (cx_now e) (cx_utc e) sid reason (cx_figures e))]
      | ReturnLease \<Rightarrow> [Release ref]
      | _ \<Rightarrow> [])"

definition video_text :: "stream_request \<Rightarrow> config \<Rightarrow> video_action \<Rightarrow> string list" where
  "video_text r c a =
     (case a of
        SendHeaders _ d \<Rightarrow> [video_headers r c d]
      | SendChunk d \<Rightarrow> [chunk_text (media_text d)]
      | SendLast \<Rightarrow> [last_chunk]
      | _ \<Rightarrow> [])"

definition stream_video :: "connection_env \<Rightarrow> stream_request \<Rightarrow> nat \<Rightarrow> unit exchange" where
  "stream_video e r ref = (\<lambda>s.
     case run_video (cx_video e) (cx_platform e) (cx_hardware e) r (new_pipeline (cn_cache s) (cn_disk s)) of
       (result, p) \<Rightarrow>
         (case fold session_step (concat (map (video_events e (sr_sid r) ref) (vp_actions p)))
                 (cn_registry s, cn_statuses s) of
            (registry, statuses) \<Rightarrow>
              (result, s\<lparr>cn_registry := registry, cn_statuses := statuses, cn_cache := vp_cache p, cn_disk := vp_disk p,
                         cn_sent := cn_sent s @ concat (map (video_text r (cx_config e)) (vp_actions p)),
                         cn_started := vp_response_started p\<rparr>)))"

definition handle_video :: "connection_env \<Rightarrow> stream_request \<Rightarrow> unit exchange" where
  "handle_video e r =
     seq (of_res (cx_client e))
       (andthen (reserve_slot e r) (\<lambda>lease.
          case lease of
            None \<Rightarrow> throw (BridgeError 503 ''SESSION_LIMIT'')
          | Some ref \<Rightarrow> stream_video e r ref))"

section \<open>The other requests\<close>

definition cleanup_options_text :: string where
  "cleanup_options_text =
     head_text [''HTTP/1.1 204 No Content'', ''Access-Control-Allow-Origin: *'',
       ''Access-Control-Allow-Methods: POST, OPTIONS'', ''Access-Control-Allow-Headers: X-Hik-Cleanup'',
       ''Cache-Control: no-store'', ''Content-Length: 0'', ''Connection: close'']"

definition options_text :: string where
  "options_text =
     head_text [''HTTP/1.1 204 No Content'', ''Access-Control-Allow-Origin: *'',
       ''Access-Control-Allow-Methods: GET, OPTIONS'', ''Access-Control-Allow-Headers: Content-Type'',
       ''Content-Length: 0'']"

definition method_not_allowed :: failure where
  "method_not_allowed = BridgeError 405 ''METHOD_NOT_ALLOWED''"

definition clean_sessions :: "connection_env \<Rightarrow> http_request \<Rightarrow> unit exchange" where
  "clean_sessions e q =
     (if rq_method q = ''OPTIONS'' then send_text e cleanup_options_text
      else if rq_method q \<noteq> ''POST'' then throw method_not_allowed
      else if omap_find (rq_query q) ''apply'' \<noteq> Some ''true'' then throw invalid_parameter
      else if omap_find (rq_headers q) ''x-hik-cleanup'' \<noteq> Some ''true'' then throw invalid_parameter
      else andthen (\<lambda>s.
             case clean (mark_cleaned (cx_now e) (cx_utc e)) (cn_registry s) (cn_statuses s) of
               (affected, fds, registry, statuses) \<Rightarrow>
                 (Inr affected, s\<lparr>cn_registry := registry, cn_statuses := statuses, cn_shutdown := cn_shutdown s @ fds\<rparr>))
           (\<lambda>affected. andthen (asks cn_registry) (\<lambda>registry.
              send_json_body e (if cleaning registry \<noteq> 0 then 202 else 200)
                (''{\"applied\":true,\"affectedSessions\":'' @ show_nat affected @
                 '',\"cleaningSessions\":'' @ show_nat (cleaning registry) @
                 '',\"generation\":\"'' @ reg_generation registry @ ''\"}''))))"

definition health_body :: "hardware_backend \<Rightarrow> registry \<Rightarrow> string" where
  "health_body hardware r =
     ''{\"status\":\"ok\",\"sdk\":\"hcnetsdk\",'' @ session_counts_json r @
     '',\"capabilities\":{\"cleanSessions\":true},\"generation\":\"'' @ reg_generation r @
     ''\",\"cleaningSessions\":'' @ show_nat (cleaning r) @
     '',\"hardwareAcceleration\":\"'' @ backend_name hardware @ ''\"}''"

definition bridge_version :: string where
  "bridge_version = ''0.9.1.260922''"

definition bridge_release_version :: string where
  "bridge_release_version = ''0.9.1''"

definition bridge_build_date :: string where
  "bridge_build_date = ''2026-09-22''"

definition version_body :: "string \<Rightarrow> hardware_backend \<Rightarrow> string" where
  "version_body architecture hardware =
     ''{\"name\":\"hik-sdk-http-bridge\",\"version\":\"'' @ bridge_version @
     ''\",\"releaseVersion\":\"'' @ bridge_release_version @ ''\",\"buildDate\":\"'' @ bridge_build_date @
     ''\",\"framework\":\"C++17\",\"architecture\":\"'' @ architecture @
     ''\",\"hardwareAcceleration\":\"'' @ backend_name hardware @ ''\"}''"

definition session_not_found :: "connection_env \<Rightarrow> string \<Rightarrow> unit exchange" where
  "session_not_found e sid =
     send_json e 404 ''SESSION_NOT_FOUND'' (cx_message e (BridgeError 404 ''SESSION_NOT_FOUND'')) sid"

definition session_status_request :: "connection_env \<Rightarrow> http_request \<Rightarrow> unit exchange" where
  "session_status_request e q =
     andthen (of_res (required (rq_query q) ''sid'')) (\<lambda>sid.
       andthen (\<lambda>s. case get_status (cx_now e) sid (cn_statuses s) of
                       (status, statuses) \<Rightarrow> (Inr status, s\<lparr>cn_statuses := statuses\<rparr>)) (\<lambda>status.
         case status of
           None \<Rightarrow> session_not_found e sid
         | Some v \<Rightarrow> send_json_body e 200 (session_status_body v)))"

text \<open>\<open>std::stoll\<close> ignores what follows the number.\<close>

definition elapsed_ms :: "query \<Rightarrow> int res" where
  "elapsed_ms q =
     (case omap_find q ''elapsedMs'' of
        None \<Rightarrow> Inr 0
      | Some v \<Rightarrow>
          (case stoll v of
             None \<Rightarrow> Inl invalid_parameter
           | Some (ms, _) \<Rightarrow> if ms < 0 \<or> ms > 600000 then Inl invalid_parameter else Inr ms))"

definition session_rendered_request :: "connection_env \<Rightarrow> http_request \<Rightarrow> unit exchange" where
  "session_rendered_request e q =
     andthen (of_res (required (rq_query q) ''sid'')) (\<lambda>sid.
       andthen (of_res (elapsed_ms (rq_query q))) (\<lambda>ms.
         andthen (\<lambda>s. case set_browser_first_frame (cx_now e) (cx_utc e) (cx_utc e) sid ms (cn_statuses s) of
                         (timing, statuses) \<Rightarrow> (Inr timing, s\<lparr>cn_statuses := statuses\<rparr>)) (\<lambda>timing.
           if timing = None then session_not_found e sid
           else send_json_body e 200 ''{\"status\":\"ok\"}'')))"

section \<open>A connection\<close>

definition handle_request :: "connection_env \<Rightarrow> http_request \<Rightarrow> unit exchange" where
  "handle_request e q =
     (if rq_path q = ''/cleanSessions'' then clean_sessions e q
      else if rq_method q = ''OPTIONS'' then send_text e options_text
      else if rq_method q \<noteq> ''GET'' then throw method_not_allowed
      else if rq_path q = ''/healthz'' \<or> rq_path q = ''/'' then
        andthen (asks cn_registry) (\<lambda>registry. send_json_body e 200 (health_body (cx_hardware e) registry))
      else if rq_path q = ''/version'' then send_json_body e 200 (version_body (cx_architecture e) (cx_hardware e))
      else if rq_path q = ''/session-status'' then session_status_request e q
      else if rq_path q = ''/session-rendered'' then session_rendered_request e q
      else if rq_path q \<noteq> ''/video'' then throw (BridgeError 404 ''NOT_FOUND'')
      else andthen (of_res (parse_stream_request (cx_stod e) (rq_query q) (cx_config e))) (\<lambda>r.
             seq (modify (\<lambda>s. s\<lparr>cn_sid := sr_sid r\<rparr>)) (handle_video e r)))"

text \<open>The handlers at the end; \<open>catch (...)\<close> around their sends.\<close>

definition answer_failure :: "connection_env \<Rightarrow> failure \<Rightarrow> unit exchange" where
  "answer_failure e f =
     andthen (asks (\<lambda>s. (cn_started s, cn_sid s, cn_registry s))) (\<lambda>(started, sid, registry).
       case f of
         ClientDisconnected \<Rightarrow> ret ()
       | BridgeError status code \<Rightarrow>
           if started then ret ()
           else catch (if code = ''SESSION_LIMIT''
                       then send_json_body e 503 (session_limit_body (cx_message e f) sid registry)
                       else send_json e status code (cx_message e f) sid) (\<lambda>_. ret ())
       | RuntimeError \<Rightarrow>
           if started then ret ()
           else catch (send_json e 500 ''INTERNAL_ERROR'' (cx_message e f) sid) (\<lambda>_. ret ()))"

text \<open>\<open>None\<close>: the request has not arrived yet.\<close>

definition handle_connection :: "connection_env \<Rightarrow> connection \<Rightarrow> (unit res \<times> connection) option" where
  "handle_connection e s =
     map_option (\<lambda>request. catch (andthen (of_res request) (handle_request e)) (answer_failure e) s)
       (read_http_request (cx_events e))"

section \<open>What a connection leaves in the registries\<close>

definition lent :: "registry \<Rightarrow> int list \<Rightarrow> connection \<Rightarrow> bool" where
  "lent r0 fds s \<longleftrightarrow> (\<exists>n\<ge>reg_next_ref r0. cn_registry s = r0\<lparr>reg_next_ref := n\<rparr>) \<and> statuses_ok (cn_statuses s) \<and>
     cn_shutdown s = fds"

lemma lent_start: "statuses_ok (cn_statuses s) \<Longrightarrow> lent (cn_registry s) (cn_shutdown s) s"
  by (auto simp: lent_def intro: exI[of _ "reg_next_ref (cn_registry s)"])

lemma lent_fields [simp]:
  "lent r0 fds (s\<lparr>cn_sent := ts\<rparr>) = lent r0 fds s" "lent r0 fds (s\<lparr>cn_sid := sid\<rparr>) = lent r0 fds s"
  "lent r0 fds (s\<lparr>cn_cache := c\<rparr>) = lent r0 fds s" "lent r0 fds (s\<lparr>cn_disk := d\<rparr>) = lent r0 fds s"
  "lent r0 fds (s\<lparr>cn_started := b\<rparr>) = lent r0 fds s"
  "statuses_ok m \<Longrightarrow> lent r0 fds s \<Longrightarrow> lent r0 fds (s\<lparr>cn_statuses := m\<rparr>)"
  by (simp_all add: lent_def)

lemma events_keep_registry:
  assumes "ReturnLease \<notin> set as" and "statuses_ok m"
  shows "\<exists>m'. fold session_step (concat (map (video_events e sid ref) as)) (r, m) = (r, m') \<and> statuses_ok m'"
  using assms
proof (induction as arbitrary: m)
  case (Cons a as)
  have "\<exists>m'. fold session_step (video_events e sid ref a) (r, m) = (r, m') \<and> statuses_ok m'"
    using Cons.prems status_machine.step_inv[of m] by (cases a) (auto simp: video_events_def)
  then show ?case using Cons by fastforce
qed simp

text \<open>What a run of the pipeline gives back: everything between the reservation and the release.\<close>

lemma video_lease_last:
  "\<exists>as. vp_actions (snd (run_video e pf hardware r (new_pipeline cache disk))) = as @ [ReturnLease] \<and>
     ReturnLease \<notin> set as"
proof -
  obtain q where q: "left_behind e pf r q" "snd (run_video e pf hardware r (new_pipeline cache disk)) = released q"
    using run_video_released by blast
  then have "owned q" by (simp add: left_behind_def intact_def)
  then show ?thesis using released_trace[of q] q(2) by (auto simp: owned_def)
qed

lemma handle_video_lent:
  assumes "registry_ok r0"
  shows "spec (lent r0 fds) (handle_video e r) (\<lambda>_. lent r0 fds) (\<lambda>_. lent r0 fds)"
  unfolding handle_video_def
proof (rule spec_seq[OF spec_of_res[where Q = "\<lambda>_. lent r0 fds"]])
  show "spec (lent r0 fds) (andthen (reserve_slot e r) (\<lambda>lease.
      case lease of None \<Rightarrow> throw (BridgeError 503 ''SESSION_LIMIT'') | Some ref \<Rightarrow> stream_video e r ref))
      (\<lambda>_. lent r0 fds) (\<lambda>_. lent r0 fds)"
  proof (rule specI)
    fix s assume l: "lent r0 fds s"
    then obtain n where n: "n \<ge> reg_next_ref r0" "cn_registry s = r0\<lparr>reg_next_ref := n\<rparr>"
      and ok: "statuses_ok (cn_statuses s)" "cn_shutdown s = fds" by (auto simp: lent_def)
    let ?init = "set_active (cx_now e) (cx_now e) (cx_now e) (cx_utc e) (sr_sid r)"
    show "case andthen (reserve_slot e r) (\<lambda>lease.
        case lease of None \<Rightarrow> throw (BridgeError 503 ''SESSION_LIMIT'') | Some ref \<Rightarrow> stream_video e r ref) s of
        (Inl f, s') \<Rightarrow> lent r0 fds s' | (Inr x, s') \<Rightarrow> lent r0 fds s'"
    proof (cases rule: reserve_cases[of "sr_generation r" "cn_registry s" "sr_sid r" "Some (cx_fd e)" ?init "cn_statuses s"])
      case refused
      then show ?thesis using l by (simp add: reserve_slot_def andthen_def)
    next
      case full
      then show ?thesis using l by (simp add: reserve_slot_def andthen_def)
    next
      case (granted st)
      let ?r = "(cn_registry s)\<lparr>reg_states := reg_states (cn_registry s) @ [st], reg_next_ref := reg_next_ref (cn_registry s) + 1\<rparr>"
      let ?m = "?init (cn_statuses s)"
      obtain result p where rp: "run_video (cx_video e) (cx_platform e) (cx_hardware e) r
          (new_pipeline (cn_cache s) (cn_disk s)) = (result, p)" by fastforce
      obtain as where as: "vp_actions p = as @ [ReturnLease]" "ReturnLease \<notin> set as"
        using video_lease_last[of "cx_video e" "cx_platform e" "cx_hardware e" r "cn_cache s" "cn_disk s"] rp by auto
      have "statuses_ok ?m" using ok(1) status_machine.step_inv[of "cn_statuses s" "SetActive (cx_now e) (cx_now e) (cx_now e) (cx_utc e) (sr_sid r)"]
        by simp
      then obtain m' where m': "fold session_step (concat (map (video_events e (sr_sid r) (st_ref st)) as)) (?r, ?m) = (?r, m')"
          "statuses_ok m'" using events_keep_registry[OF as(2)] by blast
      have refs: "\<forall>x\<in>set (reg_states r0). st_ref x \<noteq> n" using assms n(1) by (auto simp: registry_ok_def)
      have keep: "filter (\<lambda>x. st_ref x \<noteq> n) (reg_states r0) = reg_states r0"
        using refs by (simp add: filter_id_conv)
      have "release (st_ref st) ?r = r0\<lparr>reg_next_ref := n + 1\<rparr>"
        using granted n keep by (simp add: release_def)
      moreover have "r0\<lparr>reg_next_ref := n + 1\<rparr> = r0\<lparr>reg_next_ref := Suc n\<rparr>" by simp
      ultimately show ?thesis
        using granted(4) rp as m' n(1) ok(2)
        by (cases result) (auto simp: reserve_slot_def stream_video_def andthen_def lent_def video_events_def intro: exI[of _ "Suc n"])
    qed
  qed
qed auto

section \<open>Every request\<close>

definition is_cleanup :: "http_request \<Rightarrow> bool" where
  "is_cleanup q \<longleftrightarrow> rq_path q = ''/cleanSessions'' \<and> rq_method q = ''POST'' \<and>
     omap_find (rq_query q) ''apply'' = Some ''true'' \<and> omap_find (rq_headers q) ''x-hik-cleanup'' = Some ''true''"

lemma send_text_lent: "spec (lent r0 fds) (send_text e t) (\<lambda>_. lent r0 fds) (\<lambda>_. lent r0 fds)"
  by (rule specI) (simp add: send_text_def throw_if_def split: option.split)

lemma send_json_lent:
  "spec (lent r0 fds) (send_json_body e n t) (\<lambda>_. lent r0 fds) (\<lambda>_. lent r0 fds)"
  "spec (lent r0 fds) (send_json e n c t sid) (\<lambda>_. lent r0 fds) (\<lambda>_. lent r0 fds)"
  "spec (lent r0 fds) (session_not_found e sid) (\<lambda>_. lent r0 fds) (\<lambda>_. lent r0 fds)"
  by (simp_all add: send_json_def send_json_body_def session_not_found_def send_text_lent)

lemma throw_lent: "spec (lent r0 fds) (throw f) (\<lambda>_. lent r0 fds) (\<lambda>_. lent r0 fds)"
  by (rule spec_throw)

lemma ask_lent: "(\<And>x. spec (lent r0 fds) (k x) (\<lambda>_. lent r0 fds) R) \<Longrightarrow> spec (lent r0 fds) (andthen (asks g) k) (\<lambda>_. lent r0 fds) R"
  by (rule spec_andthen[OF spec_asks])

lemma of_res_lent:
  "(\<And>x. m = Inr x \<Longrightarrow> spec (lent r0 fds) (k x) (\<lambda>_. lent r0 fds) (\<lambda>_. lent r0 fds)) \<Longrightarrow>
   spec (lent r0 fds) (andthen (of_res m) k) (\<lambda>_. lent r0 fds) (\<lambda>_. lent r0 fds)"
  by (cases m) (auto simp: spec_def andthen_def of_res_def)

lemma status_step_ok: "statuses_ok m \<Longrightarrow> statuses_ok (status_step ev m)"
  by (rule status_machine.step_inv)

lemma statuses_lent:
  assumes "\<And>m. statuses_ok m \<Longrightarrow> statuses_ok (snd (g m))"
  shows "spec (lent r0 fds) (\<lambda>s. case g (cn_statuses s) of (x, m) \<Rightarrow> (Inr x, s\<lparr>cn_statuses := m\<rparr>))
    (\<lambda>_. lent r0 fds) (\<lambda>_. lent r0 fds)"
proof (rule specI)
  fix s assume "lent r0 fds s"
  then show "case case g (cn_statuses s) of (x, m) \<Rightarrow> (Inr x, s\<lparr>cn_statuses := m\<rparr>) of
      (Inl f, s') \<Rightarrow> lent r0 fds s' | (Inr x, s') \<Rightarrow> lent r0 fds s'"
    using assms[of "cn_statuses s"] by (cases "g (cn_statuses s)") (auto simp: lent_def)
qed

lemma status_request_lent:
  "spec (lent r0 fds) (session_status_request e q) (\<lambda>_. lent r0 fds) (\<lambda>_. lent r0 fds)"
  unfolding session_status_request_def
proof (intro of_res_lent, rule spec_andthen[OF statuses_lent])
  fix sid m
  show "statuses_ok m \<Longrightarrow> statuses_ok (snd (get_status (cx_now e) sid m))"
    using status_step_ok[of m "GetStatus (cx_now e) sid"] by simp
  show "spec (lent r0 fds) (case status of None \<Rightarrow> session_not_found e sid
      | Some v \<Rightarrow> send_json_body e 200 (session_status_body v)) (\<lambda>_. lent r0 fds) (\<lambda>_. lent r0 fds)" for status
    by (rule spec_option) (rule send_json_lent)+
qed

lemma rendered_request_lent:
  "spec (lent r0 fds) (session_rendered_request e q) (\<lambda>_. lent r0 fds) (\<lambda>_. lent r0 fds)"
  unfolding session_rendered_request_def
proof (intro of_res_lent, rule spec_andthen[OF statuses_lent])
  fix sid ms m
  show "statuses_ok m \<Longrightarrow> statuses_ok (snd (set_browser_first_frame (cx_now e) (cx_utc e) (cx_utc e) sid ms m))"
    using status_step_ok[of m "SetFirstFrame (cx_now e) (cx_utc e) (cx_utc e) sid ms"] by simp
  show "spec (lent r0 fds) (if timing = None then session_not_found e sid else send_json_body e 200 ''{\"status\":\"ok\"}'')
      (\<lambda>_. lent r0 fds) (\<lambda>_. lent r0 fds)" for timing :: "(int \<times> int) option"
    by (rule spec_if) (rule send_json_lent)+
qed

lemma request_lent:
  assumes "registry_ok r0" and "\<not> is_cleanup q"
  shows "spec (lent r0 fds) (handle_request e q) (\<lambda>_. lent r0 fds) (\<lambda>_. lent r0 fds)"
proof -
  have clean: "spec (lent r0 fds) (clean_sessions e q) (\<lambda>_. lent r0 fds) (\<lambda>_. lent r0 fds)"
    if "rq_path q = ''/cleanSessions''"
    using assms(2) that unfolding clean_sessions_def is_cleanup_def
    by (intro spec_if send_text_lent throw_lent) simp_all
  have set_sid: "spec (lent r0 fds) (modify (\<lambda>s. s\<lparr>cn_sid := sid\<rparr>)) (\<lambda>_. lent r0 fds) (\<lambda>_. lent r0 fds)" for sid
    by (rule spec_modify) simp
  show ?thesis
    unfolding handle_request_def
    by (intro spec_if ask_lent of_res_lent send_text_lent send_json_lent throw_lent status_request_lent
          rendered_request_lent spec_seq[OF set_sid handle_video_lent[OF assms(1)]] clean)
qed

lemma caught_lent:
  "spec P m (\<lambda>_. P) (\<lambda>_. P) \<Longrightarrow> spec P (catch m (\<lambda>_. ret ())) (\<lambda>_. P) R"
  by (rule spec_catch) (auto intro: spec_ret)

lemma answer_failure_lent: "spec (lent r0 fds) (answer_failure e f) (\<lambda>_. lent r0 fds) R"
  unfolding answer_failure_def
proof (rule ask_lent)
  fix x :: "bool \<times> string \<times> registry"
  show "spec (lent r0 fds) (case x of (started, sid, registry) \<Rightarrow>
       case f of
         ClientDisconnected \<Rightarrow> ret ()
       | BridgeError status code \<Rightarrow>
           if started then ret ()
           else catch (if code = ''SESSION_LIMIT''
                       then send_json_body e 503 (session_limit_body (cx_message e f) sid registry)
                       else send_json e status code (cx_message e f) sid) (\<lambda>_. ret ())
       | RuntimeError \<Rightarrow>
           if started then ret ()
           else catch (send_json e 500 ''INTERNAL_ERROR'' (cx_message e f) sid) (\<lambda>_. ret ())) (\<lambda>_. lent r0 fds) R"
    by (cases x; cases f) (simp_all, (intro conjI impI spec_ret caught_lent send_json_lent spec_if; simp)+)
qed

definition asks_cleanup :: "http_request res \<Rightarrow> bool" where
  "asks_cleanup request \<longleftrightarrow> (case request of Inr q \<Rightarrow> is_cleanup q | Inl _ \<Rightarrow> False)"

definition cleaned_registry :: "registry \<Rightarrow> registry" where
  "cleaned_registry r = fst (snd (snd (clean (\<lambda>_ (w::unit). w) r ())))"

lemma cleaned_registry_ok: "registry_ok r \<Longrightarrow> registry_ok (cleaned_registry r)"
  unfolding cleaned_registry_def by (rule clean_ok)

lemma cleanup_lent:
  assumes "is_cleanup q"
  shows "spec (lent r0 fds) (handle_request e q)
    (\<lambda>_ s. lent (cleaned_registry r0) (fds @ List.map_filter st_fd (running r0)) s)
    (\<lambda>_ s. lent (cleaned_registry r0) (fds @ List.map_filter st_fd (running r0)) s)"
proof -
  let ?L = "lent (cleaned_registry r0) (fds @ List.map_filter st_fd (running r0))"
  have "handle_request e q = andthen (\<lambda>s.
             case clean (mark_cleaned (cx_now e) (cx_utc e)) (cn_registry s) (cn_statuses s) of
               (affected, fds, registry, statuses) \<Rightarrow>
                 (Inr affected, s\<lparr>cn_registry := registry, cn_statuses := statuses, cn_shutdown := cn_shutdown s @ fds\<rparr>))
           (\<lambda>affected. andthen (asks cn_registry) (\<lambda>registry.
              send_json_body e (if cleaning registry \<noteq> 0 then 202 else 200)
                (''{\"applied\":true,\"affectedSessions\":'' @ show_nat affected @
                 '',\"cleaningSessions\":'' @ show_nat (cleaning registry) @
                 '',\"generation\":\"'' @ reg_generation registry @ ''\"}'')))"
    using assms by (simp add: handle_request_def clean_sessions_def is_cleanup_def)
  moreover have "spec (lent r0 fds) \<dots> (\<lambda>_. ?L) (\<lambda>_. ?L)"
  proof (rule spec_andthen)
    show "spec (lent r0 fds) (\<lambda>s.
             case clean (mark_cleaned (cx_now e) (cx_utc e)) (cn_registry s) (cn_statuses s) of
               (affected, fds, registry, statuses) \<Rightarrow>
                 (Inr affected, s\<lparr>cn_registry := registry, cn_statuses := statuses, cn_shutdown := cn_shutdown s @ fds\<rparr>))
        (\<lambda>_. ?L) (\<lambda>_. ?L)"
      by (rule specI) (auto simp: lent_def cleaned_registry_def clean_eq running_def)
  qed (intro ask_lent send_json_lent)
  ultimately show ?thesis by simp
qed

lemma connection_lent:
  assumes "registry_ok (cn_registry s)" and "statuses_ok (cn_statuses s)"
  shows "case catch (andthen (of_res request) (handle_request e)) (answer_failure e) s of (result, s') \<Rightarrow>
    result = Inr () \<and>
    (if asks_cleanup request
     then lent (cleaned_registry (cn_registry s)) (cn_shutdown s @ List.map_filter st_fd (running (cn_registry s))) s'
     else lent (cn_registry s) (cn_shutdown s) s')"
proof -
  define L where "L = (if asks_cleanup request
     then lent (cleaned_registry (cn_registry s)) (cn_shutdown s @ List.map_filter st_fd (running (cn_registry s)))
     else lent (cn_registry s) (cn_shutdown s))"
  have "spec (lent (cn_registry s) (cn_shutdown s)) (andthen (of_res request) (handle_request e)) (\<lambda>_. L) (\<lambda>_. L)"
  proof (cases request)
    case (Inl f)
    then show ?thesis by (auto simp: spec_def andthen_def of_res_def L_def asks_cleanup_def)
  next
    case (Inr q)
    then have "spec (lent (cn_registry s) (cn_shutdown s)) (handle_request e q) (\<lambda>_. L) (\<lambda>_. L)"
      using cleanup_lent[of q "cn_registry s" "cn_shutdown s" e] request_lent[OF assms(1), of q "cn_shutdown s" e]
      by (auto simp: L_def asks_cleanup_def)
    then show ?thesis using Inr by (simp add: spec_def andthen_def of_res_def)
  qed
  moreover have "spec L (answer_failure e f) (\<lambda>_. L) (\<lambda>_ _. False)" for f
    unfolding L_def using answer_failure_lent by auto
  ultimately have "spec (lent (cn_registry s) (cn_shutdown s))
      (catch (andthen (of_res request) (handle_request e)) (answer_failure e)) (\<lambda>_. L) (\<lambda>_ _. False)"
    by (rule spec_catch)
  then have L: "case catch (andthen (of_res request) (handle_request e)) (answer_failure e) s of
      (Inl f, s') \<Rightarrow> False | (Inr x, s') \<Rightarrow> L s'"
    using lent_start[OF assms(2)] by (rule specD)
  obtain result s' where rs: "catch (andthen (of_res request) (handle_request e)) (answer_failure e) s = (result, s')"
    by fastforce
  then have "result = Inr () \<and> L s'" using L by (cases result) simp_all
  then show ?thesis using rs by (simp add: L_def split: if_splits)
qed

lemma registry_next_ok: "registry_ok r \<Longrightarrow> n \<ge> reg_next_ref r \<Longrightarrow> registry_ok (r\<lparr>reg_next_ref := n\<rparr>)"
  by (auto simp: registry_ok_def running_def)

section \<open>What a run of the pipeline sends\<close>

text \<open>\<open>response_started\<close> is set exactly when the head has been sent, unless its own send fails.\<close>

fun is_head :: "video_action \<Rightarrow> bool" where
  "is_head (SendHeaders _ _) = True"
| "is_head _ = False"

lemma head_is_output: "is_head a \<Longrightarrow> is_output a"
  by (cases a) simp_all

definition has_head :: "pipeline \<Rightarrow> bool" where
  "has_head p \<longleftrightarrow> (\<exists>a\<in>set (vp_actions p). is_head a)"

definition head_noted :: "video_env \<Rightarrow> pipeline \<Rightarrow> bool" where
  "head_noted e p \<longleftrightarrow> (ve_headers e = None \<longrightarrow> vp_response_started p = has_head p)"

definition head_sent :: "pipeline \<Rightarrow> bool" where
  "head_sent p \<longleftrightarrow> vp_response_started p \<and> has_head p"

lemma has_head_fields [simp]:
  "has_head (act a p) = (is_head a \<or> has_head p)"
  "has_head (p\<lparr>vp_status_published := b\<rparr>) = has_head p" "has_head (p\<lparr>vp_response_started := b\<rparr>) = has_head p"
  "has_head (p\<lparr>vp_session := x\<rparr>) = has_head p" "has_head (p\<lparr>vp_probe := y\<rparr>) = has_head p"
  "has_head (p\<lparr>vp_ffmpeg := z\<rparr>) = has_head p"
  "vp_response_started (act a p) = vp_response_started p"
  by (auto simp: has_head_def act_def)

lemma head_sent_noted: "head_sent p \<Longrightarrow> head_noted e p"
  by (simp add: head_sent_def head_noted_def)

lemma no_head: "outputs p = [] \<Longrightarrow> \<not> has_head p"
  by (auto simp: outputs_def filter_empty_conv has_head_def dest: head_is_output)

lemma quiet_noted: "quiet n k p \<Longrightarrow> head_noted e p"
  by (simp add: quiet_def head_noted_def no_head)

lemma head_stays:
  "spec head_sent (publish_status e reason) (\<lambda>_. head_sent) (\<lambda>_. head_sent)"
  "spec head_sent (modify (act a)) (\<lambda>_. head_sent) (\<lambda>_. head_sent)"
  "spec head_sent (throw_if c) (\<lambda>_. head_sent) (\<lambda>_. head_sent)"
  unfolding publish_status_def by (auto simp: head_sent_def intro!: spec_modify spec_throw_if)

lemma loop_head: "spec head_sent (stream_loop e rs) (\<lambda>_. head_sent) (\<lambda>_. head_sent)"
proof (induction rs)
  case Nil
  show ?case unfolding stream_loop.simps end_of_stream_def by (rule spec_asks)
next
  case (Cons x rs)
  show ?case
  proof (cases x)
    case (ReadThrows f)
    then show ?thesis by (simp only: stream_loop.simps) (rule spec_throw)
  next
    case (ReadEnds alive)
    then show ?thesis by (simp only: stream_loop.simps end_of_stream_def) (rule spec_asks)
  next
    case (ReadGives d f)
    then show ?thesis
      by (simp only: stream_loop.simps) (rule spec_seq[OF head_stays(2) spec_seq[OF head_stays(3) Cons.IH]])
  qed
qed

lemma respond_head:
  assumes "ve_headers e = None"
  shows "spec (\<lambda>p. quiet n k p) (respond e) (\<lambda>_. head_sent) (\<lambda>_. head_sent)"
proof (rule specI)
  fix p
  let ?p = "act (SendHeaders (vp_mode p) (vp_prefix p)) (act OutputReady p)\<lparr>vp_response_started := True\<rparr>"
  have h: "head_sent ?p" by (simp add: head_sent_def)
  have "spec head_sent (seq (modify (act (SendChunk (vp_prefix p)))) (seq (throw_if (ve_first_chunk e))
      (andthen (stream_loop e (ve_rounds e)) (\<lambda>reason.
        seq (publish_status e reason) (seq (modify (act SendLast)) (throw_if (ve_last e)))))))
      (\<lambda>_. head_sent) (\<lambda>_. head_sent)"
    by (rule spec_seq[OF head_stays(2) spec_seq[OF head_stays(3) spec_andthen[OF loop_head
          spec_seq[OF head_stays(1) spec_seq[OF head_stays(2,3)]]]]])
  from specD[OF this h]
  show "case respond e p of (Inl f, s') \<Rightarrow> head_sent s' | (Inr x, s') \<Rightarrow> head_sent s'"
    by (simp add: respond_def assms throw_if_def)
qed

lemma run_video_noted: "head_noted e (snd (run_video e pf hardware r (new_pipeline cache disk)))"
proof (cases "ve_headers e")
  case None
  let ?N = "head_noted e"
  have "spec (\<lambda>p. quiet 0 0 p \<and> vp_session p = None \<and> no_ffmpeg p \<and> \<not> vp_restart p)
      (produce e pf hardware r) (\<lambda>_. ?N) (\<lambda>_. ?N)"
    unfolding produce_prepare
  proof (rule spec_seq)
    show "spec (\<lambda>p. quiet 0 0 p \<and> vp_session p = None \<and> no_ffmpeg p \<and> \<not> vp_restart p)
        (prepare_answer e pf hardware r) (\<lambda>_ p. quiet 2 3 p) (\<lambda>_. ?N)"
      by (rule spec_weaken[OF prepare_answer_spec]) (auto simp: serving_def up_def intro: quiet_noted)
    show "spec (quiet 2 3) (respond e) (\<lambda>_. ?N) (\<lambda>_. ?N)"
      by (rule spec_weaken[OF respond_head[OF None]]) (auto intro: head_sent_noted)
  qed
  moreover have "spec ?N (seq (publish_status e reason) (throw f)) (\<lambda>_. ?N) (\<lambda>_. ?N)" for reason f
    by (rule spec_seq[OF _ spec_throw], unfold publish_status_def, rule spec_modify) (auto simp: head_noted_def)
  ultimately have all: "spec (\<lambda>p. quiet 0 0 p \<and> vp_session p = None \<and> no_ffmpeg p \<and> \<not> vp_restart p)
      (catch (produce e pf hardware r) (\<lambda>f. seq (publish_status e (failure_reason (ve_running e) f)) (throw f)))
      (\<lambda>_. ?N) (\<lambda>_. ?N)"
    by (rule spec_catch)
  have keep: "?N (released q) = ?N q" for q
    by (auto simp: head_noted_def released_def comp_defs drop_probe_def drop_ffmpeg_def drop_session_def
          split: option.split)
  show ?thesis
    using specD[OF all new_pipeline_quiet, of cache disk] keep
    unfolding run_video_def released_def
    by (auto split: prod.splits sum.splits)
qed (simp add: head_noted_def)

lemma video_texts:
  "concat (map (video_text r c) as) = concat (map (video_text r c) (filter is_output as))"
  by (induction as) (auto simp: video_text_def split: video_action.split)

lemma chunk_texts: "concat (map (video_text r c) (map SendChunk cs)) = map (chunk_text \<circ> media_text) cs"
  by (induction cs) (simp_all add: video_text_def)

lemma released_outputs: "left_behind e pf r q \<Longrightarrow> filter is_output (vp_actions (released q)) = outputs q"
  using released_trace[of q] by (auto simp: left_behind_def intact_def outputs_def)

text \<open>Nothing, or a head with chunks behind it and perhaps the last chunk.\<close>

lemma run_video_texts:
  fixes e pf hardware r cache disk c
  defines "p \<equiv> snd (run_video e pf hardware r (new_pipeline cache disk))"
  shows "\<not> has_head p \<and> concat (map (video_text r c) (vp_actions p)) = [] \<or>
    has_head p \<and> (\<exists>d cs tail. concat (map (video_text r c) (vp_actions p)) =
      video_headers r c d # map (chunk_text \<circ> media_text) cs @ tail \<and> (tail = [] \<or> tail = [last_chunk]))"
proof -
  obtain q where q: "left_behind e pf r q" "p = released q"
    using run_video_released unfolding p_def by blast
  have out: "filter is_output (vp_actions p) = outputs q" using released_outputs[OF q(1)] q(2) by simp
  have head: "has_head p = (\<exists>a\<in>set (outputs q). is_head a)"
    unfolding out[symmetric] by (auto simp: has_head_def dest: head_is_output)
  obtain before bs tail reason where o': "outputs q = before @ PublishEnd reason # tail"
    "before = [] \<and> tail = [] \<or> (\<exists>rest. begun e pf r rest before) \<and> (tail = [] \<or> tail = [SendLast])"
    using q(1) unfolding left_behind_def settled_answer_def reported_def by fastforce
  show ?thesis
    using o'(2)
  proof (elim disjE conjE exE)
    assume "before = []" "tail = []"
    then show ?thesis using o'(1) by (subst (1 2) video_texts) (simp add: out head video_text_def)
  next
    fix rest assume "begun e pf r rest before" "tail = []"
    then obtain mode d cs where b: "before = SendHeaders mode d # map SendChunk cs" by (auto simp: begun_def)
    have "concat (map (video_text r c) (outputs q)) = video_headers r c d # map (chunk_text \<circ> media_text) cs"
      using o'(1) b \<open>tail = []\<close> chunk_texts[of r c cs] by (simp add: video_text_def)
    then show ?thesis using o'(1) b unfolding head by (subst (1 2) video_texts) (auto simp: out)
  next
    fix rest assume "begun e pf r rest before" "tail = [SendLast]"
    then obtain mode d cs where b: "before = SendHeaders mode d # map SendChunk cs" by (auto simp: begun_def)
    have "concat (map (video_text r c) (outputs q)) = video_headers r c d # map (chunk_text \<circ> media_text) cs @ [last_chunk]"
      using o'(1) b \<open>tail = [SendLast]\<close> chunk_texts[of r c cs] by (simp add: video_text_def)
    then show ?thesis using o'(1) b unfolding head by (subst (1 2) video_texts) (auto simp: out)
  qed
qed

lemma run_video_head:
  "isl (fst (run_video e pf hardware r (new_pipeline cache disk))) \<or> has_head (snd (run_video e pf hardware r (new_pipeline cache disk)))"
proof -
  let ?run = "run_video e pf hardware r (new_pipeline cache disk)"
  obtain q where q: "left_behind e pf r q" "snd ?run = released q" "isl (fst ?run) \<or> answered e pf r q"
    using run_video_released by blast
  have "has_head (released q)" if "answered e pf r q"
  proof -
    have "\<exists>a\<in>set (outputs q). is_head a" using that by (auto simp: answered_def begun_def reported_def)
    then show ?thesis unfolding released_outputs[OF q(1), symmetric] by (auto simp: has_head_def)
  qed
  then show ?thesis using q(2,3) by auto
qed

section \<open>One answer\<close>

definition unanswered :: "string list \<Rightarrow> connection \<Rightarrow> bool" where
  "unanswered ts s \<longleftrightarrow> cn_sent s = ts \<and> \<not> cn_started s"

definition video_answer :: "string list \<Rightarrow> config \<Rightarrow> connection \<Rightarrow> bool" where
  "video_answer ts c s \<longleftrightarrow> (\<exists>r d cs tail. cn_sent s = ts @ video_headers r c d # map (chunk_text \<circ> media_text) cs @ tail \<and>
     (tail = [] \<or> tail = [last_chunk]))"

definition one_answer :: "string list \<Rightarrow> config \<Rightarrow> connection \<Rightarrow> bool" where
  "one_answer ts c s \<longleftrightarrow> (\<exists>t. cn_sent s = ts @ [t]) \<or> video_answer ts c s"

definition refused_request :: "string list \<Rightarrow> config \<Rightarrow> connection \<Rightarrow> bool" where
  "refused_request ts c s \<longleftrightarrow> unanswered ts s \<or> cn_started s \<and> video_answer ts c s"

abbreviation answers :: "connection_env \<Rightarrow> string list \<Rightarrow> unit exchange \<Rightarrow> bool" where
  "answers e ts m \<equiv> spec (unanswered ts) m (\<lambda>_. one_answer ts (cx_config e)) (\<lambda>_. refused_request ts (cx_config e))"

lemma text_answers:
  assumes "\<And>n. cx_send e n = None"
  shows "answers e ts (send_text e t)" "answers e ts (send_json_body e n t)"
    "answers e ts (send_json e n c t sid)" "answers e ts (session_not_found e sid)"
  using assms
  by (simp_all add: spec_def send_text_def send_json_body_def send_json_def session_not_found_def throw_if_def
        unanswered_def one_answer_def)

lemma throw_answers: "answers e ts (throw f)"
  by (rule spec_throw) (simp add: refused_request_def)

lemma ask_answers: "(\<And>x. answers e ts (k x)) \<Longrightarrow> answers e ts (andthen (asks g) k)"
  by (rule spec_andthen[OF spec_asks])

lemma of_res_answers: "(\<And>x. m = Inr x \<Longrightarrow> answers e ts (k x)) \<Longrightarrow> answers e ts (andthen (of_res m) k)"
  by (cases m) (auto simp: spec_def andthen_def of_res_def refused_request_def)

lemma update_answers:
  assumes "\<And>s. cn_sent (snd (g s)) = cn_sent s \<and> cn_started (snd (g s)) = cn_started s \<and> (\<exists>x. fst (g s) = Inr x)"
    and "\<And>x. answers e ts (k x)"
  shows "answers e ts (andthen g k)"
proof (rule spec_andthen[where Q' = "\<lambda>_. unanswered ts"], rule specI)
  fix s assume u: "unanswered ts s"
  obtain x s' where "g s = (Inr x, s')" using assms(1)[of s] by (metis prod.collapse)
  then show "case g s of (Inl f, s') \<Rightarrow> refused_request ts (cx_config e) s' | (Inr x, s') \<Rightarrow> unanswered ts s'"
    using u assms(1)[of s] by (simp add: unanswered_def)
qed (rule assms(2))

lemma statuses_answers:
  "(\<And>x. answers e ts (k x)) \<Longrightarrow>
   answers e ts (andthen (\<lambda>s. case g (cn_statuses s) of (x, m) \<Rightarrow> (Inr x, s\<lparr>cn_statuses := m\<rparr>)) k)"
  by (rule update_answers) (simp_all add: case_prod_beta)

lemma cleanup_answers:
  assumes "\<And>n. cx_send e n = None"
  shows "answers e ts (clean_sessions e q)"
  unfolding clean_sessions_def
  by (intro spec_if text_answers[OF assms] throw_answers update_answers ask_answers) (simp add: clean_eq)

text \<open>A video request that fails has sent nothing, or has begun its answer.\<close>

lemma video_answers:
  assumes "ve_headers (cx_video e) = None"
  shows "answers e ts (handle_video e r)"
  unfolding handle_video_def seq_def
proof (intro of_res_answers)
  show "answers e ts (andthen (reserve_slot e r)
       (\<lambda>lease. case lease of None \<Rightarrow> throw (BridgeError 503 ''SESSION_LIMIT'') | Some ref \<Rightarrow> stream_video e r ref))"
  proof (rule spec_andthen[where Q' = "\<lambda>_. unanswered ts"])
    show "spec (unanswered ts) (reserve_slot e r) (\<lambda>_. unanswered ts) (\<lambda>_. refused_request ts (cx_config e))"
      by (auto simp: spec_def reserve_slot_def unanswered_def refused_request_def split: prod.split sum.split)
    fix lease
    have "answers e ts (stream_video e r ref)" for ref
    proof (rule specI)
      fix s assume s: "unanswered ts s"
      let ?run = "run_video (cx_video e) (cx_platform e) (cx_hardware e) r (new_pipeline (cn_cache s) (cn_disk s))"
      obtain result p where rp: "?run = (result, p)" by fastforce
      obtain m where m: "stream_video e r ref s = (result, s\<lparr>cn_registry := fst m, cn_statuses := snd m,
          cn_cache := vp_cache p, cn_disk := vp_disk p,
          cn_sent := cn_sent s @ concat (map (video_text r (cx_config e)) (vp_actions p)),
          cn_started := vp_response_started p\<rparr>)"
        using rp by (cases "fold session_step (concat (map (video_events e (sr_sid r) ref) (vp_actions p)))
          (cn_registry s, cn_statuses s)") (auto simp: stream_video_def)
      define s' where "s' = snd (stream_video e r ref s)"
      have s': "cn_sent s' = ts @ concat (map (video_text r (cx_config e)) (vp_actions p))"
          "cn_started s' = vp_response_started p" "stream_video e r ref s = (result, s')"
        using s by (simp_all add: s'_def m unanswered_def)
      have noted: "vp_response_started p = has_head p" "isl result \<or> has_head p"
        using run_video_noted[of "cx_video e" "cx_platform e" "cx_hardware e" r "cn_cache s" "cn_disk s"]
          run_video_head[of "cx_video e" "cx_platform e" "cx_hardware e" r "cn_cache s" "cn_disk s"] assms rp
        by (simp_all add: head_noted_def)
      note texts = run_video_texts[of "cx_video e" "cx_platform e" "cx_hardware e" r "cn_cache s" "cn_disk s" "cx_config e",
          unfolded rp snd_conv]
      have head: "video_answer ts (cx_config e) s'" if "has_head p"
        using texts that unfolding video_answer_def s'(1) by blast
      have none: "unanswered ts s'" if "\<not> has_head p"
        using texts that noted(1) s' by (simp add: unanswered_def)
      show "case stream_video e r ref s of
          (Inl f, s') \<Rightarrow> refused_request ts (cx_config e) s' | (Inr x, s') \<Rightarrow> one_answer ts (cx_config e) s'"
        using head none noted s'(2) unfolding s'(3)
        by (cases result) (auto simp: refused_request_def one_answer_def)
    qed
    then show "answers e ts (case lease of None \<Rightarrow> throw (BridgeError 503 ''SESSION_LIMIT'') | Some ref \<Rightarrow> stream_video e r ref)"
      by (intro spec_option throw_answers) auto
  qed
qed

lemma request_answers:
  assumes "\<And>n. cx_send e n = None" and "ve_headers (cx_video e) = None"
  shows "answers e ts (handle_request e q)"
proof -
  note t = text_answers[OF assms(1)]
  have "answers e ts (session_status_request e q)"
    unfolding session_status_request_def by (intro of_res_answers statuses_answers spec_option t)
  moreover have "answers e ts (session_rendered_request e q)"
    unfolding session_rendered_request_def by (intro of_res_answers statuses_answers spec_if t)
  moreover have "answers e ts (seq (modify (\<lambda>s. s\<lparr>cn_sid := sid\<rparr>)) (handle_video e r))" for sid r
    by (rule spec_seq[OF spec_modify video_answers[OF assms(2)]]) (simp add: unanswered_def)
  ultimately show ?thesis
    unfolding handle_request_def
    by (intro spec_if cleanup_answers[OF assms(1)] ask_answers of_res_answers t throw_answers)
qed

lemma failure_answers:
  assumes "\<And>n. cx_send e n = None"
  shows "spec (refused_request ts c) (answer_failure e f)
    (\<lambda>_ s. cn_sent s = ts \<and> f = ClientDisconnected \<or> one_answer ts c s) (\<lambda>_ _. False)"
  using assms
  by (cases f) (auto simp: spec_def answer_failure_def catch_def send_text_def send_json_body_def send_json_def throw_if_def
        refused_request_def unanswered_def one_answer_def andthen_def seq_def video_answer_def)

lemma handle_video_sent:
  assumes "fst (handle_video e r s) = Inr ()"
  defines "run \<equiv> run_video (cx_video e) (cx_platform e) (cx_hardware e) r (new_pipeline (cn_cache s) (cn_disk s))"
  shows "fst run = Inr () \<and> cn_sent (snd (handle_video e r s)) =
    cn_sent s @ concat (map (video_text r (cx_config e)) (vp_actions (snd run)))"
  using assms(1)
  by (cases "cx_client e")
     (auto simp: handle_video_def of_res_def reserve_slot_def andthen_def seq_def stream_video_def run_def throw_def
       split: prod.splits sum.splits option.splits)

section \<open>Properties\<close>

text \<open>C3: Whatever a client sends and however the sends and the video pipeline fail, a connection ends
  without an exception and leaves the shared registries in order: its slot is back and every other
  session is as it was.  Only a request that is a POST of /cleanSessions with both apply=true and the
  header X-Hik-Cleanup: true (which a page cannot send across origins without a preflight) cancels
  sessions, changes the generation and shuts the sockets of the running sessions down.\<close>

theorem registry_after_connection:
  assumes "sessions_ok (cn_registry s, cn_statuses s)"
    and "read_http_request (cx_events e) = Some request"
  shows "case handle_connection e s of
      None \<Rightarrow> False
    | Some (result, s') \<Rightarrow>
        result = Inr () \<and> sessions_ok (cn_registry s', cn_statuses s') \<and>
        (\<exists>n. cn_registry s' =
           (if asks_cleanup request then cleaned_registry (cn_registry s) else cn_registry s)\<lparr>reg_next_ref := n\<rparr>) \<and>
        cn_shutdown s' = cn_shutdown s @
          (if asks_cleanup request then List.map_filter st_fd (running (cn_registry s)) else [])"
proof -
  have ok: "registry_ok (cn_registry s)" "statuses_ok (cn_statuses s)"
    using assms(1) by (simp_all add: sessions_ok_def)
  obtain result s' where r: "catch (andthen (of_res request) (handle_request e)) (answer_failure e) s = (result, s')"
    by fastforce
  have h: "handle_connection e s = Some (result, s')" using assms(2) r by (simp add: handle_connection_def)
  show ?thesis
    using connection_lent[OF ok, of request e] ok cleaned_registry_ok[OF ok(1)]
    unfolding h by (auto simp: r lent_def sessions_ok_def registry_next_ok split: if_splits)
qed

lemma read_whole:
  assumes "word_ok method" "word_ok target" "\<forall>h\<in>set hs. header_ok h"
  shows "read_http_request [Received (render_request method target hs)] = Some (Inr (request_of method target hs))"
proof -
  have "header_complete (render_request method target hs)"
    using blank_line_found[of "first_line method target # map header_text hs"] first_line_ok[OF assms(1,2)]
      header_text_ok assms(3)
    by (auto simp: header_complete_def render_request_def)
  then have "read_raw [Received (render_request method target hs)] [] = Some (Inr (render_request method target hs))"
    by (cases "header_complete []")
       (simp_all add: read_raw_done read_raw_more, simp add: header_complete_def header_limit_def crlf_def)
  then show ?thesis by (simp add: read_http_request_def parse_render[OF assms])
qed

definition cleanup_request :: string where
  "cleanup_request = render_request ''POST'' ''/cleanSessions?apply=true'' [(''X-Hik-Cleanup'', ''true'')]"

definition example_env :: "recv_event list \<Rightarrow> video_env \<Rightarrow> connection_env" where
  "example_env events video =
     \<lparr>cx_fd = 5, cx_events = events, cx_config = default_config, cx_platform = Windows, cx_hardware = NoBackend,
      cx_architecture = ''windows-x64'', cx_stod = \<lambda>_. Some (Fin 1), cx_now = 0, cx_utc = 0, cx_client = Inr (),
      cx_video = video, cx_figures = no_figures, cx_send = \<lambda>_. None, cx_message = \<lambda>_. ''error''\<rparr>"

definition example_connection :: connection where
  "example_connection =
     \<lparr>cn_registry = new_registry 2 ''7'', cn_statuses = [], cn_cache = empty_cache, cn_disk = None,
      cn_sent = [], cn_shutdown = [], cn_started = False, cn_sid = []\<rparr>"

lemma cleanup_request_read:
  "read_http_request [Received cleanup_request] =
     Some (Inr (request_of ''POST'' ''/cleanSessions?apply=true'' [(''X-Hik-Cleanup'', ''true'')]))"
  unfolding cleanup_request_def
  by (rule read_whole) (simp_all add: word_ok_def header_ok_def ws_char_def byte_simps)

theorem registry_after_connection_witness:
  "case handle_connection (example_env [Received cleanup_request] steady_env) example_connection of
     None \<Rightarrow> False | Some (result, s') \<Rightarrow> result = Inr () \<and> sessions_ok (cn_registry s', cn_statuses s')"
proof -
  have "sessions_ok (cn_registry example_connection, cn_statuses example_connection)"
    using fresh_ok[of 2 "''7''"] by (simp add: example_connection_def fresh_def)
  from registry_after_connection[OF this, of "example_env [Received cleanup_request] steady_env"] cleanup_request_read
  show ?thesis by (auto simp: example_env_def split: option.splits)
qed

text \<open>C22: As long as sending works, a connection is answered at most once: with one response, or with one
  video head, whole chunks and at most one last chunk; an error that comes after the head is never
  written into the stream.\<close>

theorem one_answer_per_connection:
  assumes "\<forall>n. cx_send e n = None" and "ve_headers (cx_video e) = None" and "\<not> cn_started s"
    and "handle_connection e s = Some (result, s')"
  shows "\<exists>ts. cn_sent s' = cn_sent s @ ts \<and>
    (length ts \<le> 1 \<or> (\<exists>r d cs tail. ts = video_headers r (cx_config e) d # map (chunk_text \<circ> media_text) cs @ tail \<and>
       (tail = [] \<or> tail = [last_chunk])))"
proof -
  have sends: "\<And>n. cx_send e n = None" using assms(1) by simp
  obtain request where rq: "catch (andthen (of_res request) (handle_request e)) (answer_failure e) s = (result, s')"
    using assms(4) by (auto simp: handle_connection_def)
  have "spec (unanswered (cn_sent s)) (catch (andthen (of_res request) (handle_request e)) (answer_failure e))
      (\<lambda>_ s'. cn_sent s' = cn_sent s \<or> one_answer (cn_sent s) (cx_config e) s') (\<lambda>_ _. False)"
    by (rule spec_catch[OF spec_weaken[OF of_res_answers[OF request_answers[OF sends assms(2)]]]
          spec_weaken[OF failure_answers[OF sends]]]) auto
  moreover have "unanswered (cn_sent s) s" using assms(3) by (simp add: unanswered_def)
  ultimately have "case (result, s') of (Inl f, t) \<Rightarrow> False | (Inr x, t) \<Rightarrow> cn_sent t = cn_sent s \<or> one_answer (cn_sent s) (cx_config e) t"
    unfolding rq[symmetric] by (rule specD)
  then have "cn_sent s' = cn_sent s \<or> one_answer (cn_sent s) (cx_config e) s'" by (simp split: sum.splits)
  then show ?thesis unfolding one_answer_def video_answer_def by (elim disjE exE conjE) auto
qed

theorem one_answer_per_connection_witness:
  "let s' = snd (the (handle_connection (example_env [Received cleanup_request] steady_env) example_connection))
   in \<exists>ts. cn_sent s' = ts \<and> (length ts \<le> 1 \<or> (\<exists>r d cs tail.
     ts = video_headers r default_config d # map (chunk_text \<circ> media_text) cs @ tail \<and> (tail = [] \<or> tail = [last_chunk])))"
proof -
  let ?e = "example_env [Received cleanup_request] steady_env"
  obtain result s' where h: "handle_connection ?e example_connection = Some (result, s')"
    using cleanup_request_read by (simp add: handle_connection_def example_env_def) (metis surj_pair)
  have "\<forall>n. cx_send ?e n = None" "ve_headers (cx_video ?e) = None" "\<not> cn_started example_connection"
    by (simp_all add: example_env_def steady_env_def example_connection_def)
  moreover have "cn_sent example_connection = []" "cx_config ?e = default_config"
    by (simp_all add: example_env_def example_connection_def)
  ultimately show ?thesis
    using one_answer_per_connection[of ?e example_connection result s'] h unfolding Let_def h by simp
qed

text \<open>C4: A video request that ends normally has delivered the media: a client that reads the chunks behind
  the head decodes exactly the first fragment's data and everything read from FFmpeg after it.\<close>

theorem video_body_delivered:
  assumes "fst (handle_video e r s) = Inr ()"
    and "\<forall>k i d. ve_media (cx_video e) k i = Inr d \<longrightarrow> d \<noteq> []"
    and "\<forall>d\<in>set (round_data (ve_rounds (cx_video e))). d \<noteq> []"
  shows "\<exists>d texts. cn_sent (snd (handle_video e r s)) = cn_sent s @ video_headers r (cx_config e) d # texts \<and>
    (\<exists>k i. ve_media (cx_video e) k i = Inr d) \<and>
    dechunk (concat texts) = Some (media_text (d @ concat (round_data (ve_rounds (cx_video e)))))"
proof -
  let ?run = "run_video (cx_video e) (cx_platform e) (cx_hardware e) r (new_pipeline (cn_cache s) (cn_disk s))"
  let ?rounds = "round_data (ve_rounds (cx_video e))"
  have run: "fst ?run = Inr () \<and> cn_sent (snd (handle_video e r s)) =
      cn_sent s @ concat (map (video_text r (cx_config e)) (vp_actions (snd ?run)))"
    using assms(1) by (rule handle_video_sent)
  then obtain mode d reason where d: "\<exists>k i. ve_media (cx_video e) k i = Inr d"
    and out: "filter is_output (vp_actions (snd ?run)) =
      SendHeaders mode d # map SendChunk (d # ?rounds) @ [PublishEnd reason, SendLast]"
    using run_video_delivers by blast
  let ?ds = "map media_text (d # ?rounds)"
  have texts: "concat (map (video_text r (cx_config e)) (vp_actions (snd ?run))) =
      video_headers r (cx_config e) d # map chunk_text ?ds @ [last_chunk]"
    unfolding video_texts[of _ _ "vp_actions (snd ?run)"] out
    by (simp add: video_text_def) (simp add: video_text_def comp_def concat_map_singleton)
  have "\<forall>t\<in>set ?ds. t \<noteq> []" using assms(2,3) d by (auto simp: media_text_def)
  then have "dechunk (concat (map chunk_text ?ds @ [last_chunk])) = Some (concat ?ds)"
    using dechunk_concat[of ?ds "[]"] by simp
  moreover have "concat ?ds = media_text (d @ concat ?rounds)"
    by (simp add: media_text_def[abs_def] map_concat)
  ultimately show ?thesis using run d texts
    by (intro exI[of _ d] exI[of _ "map chunk_text ?ds @ [last_chunk]"]) simp
qed

lemma example_slot:
  "reserve_slot (example_env events video) normal_speed example_connection =
     (Inr (Some 0), snd (reserve_slot (example_env events video) normal_speed example_connection))"
  "cn_cache (snd (reserve_slot (example_env events video) normal_speed example_connection)) = empty_cache"
  "cn_disk (snd (reserve_slot (example_env events video) normal_speed example_connection)) = None"
  "cn_sent (snd (reserve_slot (example_env events video) normal_speed example_connection)) = []"
  by (simp_all add: reserve_slot_def example_env_def example_connection_def normal_speed_def example_request_def
        reserve_def refused_generation_def new_registry_def slots_def Let_def)

lemma stream_video_fields:
  fixes e r ref s
  defines "run \<equiv> run_video (cx_video e) (cx_platform e) (cx_hardware e) r (new_pipeline (cn_cache s) (cn_disk s))"
  shows "fst (stream_video e r ref s) = fst run"
    "cn_sent (snd (stream_video e r ref s)) = cn_sent s @ concat (map (video_text r (cx_config e)) (vp_actions (snd run)))"
    "cn_started (snd (stream_video e r ref s)) = vp_response_started (snd run)"
    "cn_sid (snd (stream_video e r ref s)) = cn_sid s"
  by (simp_all add: stream_video_def case_prod_beta run_def)

lemma example_video_step:
  "handle_video (example_env events video) normal_speed example_connection =
     stream_video (example_env events video) normal_speed 0
       (snd (reserve_slot (example_env events video) normal_speed example_connection))"
  using example_slot(1)[of events video] by (simp add: handle_video_def of_res_def example_env_def)

lemma example_video:
  "fst (handle_video (example_env events steady_env) normal_speed example_connection) = Inr ()"
proof -
  have "fst (run_video steady_env Windows NoBackend normal_speed (new_pipeline empty_cache None)) = Inr ()"
    by (rule steady_run_copies)
  then show ?thesis
    using example_slot(2,3)[of events steady_env]
    by (simp add: example_video_step stream_video_def case_prod_beta) (simp add: example_env_def)
qed

theorem video_body_delivered_witness:
  "\<exists>d texts. cn_sent (snd (handle_video (example_env [] steady_env) normal_speed example_connection)) =
      video_headers normal_speed default_config d # texts \<and> dechunk (concat texts) = Some (media_text (d @ [1, 2]))"
proof -
  let ?e = "example_env [] steady_env"
  have e: "cx_video ?e = steady_env" "cx_config ?e = default_config" "cn_sent example_connection = []"
    by (simp_all add: example_env_def example_connection_def)
  have "\<forall>k i d. ve_media (cx_video ?e) k i = Inr d \<longrightarrow> d \<noteq> []"
    unfolding e by (auto simp: steady_env_def)
  moreover have "\<forall>d\<in>set (round_data (ve_rounds (cx_video ?e))). d \<noteq> []"
    unfolding e steady_rounds by simp
  ultimately show ?thesis
    using video_body_delivered[OF example_video, of "[]"] unfolding e steady_rounds by auto
qed

text \<open>A request whose video head times out on its way to the browser.\<close>

definition stalled_env :: video_env where
  "stalled_env = steady_env\<lparr>ve_headers := Some (BridgeError 504 ''CLIENT_WRITE_TIMEOUT'')\<rparr>"

lemma stalled_run:
  "fst (run_video stalled_env Windows NoBackend normal_speed (new_pipeline empty_cache None)) =
     Inl (BridgeError 504 ''CLIENT_WRITE_TIMEOUT'')"
  "\<not> vp_response_started (snd (run_video stalled_env Windows NoBackend normal_speed (new_pipeline empty_cache None)))"
  "concat (map (video_text normal_speed c)
     (vp_actions (snd (run_video stalled_env Windows NoBackend normal_speed (new_pipeline empty_cache None))))) =
     [video_headers normal_speed c [9]]"
  by (simp_all add: stalled_env_def steady_run h264_copy_allowed_def normal_speed_def example_request_def
        detect_video_codec_def contains_atom_def find_atom_def media_text_def video_text_def)


end
