(* ===== verification/Connection_Workers.thy ===== *)
theory Connection_Workers
  imports Machine "HOL-Library.Multiset" "HOL-Library.Word"
begin

text \<open>
  \<open>ConnectionWorkers\<close> and the accept loop of \<open>run_server\<close>: the threads that serve connections, their
  sockets, and the shutdown.  A worker's thread takes its handler's end in two steps, as the code does:
  closing the socket under the mutex, then \<open>done\<close>.  What is done to sockets and threads is a trace.
\<close>

section \<open>Workers\<close>

datatype worker_action =
    AcceptSocket int
  | ShutdownSocket int
  | BusyResponse int
  | CloseSocket int
  | StartThread nat int
  | JoinThread nat

record worker =
  wk_id :: nat
  wk_socket :: "int option"      \<comment> \<open>\<open>None\<close> is \<open>invalid_socket\<close>\<close>
  wk_done :: bool

record workers =
  cw_workers :: "worker list"
  cw_maximum :: nat
  cw_next :: nat
  cw_stopping :: bool
  cw_trace :: "worker_action list"

definition new_workers :: "nat \<Rightarrow> workers" where
  "new_workers maximum =
     \<lparr>cw_workers = [], cw_maximum = maximum, cw_next = 0, cw_stopping = False, cw_trace = []\<rparr>"

definition record_actions :: "worker_action list \<Rightarrow> workers \<Rightarrow> workers" where
  "record_actions as w = w\<lparr>cw_trace := cw_trace w @ as\<rparr>"

definition reap :: "workers \<Rightarrow> workers" where
  "reap w = record_actions (map (JoinThread \<circ> wk_id) (filter wk_done (cw_workers w)))
     (w\<lparr>cw_workers := filter (\<lambda>k. \<not> wk_done k) (cw_workers w)\<rparr>)"

text \<open>\<open>start\<close>: the socket can be made non-blocking, the worker allocated, the thread created.\<close>

definition start_worker :: "bool \<Rightarrow> bool \<Rightarrow> bool \<Rightarrow> int \<Rightarrow> workers \<Rightarrow> bool \<times> workers" where
  "start_worker configured allocated threaded client w =
     (if \<not> configured then (False, record_actions [CloseSocket client] w)
      else let w = reap w in
        if length (cw_workers w) \<ge> cw_maximum w then
          (False, record_actions [BusyResponse client, CloseSocket client] w)
        else if \<not> allocated \<or> \<not> threaded then (False, record_actions [CloseSocket client] w)
        else (True, record_actions [StartThread (cw_next w) client]
                (w\<lparr>cw_workers := cw_workers w @ [\<lparr>wk_id = cw_next w, wk_socket = Some client, wk_done = False\<rparr>],
                   cw_next := cw_next w + 1\<rparr>)))"

text \<open>The end of a worker's thread.\<close>

definition clear_socket :: "nat \<Rightarrow> worker list \<Rightarrow> worker list" where
  "clear_socket i ks = map (\<lambda>k. if wk_id k = i then k\<lparr>wk_socket := None\<rparr> else k) ks"

definition close_worker :: "nat \<Rightarrow> workers \<Rightarrow> workers" where
  "close_worker i w =
     (case find (\<lambda>k. wk_id k = i) (cw_workers w) of
        None \<Rightarrow> w
      | Some k \<Rightarrow>
          (case wk_socket k of
             None \<Rightarrow> w
           | Some fd \<Rightarrow> record_actions [CloseSocket fd]
               (w\<lparr>cw_workers := clear_socket i (cw_workers w)\<rparr>)))"

definition mark_done :: "nat \<Rightarrow> worker list \<Rightarrow> worker list" where
  "mark_done i ks = map (\<lambda>k. if wk_id k = i \<and> wk_socket k = None then k\<lparr>wk_done := True\<rparr> else k) ks"

definition finish_worker :: "nat \<Rightarrow> workers \<Rightarrow> workers" where
  "finish_worker i w = w\<lparr>cw_workers := mark_done i (cw_workers w)\<rparr>"

definition open_sockets :: "workers \<Rightarrow> int list" where
  "open_sockets w = List.map_filter wk_socket (cw_workers w)"

text \<open>The destructor: the sockets are shut down, then every thread is joined; \<open>None\<close>, a join waits.\<close>

definition shutdown_sockets :: "workers \<Rightarrow> workers" where
  "shutdown_sockets w = record_actions (map ShutdownSocket (open_sockets w)) (w\<lparr>cw_stopping := True\<rparr>)"

definition join_workers :: "workers \<Rightarrow> workers option" where
  "join_workers w =
     (if list_all wk_done (cw_workers w)
      then Some (record_actions (map (JoinThread \<circ> wk_id) (cw_workers w)) (w\<lparr>cw_workers := []\<rparr>))
      else None)"

section \<open>The accept loop\<close>

definition af_inet :: int where
  "af_inet = 2"

record peer =
  pr_family :: int
  pr_address :: "8 word list"    \<comment> \<open>the four bytes of \<open>s_addr\<close> in memory\<close>

definition ntohl :: "8 word list \<Rightarrow> 32 word" where
  "ntohl bs = foldl (\<lambda>a b. 256 * a + ucast b) 0 bs"

definition is_local_ipv4_client :: "peer \<Rightarrow> bool" where
  "is_local_ipv4_client p \<longleftrightarrow> pr_family p = af_inet \<and> ntohl (pr_address p) = 0x7f000001"

text \<open>A round: the poll fails (interrupted or not), finds nothing, the accept fails, or a client is there.\<close>

datatype accept_round =
    PollError
  | NoConnection
  | AcceptError
  | Connection int peer bool bool bool

definition accept_step :: "accept_round \<Rightarrow> workers \<Rightarrow> workers" where
  "accept_step r w =
     (let w = reap w in
      case r of
        PollError \<Rightarrow> w
      | NoConnection \<Rightarrow> w
      | AcceptError \<Rightarrow> w
      | Connection fd p configured allocated threaded \<Rightarrow>
          let w = record_actions [AcceptSocket fd] w in
          if \<not> is_local_ipv4_client p then record_actions [CloseSocket fd] w
          else snd (start_worker configured allocated threaded fd w))"

text \<open>The loop with the threads it starts: the main thread accepts until \<open>g_running\<close> is false, then the
  destructor runs.\<close>

datatype server_event =
    Accept accept_round
  | CloseWorker nat
  | FinishWorker nat
  | Shutdown

fun server_step :: "server_event \<Rightarrow> workers \<Rightarrow> workers" where
  "server_step (Accept r) w = (if cw_stopping w then w else accept_step r w)"
| "server_step (CloseWorker i) w = close_worker i w"
| "server_step (FinishWorker i) w = finish_worker i w"
| "server_step Shutdown w = (if cw_stopping w then w else shutdown_sockets w)"

section \<open>What a trace leaves behind\<close>

text \<open>
  The sockets and the threads that are alive; \<open>None\<close> is a violation: a socket used after it was closed
  or closed twice, a thread joined twice.
\<close>

fun track_workers :: "int multiset \<times> nat multiset \<Rightarrow> worker_action list \<Rightarrow> (int multiset \<times> nat multiset) option" where
  "track_workers l [] = Some l"
| "track_workers (s, t) (AcceptSocket fd # as) = track_workers (add_mset fd s, t) as"
| "track_workers (s, t) (ShutdownSocket fd # as) = (if fd \<in># s then track_workers (s, t) as else None)"
| "track_workers (s, t) (BusyResponse fd # as) = (if fd \<in># s then track_workers (s, t) as else None)"
| "track_workers (s, t) (CloseSocket fd # as) = (if fd \<in># s then track_workers (s - {#fd#}, t) as else None)"
| "track_workers (s, t) (StartThread i fd # as) = (if fd \<in># s then track_workers (s, add_mset i t) as else None)"
| "track_workers (s, t) (JoinThread i # as) = (if i \<in># t then track_workers (s, t - {#i#}) as else None)"

lemma track_workers_append: "track_workers l (as @ bs) = Option.bind (track_workers l as) (\<lambda>l. track_workers l bs)"
  by (induction l as rule: track_workers.induct) auto

definition thread_ids :: "workers \<Rightarrow> nat list" where
  "thread_ids w = map wk_id (cw_workers w)"

text \<open>The state between two operations; \<open>extra\<close> are sockets that no worker has taken over yet.\<close>

definition workers_ok :: "int multiset \<Rightarrow> workers \<Rightarrow> bool" where
  "workers_ok extra w \<longleftrightarrow>
     track_workers ({#}, {#}) (cw_trace w) = Some (mset (open_sockets w) + extra, mset (thread_ids w)) \<and>
     length (cw_workers w) \<le> cw_maximum w \<and>
     distinct (thread_ids w) \<and> (\<forall>i\<in>set (thread_ids w). i < cw_next w) \<and>
     (\<forall>k\<in>set (cw_workers w). wk_done k \<longrightarrow> wk_socket k = None)"

abbreviation workers_inv :: "workers \<Rightarrow> bool" where
  "workers_inv \<equiv> workers_ok {#}"

lemma track_joins:
  "mset is \<subseteq># t \<Longrightarrow> track_workers (s, t) (map JoinThread is) = Some (s, t - mset is)"
  by (induction "is" arbitrary: t) (auto simp: insert_subset_eq_iff)

lemma track_shutdowns:
  "set fds \<subseteq> set_mset s \<Longrightarrow> track_workers (s, t) (map ShutdownSocket fds) = Some (s, t)"
  by (induction fds) auto

lemma record_actions_fields [simp]:
  "cw_workers (record_actions as w) = cw_workers w" "cw_maximum (record_actions as w) = cw_maximum w"
  "cw_next (record_actions as w) = cw_next w" "cw_stopping (record_actions as w) = cw_stopping w"
  "cw_trace (record_actions as w) = cw_trace w @ as"
  "open_sockets (record_actions as w) = open_sockets w" "thread_ids (record_actions as w) = thread_ids w"
  by (simp_all add: record_actions_def open_sockets_def thread_ids_def)

lemma map_filter_undone:
  "\<forall>k\<in>set ks. wk_done k \<longrightarrow> wk_socket k = None \<Longrightarrow>
   List.map_filter wk_socket (filter (\<lambda>k. \<not> wk_done k) ks) = List.map_filter wk_socket ks"
  by (induction ks) (auto simp: List.map_filter_def)

lemma mset_filter_minus:
  "mset (map f ks) - mset (map f (filter P ks)) = mset (map f (filter (\<lambda>k. \<not> P k) ks))"
proof -
  have "mset (map f ks) = mset (map f (filter P ks)) + mset (map f (filter (\<lambda>k. \<not> P k) ks))"
    by (induction ks) auto
  then show ?thesis by simp
qed

lemma reap_ok:
  assumes "workers_ok extra w"
  shows "workers_ok extra (reap w)"
proof -
  let ?done = "map wk_id (filter wk_done (cw_workers w))"
  have t: "track_workers ({#}, {#}) (cw_trace w) = Some (mset (open_sockets w) + extra, mset (thread_ids w))"
    and d: "\<forall>k\<in>set (cw_workers w). wk_done k \<longrightarrow> wk_socket k = None"
    using assms by (auto simp: workers_ok_def)
  have "mset ?done \<subseteq># mset (thread_ids w)"
    unfolding thread_ids_def by (simp add: image_mset_subseteq_mono)
  then have "track_workers (mset (open_sockets w) + extra, mset (thread_ids w)) (map JoinThread ?done) =
      Some (mset (open_sockets w) + extra, mset (thread_ids w) - mset ?done)" by (rule track_joins)
  moreover have "mset (thread_ids w) - mset ?done = mset (thread_ids (reap w))"
    unfolding thread_ids_def reap_def by (simp only: mset_filter_minus record_actions_fields) simp
  moreover have "open_sockets (reap w) = open_sockets w"
    using map_filter_undone[OF d] by (simp add: reap_def open_sockets_def)
  ultimately have "track_workers ({#}, {#}) (cw_trace (reap w)) = Some (mset (open_sockets (reap w)) + extra, mset (thread_ids (reap w)))"
    using t by (simp add: reap_def track_workers_append flip: map_map)
  moreover have "length (cw_workers (reap w)) \<le> cw_maximum (reap w)"
    using assms by (auto simp: workers_ok_def reap_def intro: le_trans[OF length_filter_le])
  ultimately show ?thesis
    using assms by (auto simp: workers_ok_def reap_def thread_ids_def distinct_map_filter)
qed

lemma reap_fields [simp]:
  "cw_maximum (reap w) = cw_maximum w" "cw_next (reap w) = cw_next w" "cw_stopping (reap w) = cw_stopping w"
  by (simp_all add: reap_def)

lemma close_pending:
  "workers_ok {#fd#} w \<Longrightarrow> workers_inv (record_actions [CloseSocket fd] w)"
  "workers_ok {#fd#} w \<Longrightarrow> workers_inv (record_actions [BusyResponse fd, CloseSocket fd] w)"
  by (auto simp: workers_ok_def track_workers_append)

lemma start_ok:
  assumes "workers_ok {#fd#} w"
  shows "workers_inv (snd (start_worker configured allocated threaded fd w))"
proof -
  note r = reap_ok[OF assms]
  have "workers_inv (record_actions [StartThread (cw_next w) fd]
      ((reap w)\<lparr>cw_workers := cw_workers (reap w) @ [\<lparr>wk_id = cw_next w, wk_socket = Some fd, wk_done = False\<rparr>],
         cw_next := cw_next w + 1\<rparr>))" if "length (cw_workers (reap w)) < cw_maximum w"
    using r that
    by (auto simp: workers_ok_def track_workers_append open_sockets_def thread_ids_def List.map_filter_def less_Suc_eq)
  then show ?thesis
    using close_pending[OF assms] close_pending[OF r]
    by (auto simp: start_worker_def Let_def)
qed

lemma accept_ok:
  assumes "workers_inv w"
  shows "workers_inv (accept_step r w)"
proof -
  have "workers_ok {#fd#} (record_actions [AcceptSocket fd] (reap w))" for fd
    using reap_ok[OF assms] by (auto simp: workers_ok_def track_workers_append)
  then show ?thesis
    using reap_ok[OF assms] start_ok close_pending(1)
    by (auto simp: accept_step_def Let_def split: accept_round.split)
qed

lemma clear_socket_ids: "map wk_id (clear_socket i ks) = map wk_id ks" "length (clear_socket i ks) = length ks"
  by (induction ks) (auto simp: clear_socket_def)

lemma clear_socket_sockets:
  assumes "distinct (map wk_id ks)" and "k \<in> set ks" and "wk_socket k = Some fd"
  shows "mset (List.map_filter wk_socket (clear_socket (wk_id k) ks)) = mset (List.map_filter wk_socket ks) - {#fd#} \<and>
    fd \<in> set (List.map_filter wk_socket ks)"
  using assms
proof (induction ks)
  case (Cons x ks)
  show ?case
  proof (cases "x = k")
    case True
    then have "\<forall>y\<in>set ks. wk_id y \<noteq> wk_id k" using Cons.prems(1) by (simp, metis imageI)
    then have "clear_socket (wk_id k) ks = ks"
      by (simp add: clear_socket_def map_idI)
    then show ?thesis using True Cons.prems(3) by (simp add: List.map_filter_def clear_socket_def)
  next
    case False
    then have "k \<in> set ks" "wk_id x \<noteq> wk_id k" using Cons.prems(1,2) by (auto simp: image_iff)
    then show ?thesis
      using Cons by (cases "wk_socket x") (auto simp: List.map_filter_def clear_socket_def)
  qed
qed simp

lemma clear_socket_done: "x \<in> set (clear_socket i ks) \<Longrightarrow> \<exists>k\<in>set ks. wk_done k = wk_done x \<and> (wk_socket k = None \<longrightarrow> wk_socket x = None)"
  by (auto simp: clear_socket_def)

lemma close_worker_ok:
  assumes "workers_inv w"
  shows "workers_inv (close_worker i w)"
proof (cases "find (\<lambda>k. wk_id k = i) (cw_workers w)")
  case None
  then show ?thesis using assms by (simp add: close_worker_def)
next
  case found: (Some k)
  then have k: "k \<in> set (cw_workers w)" "wk_id k = i" by (auto simp: find_Some_iff)
  show ?thesis
  proof (cases "wk_socket k")
    case None
    then show ?thesis using assms found by (simp add: close_worker_def)
  next
    case (Some fd)
    let ?w = "w\<lparr>cw_workers := clear_socket i (cw_workers w)\<rparr>"
    have "distinct (map wk_id (cw_workers w))" using assms by (simp add: workers_ok_def thread_ids_def)
    note m = clear_socket_sockets[OF this k(1) Some, unfolded k(2)]
    have "thread_ids ?w = thread_ids w" by (simp add: thread_ids_def clear_socket_ids)
    moreover have "mset (open_sockets ?w) = mset (open_sockets w) - {#fd#}" "fd \<in> set (open_sockets w)"
      using m by (simp_all add: open_sockets_def)
    moreover have "\<forall>x\<in>set (clear_socket i (cw_workers w)). wk_done x \<longrightarrow> wk_socket x = None"
      using assms clear_socket_done unfolding workers_ok_def by metis
    ultimately have "workers_inv (record_actions [CloseSocket fd] ?w)"
      using assms unfolding workers_ok_def by (simp add: track_workers_append clear_socket_ids)
    then show ?thesis using found Some by (simp add: close_worker_def)
  qed
qed

lemma mark_done_sockets: "List.map_filter wk_socket (mark_done i ks) = List.map_filter wk_socket ks"
    "map wk_id (mark_done i ks) = map wk_id ks" "length (mark_done i ks) = length ks"
  by (induction ks) (auto simp: mark_done_def List.map_filter_def)

lemma mark_done_done: "x \<in> set (mark_done i ks) \<Longrightarrow> wk_done x \<Longrightarrow> wk_socket x = None \<or> (\<exists>k\<in>set ks. x = k)"
  by (auto simp: mark_done_def)

lemma finish_worker_ok:
  assumes "workers_inv w"
  shows "workers_inv (finish_worker i w)"
proof -
  have "open_sockets (finish_worker i w) = open_sockets w" "thread_ids (finish_worker i w) = thread_ids w"
    "length (cw_workers (finish_worker i w)) = length (cw_workers w)"
    by (simp_all add: finish_worker_def open_sockets_def thread_ids_def mark_done_sockets)
  moreover have "\<forall>x\<in>set (mark_done i (cw_workers w)). wk_done x \<longrightarrow> wk_socket x = None"
    using assms mark_done_done unfolding workers_ok_def by metis
  ultimately show ?thesis
    using assms unfolding workers_ok_def by (simp add: finish_worker_def)
qed

lemma shutdown_ok: "workers_inv w \<Longrightarrow> workers_inv (shutdown_sockets w)"
  by (auto simp: shutdown_sockets_def workers_ok_def track_workers_append track_shutdowns open_sockets_def thread_ids_def)

interpretation worker_machine: machine server_step workers_inv
proof
  fix w e assume "workers_inv w"
  then show "workers_inv (server_step e w)"
    by (cases e) (simp_all add: accept_ok close_worker_ok finish_worker_ok shutdown_ok)
qed

section \<open>The loopback address\<close>

lemma ntohl_four: "ntohl [a, b, c, d] = word_of_nat (2 ^ 24 * unat a + 2 ^ 16 * unat b + 2 ^ 8 * unat c + unat d)"
  by (simp add: ntohl_def algebra_simps)

lemma byte_sum:
  assumes "A < 256" "B < 256" "C < 256" "D < (256::nat)"
  shows "16777216 * A + 65536 * B + 256 * C + D = 2130706433 \<longleftrightarrow> A = 127 \<and> B = 0 \<and> C = 0 \<and> D = 1"
proof
  assume e: "16777216 * A + 65536 * B + 256 * C + D = 2130706433"
  have "A = 127" using e assms by linarith
  moreover have r: "65536 * B + 256 * C + D = 1" using e \<open>A = 127\<close> by simp
  moreover have "B = 0" using r by (cases B) simp_all
  moreover have "C = 0" using r by (cases C) simp_all
  ultimately show "A = 127 \<and> B = 0 \<and> C = 0 \<and> D = 1" by simp
qed simp

lemma loopback_bytes:
  assumes "length bs = 4"
  shows "ntohl bs = 0x7f000001 \<longleftrightarrow> bs = [127, 0, 0, 1]"
proof -
  obtain a b c d where bs: "bs = [a, b, c, d]"
    using assms by (auto simp: length_Suc_conv numeral_eq_Suc)
  have lt: "unat a < 256" "unat b < 256" "unat c < 256" "unat d < 256"
    using unsigned_less[of a, where 'a = nat] unsigned_less[of b, where 'a = nat] unsigned_less[of c, where 'a = nat]
      unsigned_less[of d, where 'a = nat] by simp_all
  let ?n = "2 ^ 24 * unat a + 2 ^ 16 * unat b + 2 ^ 8 * unat c + unat d"
  have "?n < 2 ^ 32" using lt by simp
  then have "unat (word_of_nat ?n :: 32 word) = ?n" by (simp only: unat_of_nat) (simp add: take_bit_nat_eq_self)
  moreover have "unat (0x7f000001 :: 32 word) = 0x7f000001" by simp
  ultimately have "ntohl bs = 0x7f000001 \<longleftrightarrow> ?n = 0x7f000001"
    unfolding bs ntohl_four word_unat_eq_iff by (simp only:)
  also have "\<dots> \<longleftrightarrow> unat a = 127 \<and> unat b = 0 \<and> unat c = 0 \<and> unat d = 1"
    using byte_sum[OF lt] by simp
  also have "\<dots> \<longleftrightarrow> bs = [127, 0, 0, 1]"
    by (simp add: bs word_unat_eq_iff)
  finally show ?thesis .
qed

section \<open>The end of the threads\<close>

definition socket_closed :: "nat \<Rightarrow> workers \<Rightarrow> bool" where
  "socket_closed i w \<longleftrightarrow> (\<forall>k\<in>set (cw_workers w). wk_id k = i \<longrightarrow> wk_socket k = None)"

definition thread_done :: "nat \<Rightarrow> workers \<Rightarrow> bool" where
  "thread_done i w \<longleftrightarrow> (\<forall>k\<in>set (cw_workers w). wk_id k = i \<longrightarrow> wk_done k)"

lemma stopping_step:
  assumes "cw_stopping w"
  shows "cw_stopping (server_step e w) \<and> thread_ids (server_step e w) = thread_ids w"
  using assms
  by (cases e) (auto simp: close_worker_def finish_worker_def thread_ids_def clear_socket_ids mark_done_sockets
      simp del: map_eq_conv split: option.split)

lemma socket_closed_step: "cw_stopping w \<Longrightarrow> socket_closed i w \<Longrightarrow> socket_closed i (server_step e w)"
  by (cases e) (auto simp: socket_closed_def close_worker_def finish_worker_def clear_socket_def mark_done_def split: option.split)

lemma thread_done_step: "cw_stopping w \<Longrightarrow> thread_done i w \<Longrightarrow> thread_done i (server_step e w)"
  by (cases e) (auto simp: thread_done_def close_worker_def finish_worker_def clear_socket_def mark_done_def split: option.split)

lemma clear_clears:
  assumes "k \<in> set (clear_socket i ks)" and "wk_id k = i"
  shows "wk_socket k = None"
proof -
  obtain x where x: "k = (if wk_id x = i then x\<lparr>wk_socket := None\<rparr> else x)"
    using assms(1) unfolding clear_socket_def set_map by (elim imageE)
  show ?thesis
  proof (cases "wk_id x = i")
    case True
    have "wk_socket (if wk_id x = i then x\<lparr>wk_socket := None\<rparr> else x) = None" using True by simp
    then show ?thesis by (simp only: x)
  next
    case False
    then have "k = x" using x by (simp only: if_False)
    then show ?thesis using False assms(2) by blast
  qed
qed

lemma mark_done_marks:
  assumes "k \<in> set (mark_done i ks)" and "wk_id k = i" and "\<forall>k\<in>set ks. wk_id k = i \<longrightarrow> wk_socket k = None"
  shows "wk_done k"
proof -
  obtain x where x: "x \<in> set ks" "k = (if wk_id x = i \<and> wk_socket x = None then x\<lparr>wk_done := True\<rparr> else x)"
    using assms(1) unfolding mark_done_def set_map by (elim imageE)
  show ?thesis
  proof (cases "wk_id x = i \<and> wk_socket x = None")
    case True
    have "wk_done (if wk_id x = i \<and> wk_socket x = None then x\<lparr>wk_done := True\<rparr> else x)" using True by simp
    then show ?thesis by (simp only: x(2))
  next
    case False
    then have "k = x" using x(2) by (simp only: if_False)
    then show ?thesis using False assms(2,3) x(1) by blast
  qed
qed

lemma close_closes:
  assumes "workers_inv w"
  shows "socket_closed i (server_step (CloseWorker i) w)"
proof (cases "find (\<lambda>k. wk_id k = i) (cw_workers w)")
  case None
  then have "close_worker i w = w" by (simp add: close_worker_def)
  then show ?thesis using None by (auto simp: find_None_iff socket_closed_def)
next
  case (Some k)
  then have k: "k \<in> set (cw_workers w)" "wk_id k = i" by (auto simp: find_Some_iff)
  have "k' = k" if "k' \<in> set (cw_workers w)" "wk_id k' = i" for k'
    using assms k that unfolding workers_ok_def thread_ids_def by (metis distinct_map inj_onD)
  then have only: "\<forall>k'\<in>set (cw_workers w). wk_id k' = i \<longrightarrow> k' = k" by blast
  show ?thesis
  proof (cases "wk_socket k")
    case None
    then have "close_worker i w = w" using Some by (simp add: close_worker_def)
    then show ?thesis using only None unfolding socket_closed_def by (metis server_step.simps(2))
  next
    case (Some fd)
    then show ?thesis
      using \<open>find _ _ = Some k\<close> clear_clears by (simp add: close_worker_def socket_closed_def)
  qed
qed

lemma finish_finishes: "socket_closed i w \<Longrightarrow> thread_done i (server_step (FinishWorker i) w)"
  using mark_done_marks unfolding socket_closed_def thread_done_def by (simp add: finish_worker_def)

lemma stopping_run:
  "cw_stopping w \<Longrightarrow> cw_stopping (worker_machine.run es w) \<and> thread_ids (worker_machine.run es w) = thread_ids w"
  by (induction es arbitrary: w) (use stopping_step in \<open>auto simp: thread_ids_def\<close>)

lemma socket_closed_run: "cw_stopping w \<Longrightarrow> socket_closed i w \<Longrightarrow> socket_closed i (worker_machine.run es w)"
  by (induction es arbitrary: w) (simp_all add: socket_closed_step stopping_step)

lemma done_run: "cw_stopping w \<Longrightarrow> thread_done i w \<Longrightarrow> thread_done i (worker_machine.run es w)"
  by (induction es arbitrary: w) (simp_all add: thread_done_step stopping_step)

lemma thread_ends:
  assumes "workers_inv w" and "cw_stopping w" and "FinishWorker i \<in> set ys"
  shows "thread_done i (worker_machine.run (xs @ CloseWorker i # ys) w)"
proof -
  let ?w = "worker_machine.run xs w"
  let ?c = "server_step (CloseWorker i) ?w"
  obtain us vs where ys: "ys = us @ FinishWorker i # vs" using assms(3) by (meson split_list)
  have s: "cw_stopping ?w" using stopping_run[OF assms(2)] by simp
  have c: "cw_stopping ?c" "socket_closed i ?c"
    using stopping_step[OF s, of "CloseWorker i"] close_closes[OF worker_machine.run_inv[OF assms(1)]] by simp_all
  let ?u = "worker_machine.run us ?c"
  have "socket_closed i ?u" "cw_stopping ?u" using socket_closed_run[OF c] stopping_run[OF c(1)] by simp_all
  then have "thread_done i (server_step (FinishWorker i) ?u)" "cw_stopping (server_step (FinishWorker i) ?u)"
    using finish_finishes stopping_step by blast+
  then have "thread_done i (worker_machine.run vs (server_step (FinishWorker i) ?u))" by (rule done_run[rotated])
  then show ?thesis by (simp add: ys worker_machine.run_append)
qed

lemma new_workers_inv: "workers_inv (new_workers m)"
  by (simp add: workers_ok_def new_workers_def open_sockets_def thread_ids_def List.map_filter_def)

lemma step_maximum: "cw_maximum (server_step e w) = cw_maximum w"
  by (cases e) (auto simp: accept_step_def start_worker_def Let_def close_worker_def finish_worker_def
      shutdown_sockets_def split: accept_round.split option.split)

lemma run_maximum: "cw_maximum (worker_machine.run es w) = cw_maximum w"
  by (induction es arbitrary: w) (simp_all add: step_maximum)

section \<open>Properties\<close>

lemma joined_all:
  assumes i: "workers_inv w" and j: "join_workers w = Some w'"
  shows "track_workers ({#}, {#}) (cw_trace w') = Some ({#}, {#})"
proof -
  have d: "\<forall>k\<in>set (cw_workers w). wk_done k" using j by (auto simp: join_workers_def list_all_iff split: if_splits)
  then have "\<forall>k\<in>set (cw_workers w). wk_socket k = None" using i by (auto simp: workers_ok_def)
  then have "open_sockets w = []" by (auto simp: open_sockets_def List.map_filter_def filter_empty_conv)
  moreover have "cw_trace w' = cw_trace w @ map JoinThread (thread_ids w)"
    using j by (auto simp: join_workers_def thread_ids_def split: if_splits)
  ultimately show ?thesis using i by (simp add: workers_ok_def track_workers_append track_joins)
qed

text \<open>When the handlers that are left at the shutdown have returned, the joins go through.\<close>

definition handlers_return :: "server_event list \<Rightarrow> workers \<Rightarrow> bool" where
  "handlers_return fs w \<longleftrightarrow>
     (\<forall>i\<in>set (thread_ids w). \<exists>xs ys. fs = xs @ CloseWorker i # ys \<and> FinishWorker i \<in> set ys)"

text \<open>C9: Whatever clients come, however their handlers end and whenever the shutdown begins, no client
  socket is used after it was closed, none is closed twice, no thread is joined twice, and there are
  never more workers than configured; when the destructor has joined the threads, every accepted
  socket has been closed and every started thread joined.\<close>

theorem sockets_closed_once:
  "let w = worker_machine.run es (new_workers m)
   in track_workers ({#}, {#}) (cw_trace w) = Some (mset (open_sockets w), mset (thread_ids w)) \<and>
      length (cw_workers w) \<le> m \<and>
      (case join_workers w of
         None \<Rightarrow> \<exists>k\<in>set (cw_workers w). \<not> wk_done k
       | Some w' \<Rightarrow> track_workers ({#}, {#}) (cw_trace w') = Some ({#}, {#}))"
proof -
  define w where "w = worker_machine.run es (new_workers m)"
  have i: "workers_inv w" unfolding w_def by (rule worker_machine.run_inv[OF new_workers_inv])
  have m: "cw_maximum w = m" unfolding w_def by (simp add: run_maximum) (simp add: new_workers_def)
  have "track_workers ({#}, {#}) (cw_trace w') = Some ({#}, {#})" if "join_workers w = Some w'" for w'
    using joined_all[OF i that] .
  moreover have "\<exists>k\<in>set (cw_workers w). \<not> wk_done k" if "join_workers w = None"
    using that by (auto simp: join_workers_def list_all_iff split: if_splits)
  ultimately show ?thesis
    unfolding Let_def w_def[symmetric] using i m by (auto simp: workers_ok_def split: option.split)
qed

lemma shutdown_joins:
  assumes "handlers_return fs (worker_machine.run es (new_workers m))"
  shows "join_workers (worker_machine.run (es @ Shutdown # fs) (new_workers m)) \<noteq> None"
proof -
  let ?w = "worker_machine.run es (new_workers m)"
  let ?s = "server_step Shutdown ?w"
  have i: "workers_inv ?s" by (rule worker_machine.step_inv) (rule worker_machine.run_inv[OF new_workers_inv])
  have s: "cw_stopping ?s" "thread_ids ?s = thread_ids ?w"
    by (auto simp: shutdown_sockets_def thread_ids_def)
  let ?f = "worker_machine.run fs ?s"
  have "thread_done j ?f" if j: "j \<in> set (thread_ids ?w)" for j
  proof -
    obtain xs ys where "fs = xs @ CloseWorker j # ys" "FinishWorker j \<in> set ys" using assms j unfolding handlers_return_def by blast
    then show ?thesis using thread_ends[OF i s(1), of j ys xs] by simp
  qed
  moreover have "thread_ids ?f = thread_ids ?w" using stopping_run[OF s(1), of fs] s(2) by simp
  moreover have "wk_id k \<in> set (thread_ids ?f)" if "k \<in> set (cw_workers ?f)" for k
    using that by (simp add: thread_ids_def)
  ultimately have "\<forall>k\<in>set (cw_workers ?f). wk_done k" unfolding thread_done_def by metis
  then show ?thesis by (simp add: join_workers_def list_all_iff worker_machine.run_append)
qed


definition local_peer :: peer where
  "local_peer = \<lparr>pr_family = 2, pr_address = [127, 0, 0, 1]\<rparr>"


text \<open>Only clients of the loopback address are served: every connection that gets a thread came over IPv4
  from 127.0.0.1 (no other address of 127.0.0.0/8, and no IPv6 peer).\<close>

theorem only_loopback_served:
  assumes "StartThread i fd \<in> set (cw_trace (worker_machine.run es (new_workers m)))"
  shows "\<exists>p c a t. Accept (Connection fd p c a t) \<in> set es \<and> pr_family p = af_inet \<and>
    (length (pr_address p) = 4 \<longrightarrow> pr_address p = [127, 0, 0, 1])"
proof -
  have step: "StartThread i fd \<in> set (cw_trace w) \<or> (\<exists>p c a t. e = Accept (Connection fd p c a t) \<and> is_local_ipv4_client p)"
    if "StartThread i fd \<in> set (cw_trace (server_step e w))" for e w
  proof (cases e)
    case (Accept r)
    then show ?thesis using that
      by (cases r) (auto simp: accept_step_def start_worker_def reap_def Let_def split: if_splits)
  next
    case (CloseWorker j)
    then show ?thesis using that by (auto simp: close_worker_def split: option.splits)
  qed (use that in \<open>auto simp: finish_worker_def shutdown_sockets_def split: if_splits\<close>)
  have "StartThread i fd \<in> set (cw_trace w) \<or> (\<exists>p c a t. Accept (Connection fd p c a t) \<in> set es \<and> is_local_ipv4_client p)"
    if "StartThread i fd \<in> set (cw_trace (worker_machine.run es w))" for w
    using that
  proof (induction es arbitrary: w)
    case (Cons e es)
    have "StartThread i fd \<in> set (cw_trace (worker_machine.run es (server_step e w)))"
      using Cons.prems by simp
    from Cons.IH[OF this] show ?case
    proof (elim disjE exE conjE)
      assume "StartThread i fd \<in> set (cw_trace (server_step e w))"
      from step[OF this] show ?thesis by auto
    qed auto
  qed simp
  from this[OF assms] obtain p c a t where "Accept (Connection fd p c a t) \<in> set es" "is_local_ipv4_client p"
    by (auto simp: new_workers_def)
  then show ?thesis using loopback_bytes by (auto simp: is_local_ipv4_client_def)
qed

theorem only_loopback_served_witness:
  "\<exists>p c a t. Accept (Connection 5 p c a t) \<in> set [Accept (Connection 5 local_peer True True True)] \<and> pr_family p = af_inet \<and>
    (length (pr_address p) = 4 \<longrightarrow> pr_address p = [127, 0, 0, 1])"
  by (rule only_loopback_served[where i = 0 and m = 2])
     (simp add: accept_step_def Let_def is_local_ipv4_client_def local_peer_def loopback_bytes af_inet_def
        start_worker_def reap_def new_workers_def)

text \<open>A full server answers busy: a loopback client that comes while every slot's thread is still at work
  gets the busy response and is closed, and nothing else changes; with a finished thread the slot is
  taken again.\<close>

theorem full_server_answers_busy:
  assumes "is_local_ipv4_client p" and "\<not> cw_stopping w"
    and "\<forall>k\<in>set (cw_workers w). \<not> wk_done k" and "length (cw_workers w) \<ge> cw_maximum w"
  shows "server_step (Accept (Connection fd p True a t)) w =
    record_actions [AcceptSocket fd, BusyResponse fd, CloseSocket fd] w"
  using assms by (simp add: accept_step_def start_worker_def reap_def record_actions_def Let_def filter_id_conv)

theorem full_server_answers_busy_witness:
  "server_step (Accept (Connection 6 local_peer True True True)) (new_workers 0) =
     record_actions [AcceptSocket 6, BusyResponse 6, CloseSocket 6] (new_workers 0)"
  by (rule full_server_answers_busy)
     (simp_all add: is_local_ipv4_client_def local_peer_def loopback_bytes af_inet_def new_workers_def)

end
