(* ===== verification/Bridge_Main.thy ===== *)
theory Bridge_Main
  imports Config Stream_Request
begin

text \<open>
  \<open>run_bridge\<close>: the command line, the checks before the server starts, and the exit code.  The file
  system, loading the configuration and running the server are arguments; what the function does is a
  list of actions.
\<close>

section \<open>The code\<close>

datatype main_action =
    PrintVersion
  | PrintConfigValid string
  | StartLogger config
  | HandleSignals
  | IgnorePipeSignal
  | RunServer config
  | LogConfigError string
  | LogStartError string
  | LogUnexpected
  | ServiceError string

record main_env =
  me_default_path :: string
  me_load :: "string \<Rightarrow> config res"
  me_sdk_present :: "config \<Rightarrow> bool"        \<comment> \<open>\<open>HCNetSDK.dll\<close> or \<open>libhcnetsdk.so\<close>\<close>
  me_ffmpeg_present :: "config \<Rightarrow> bool"
  me_logger :: "config \<Rightarrow> failure option"
  me_server :: "config \<Rightarrow> failure option"

definition invalid_command :: failure where
  "invalid_command = BridgeError 400 ''INVALID_COMMAND''"

text \<open>The arguments behind the program's name: the configuration's path, and whether it is only validated.\<close>

datatype argument_class = Skipped | Validates | TakesPath | Unknown

definition argument_kind :: "platform \<Rightarrow> bool \<Rightarrow> string \<Rightarrow> argument_class" where
  "argument_kind pf service a =
     (if a = ''run'' then Skipped
      else if pf = Windows \<and> a = ''service'' \<and> service then Skipped
      else if a = ''validate-config'' \<or> a = ''--validate-config'' then Validates
      else if a = ''--config'' then TakesPath
      else Unknown)"

fun read_arguments :: "platform \<Rightarrow> bool \<Rightarrow> string list \<Rightarrow> string \<times> bool \<Rightarrow> (string \<times> bool) res" where
  "read_arguments pf service [] r = Inr r"
| "read_arguments pf service (a # as) r =
     (case argument_kind pf service a of
        Skipped \<Rightarrow> read_arguments pf service as r
      | Validates \<Rightarrow> read_arguments pf service as (fst r, True)
      | TakesPath \<Rightarrow>
          (case as of [] \<Rightarrow> Inl invalid_command | p # as' \<Rightarrow> read_arguments pf service as' (p, snd r))
      | Unknown \<Rightarrow> Inl invalid_command)"

definition config_error_codes :: "string list" where
  "config_error_codes =
     [''CONFIG_NOT_FOUND'', ''INVALID_CONFIG'', ''INVALID_COMMAND'', ''SDK_NOT_FOUND'', ''FFMPEG_NOT_FOUND'']"

text \<open>The body of the \<open>try\<close> block behind the version check: a failure, or the normal end.\<close>

definition bridge_body :: "main_env \<Rightarrow> platform \<Rightarrow> bool \<Rightarrow> string list \<Rightarrow> unit res \<times> main_action list" where
  "bridge_body e pf service args =
     (case bind_res (read_arguments pf service args (me_default_path e, False)) (\<lambda>(path, validate).
             map_sum id (\<lambda>c. (path, validate, c)) (me_load e path)) of
        Inl f \<Rightarrow> (Inl f, [])
      | Inr (path, validate, c) \<Rightarrow>
          if \<not> me_sdk_present e c then (Inl (BridgeError 500 ''SDK_NOT_FOUND''), [])
          else if \<not> me_ffmpeg_present e c then (Inl (BridgeError 500 ''FFMPEG_NOT_FOUND''), [])
          else if validate then (Inr (), [PrintConfigValid path])
          else case me_logger e c of
            Some f \<Rightarrow> (Inl f, [])
          | None \<Rightarrow>
              (case me_server e c of Some f \<Rightarrow> Inl f | None \<Rightarrow> Inr (),
               [StartLogger c] @ (if service then [] else [HandleSignals]) @
               (if pf = Linux then [IgnorePipeSignal] else []) @ [RunServer c]))"

definition asks_version :: "string list \<Rightarrow> bool" where
  "asks_version args \<longleftrightarrow> args \<noteq> [] \<and> (hd args = ''version'' \<or> hd args = ''--version'')"

definition run_bridge :: "main_env \<Rightarrow> platform \<Rightarrow> bool \<Rightarrow> string list \<Rightarrow> int \<times> main_action list" where
  "run_bridge e pf service args =
     (if asks_version args then (0, [PrintVersion])
      else case bridge_body e pf service args of
        (Inr _, as) \<Rightarrow> (0, as)
      | (Inl (BridgeError status code), as) \<Rightarrow>
          (2, as @ [if code \<in> set config_error_codes then LogConfigError code else LogStartError code] @
              (if pf = Windows \<and> service then [ServiceError code] else []))
      | (Inl f, as) \<Rightarrow>
          (1, as @ [LogUnexpected] @
              (if pf = Windows \<and> service
               then [ServiceError ''Unhandled exception during bridge startup/shutdown''] else [])))"

section \<open>Command lines\<close>

text \<open>What a command line means, read from the front: the last path given counts.\<close>

datatype main_option = RunOption | ServiceOption | ValidateOption bool | ConfigOption string

fun argument_text :: "main_option \<Rightarrow> string list" where
  "argument_text RunOption = [''run'']"
| "argument_text ServiceOption = [''service'']"
| "argument_text (ValidateOption dashes) = [if dashes then ''--validate-config'' else ''validate-config'']"
| "argument_text (ConfigOption p) = [''--config'', p]"

definition option_allowed :: "platform \<Rightarrow> bool \<Rightarrow> main_option \<Rightarrow> bool" where
  "option_allowed pf service a \<longleftrightarrow> (a = ServiceOption \<longrightarrow> pf = Windows \<and> service)"

definition chosen_path :: "string \<Rightarrow> main_option list \<Rightarrow> string" where
  "chosen_path d os = fold (\<lambda>a p. case a of ConfigOption p' \<Rightarrow> p' | _ \<Rightarrow> p) os d"

definition only_validates :: "main_option list \<Rightarrow> bool" where
  "only_validates os \<longleftrightarrow> list_ex (\<lambda>a. case a of ValidateOption _ \<Rightarrow> True | _ \<Rightarrow> False) os"

lemma argument_kinds:
  "argument_kind pf service ''run'' = Skipped" "argument_kind Windows True ''service'' = Skipped"
  "argument_kind pf service ''validate-config'' = Validates" "argument_kind pf service ''--validate-config'' = Validates"
  "argument_kind pf service ''--config'' = TakesPath"
  by (simp_all add: argument_kind_def)

lemma read_options:
  "\<forall>a\<in>set os. option_allowed pf service a \<Longrightarrow>
   read_arguments pf service (concat (map argument_text os)) r = Inr (chosen_path (fst r) os, snd r \<or> only_validates os)"
proof (induction os arbitrary: r)
  case Nil
  then show ?case by (simp add: chosen_path_def only_validates_def)
next
  case (Cons a os)
  then show ?case by (cases a) (auto simp: option_allowed_def chosen_path_def only_validates_def argument_kinds)
qed

lemma option_of_kind:
  "argument_kind pf service a = Skipped \<Longrightarrow> \<exists>b. argument_text b = [a] \<and> option_allowed pf service b"
  "argument_kind pf service a = Validates \<Longrightarrow> \<exists>b. argument_text b = [a] \<and> option_allowed pf service b"
  "argument_kind pf service a = TakesPath \<Longrightarrow> a = ''--config''"
proof -
  assume k: "argument_kind pf service a = Skipped"
  then consider "a = ''run''" | "a = ''service''" "pf = Windows" "service"
    unfolding argument_kind_def by (meson argument_class.distinct)
  then show "\<exists>b. argument_text b = [a] \<and> option_allowed pf service b"
  proof cases
    case 1
    then show ?thesis by (intro exI[of _ RunOption]) (simp add: option_allowed_def)
  next
    case 2
    then show ?thesis by (intro exI[of _ ServiceOption]) (simp add: option_allowed_def)
  qed
next
  assume "argument_kind pf service a = Validates"
  then have "a = ''validate-config'' \<or> a = ''--validate-config''"
    unfolding argument_kind_def by (meson argument_class.distinct)
  then show "\<exists>b. argument_text b = [a] \<and> option_allowed pf service b"
    by (intro exI[of _ "ValidateOption (a = ''--validate-config'')"]) (auto simp: option_allowed_def)
next
  assume "argument_kind pf service a = TakesPath"
  then show "a = ''--config''" unfolding argument_kind_def by (meson argument_class.distinct)
qed

lemma read_arguments_inverse:
  "read_arguments pf service args r = Inr r' \<Longrightarrow>
   \<exists>os. args = concat (map argument_text os) \<and> (\<forall>a\<in>set os. option_allowed pf service a)"
proof (induction pf service args r rule: read_arguments.induct)
  case (1 pf service r)
  then show ?case by (intro exI[of _ "[]"]) simp
next
  case (2 pf service a as r)
  have more: ?case if "\<exists>os. as' = concat (map argument_text os) \<and> (\<forall>a\<in>set os. option_allowed pf service a)"
      "argument_text b @ as' = a # as" "option_allowed pf service b" for b as'
    using that by (metis concat.simps(2) list.simps(9) set_ConsD)
  show ?case
  proof (cases "argument_kind pf service a")
    case Skipped
    then show ?thesis using "2.IH"(1) "2.prems" option_of_kind(1)[OF Skipped] more[of as] by auto
  next
    case Validates
    then show ?thesis using "2.IH"(2) "2.prems" option_of_kind(2)[OF Validates] more[of as] by auto
  next
    case TakesPath
    then obtain p as' where as: "as = p # as'" using "2.prems" by (auto split: list.splits)
    show ?thesis
      using "2.IH"(3)[OF TakesPath as] "2.prems" TakesPath as option_of_kind(3)[OF TakesPath]
      by (intro more[of as' "ConfigOption p"]) (simp_all add: option_allowed_def)
  next
    case Unknown
    then show ?thesis using "2.prems" by simp
  qed
qed

section \<open>Properties\<close>

text \<open>C39: The command line: exactly the sequences of run, validate-config, --validate-config, --config with a
  path and (for the Windows service) service are accepted; the last path counts, and any request to
  validate makes the run a validation.\<close>

theorem command_line_language:
  "(\<exists>r. read_arguments pf service args (d, False) = Inr r) \<longleftrightarrow>
     (\<exists>os. args = concat (map argument_text os) \<and> (\<forall>a\<in>set os. option_allowed pf service a) \<and>
        read_arguments pf service args (d, False) = Inr (chosen_path d os, only_validates os))"
  using read_options[of _ pf service "(d, False)"] read_arguments_inverse[of pf service args "(d, False)"] by fastforce

theorem command_line_language_witness:
  "\<exists>os. [''run'', ''--config'', ''a'', ''--config'', ''b''] = concat (map argument_text os) \<and>
     (\<forall>a\<in>set os. option_allowed Linux False a) \<and>
     read_arguments Linux False [''run'', ''--config'', ''a'', ''--config'', ''b''] (''d'', False) =
       Inr (chosen_path ''d'' os, only_validates os)"
  by (rule command_line_language[THEN iffD1]) (rule exI[of _ "(''b'', False)"], simp add: argument_kinds)

text \<open>The server runs exactly when the command line is accepted and does not ask for a version or a
  validation, the configuration loads, the SDK and FFmpeg are there and the log can be opened; and then
  with the configuration that was loaded from the chosen path.  The exit code is 0 exactly when nothing
  failed, and 2 for every failure that carries an error code.\<close>

theorem bridge_exit_code:
  "case run_bridge e pf service args of (code, as) \<Rightarrow>
     (code = 0 \<or> code = 1 \<or> code = 2) \<and>
     (RunServer c \<in> set as \<longleftrightarrow>
        \<not> asks_version args \<and>
        (\<exists>path. read_arguments pf service args (me_default_path e, False) = Inr (path, False) \<and> me_load e path = Inr c) \<and>
        me_sdk_present e c \<and> me_ffmpeg_present e c \<and> me_logger e c = None) \<and>
     (code = 0 \<longleftrightarrow> asks_version args \<or> fst (bridge_body e pf service args) = Inr ())"
proof -
  have runs: "RunServer c \<in> set (snd (bridge_body e pf service args)) \<longleftrightarrow>
      (\<exists>path. read_arguments pf service args (me_default_path e, False) = Inr (path, False) \<and> me_load e path = Inr c) \<and>
      me_sdk_present e c \<and> me_ffmpeg_present e c \<and> me_logger e c = None"
  proof (cases "read_arguments pf service args (me_default_path e, False)")
    case (Inr r)
    obtain path v where r: "r = (path, v)" by fastforce
    show ?thesis
      by (cases "me_load e path"; cases v)
         (auto simp: bridge_body_def Inr r bind_res_def split: option.split)
  qed (simp add: bridge_body_def bind_res_def)
  obtain res as where b: "bridge_body e pf service args = (res, as)" by fastforce
  show ?thesis
  proof (cases "asks_version args")
    case True
    then show ?thesis by (simp add: run_bridge_def)
  next
    case False
    show ?thesis
    proof (cases res)
      case (Inl f)
      then show ?thesis using runs False by (cases f) (simp_all add: b run_bridge_def)
    next
      case (Inr u)
      then show ?thesis using runs False by (simp add: b run_bridge_def)
    qed
  qed
qed

end
