(* ===== verification/Win_Quote.thy ===== *)
theory Win_Quote
  imports Bridge_Prelude "HOL-Library.Word"
begin

text \<open>
  Command lines on Windows: \<open>quote_windows_argument\<close> of the bridge and \<open>quote\<close> of the upgrade tool write
  the arguments of a child process into one line, and the child takes the line apart again by the
  documented rules of the C runtime.  A \<open>wstring\<close> is a list of UTF-16 code units.
\<close>

section \<open>The code\<close>

type_synonym wide = "16 word list"

abbreviation backslash :: "16 word" where "backslash \<equiv> 0x5C"
abbreviation double_quote :: "16 word" where "double_quote \<equiv> 0x22"
abbreviation space :: "16 word" where "space \<equiv> 0x20"
abbreviation tab :: "16 word" where "tab \<equiv> 0x09"

text \<open>The loop both functions have: the slashes seen last are written before the next character, twice
  (and one more) before a quote, twice at the end.\<close>

fun quote_loop :: "nat \<Rightarrow> wide \<Rightarrow> wide" where
  "quote_loop slashes [] = replicate (slashes * 2) backslash @ [double_quote]"
| "quote_loop slashes (c # cs) =
     (if c = backslash then quote_loop (slashes + 1) cs
      else if c = double_quote then replicate (slashes * 2 + 1) backslash @ c # quote_loop 0 cs
      else replicate slashes backslash @ c # quote_loop 0 cs)"

definition quote :: "wide \<Rightarrow> wide" where
  "quote v = double_quote # quote_loop 0 v"

definition quote_windows_argument :: "wide \<Rightarrow> wide" where
  "quote_windows_argument v =
     (if list_ex (\<lambda>c. c = space \<or> c = tab \<or> c = double_quote) v then quote v else v)"

definition command_line :: "(wide \<Rightarrow> wide) \<Rightarrow> wide \<Rightarrow> wide list \<Rightarrow> wide" where
  "command_line q exe args = q exe @ concat (map (\<lambda>a. space # q a) args)"

section \<open>What the child reads\<close>

definition blank :: "16 word \<Rightarrow> bool" where
  "blank c \<longleftrightarrow> c = space \<or> c = tab"

text \<open>An argument behind the first: inside quotes or not, with the backslashes seen last.\<close>

fun unquote :: "bool \<Rightarrow> nat \<Rightarrow> wide \<Rightarrow> wide \<times> wide" where
  "unquote inside n [] = (replicate n backslash, [])"
| "unquote inside n (c # cs) =
     (if c = backslash then unquote inside (n + 1) cs
      else if c = double_quote then
        (if odd n then (case unquote inside 0 cs of (a, r) \<Rightarrow> (replicate (n div 2) backslash @ double_quote # a, r))
         else if inside \<and> cs \<noteq> [] \<and> hd cs = double_quote then
           (case unquote inside 0 (tl cs) of (a, r) \<Rightarrow> (replicate (n div 2) backslash @ double_quote # a, r))
         else (case unquote (\<not> inside) 0 cs of (a, r) \<Rightarrow> (replicate (n div 2) backslash @ a, r)))
      else if \<not> inside \<and> blank c then (replicate n backslash, c # cs)
      else (case unquote inside 0 cs of (a, r) \<Rightarrow> (replicate n backslash @ c # a, r)))"

lemma unquote_shorter: "length (snd (unquote inside n l)) \<le> length l"
proof (induction l arbitrary: inside n rule: length_induct)
  case (1 l)
  show ?case
  proof (cases l)
    case (Cons c cs)
    have cs: "length (snd (unquote i k cs)) \<le> length cs" for i k using 1 Cons by simp
    have tl: "length (snd (unquote i k (tl cs))) \<le> length cs" for i k
    proof -
      have "length (tl cs) < length l" using Cons by simp
      then have "length (snd (unquote i k (tl cs))) \<le> length (tl cs)" using 1 by blast
      then show ?thesis by simp
    qed
    show ?thesis unfolding Cons by (simp add: case_prod_unfold cs tl le_SucI)
  qed simp
qed

lemma unquote_starts: "l \<noteq> [] \<Longrightarrow> \<not> blank (hd l) \<Longrightarrow> length (snd (unquote False 0 l)) < length l"
  using unquote_shorter[of False 1 "tl l"] unquote_shorter[of True 0 "tl l"] unquote_shorter[of False 0 "tl l"]
  by (cases l) (auto split: prod.split)

function split_arguments :: "wide \<Rightarrow> wide list" where
  "split_arguments l =
     (let l = dropWhile blank l
      in if l = [] then []
         else case unquote False 0 l of (a, rest) \<Rightarrow> a # split_arguments rest)"
  by pat_completeness auto
termination
proof (relation "measure length", simp)
  fix l x a rest
  assume x: "x = dropWhile blank l" "x \<noteq> []" "(a, rest) = unquote False 0 x"
  then have "length (snd (unquote False 0 x)) < length x"
    by (intro unquote_starts) (simp_all add: hd_dropWhile)
  then show "(rest, l) \<in> measure length"
    using x(1) x(3)[symmetric] length_dropWhile_le[of blank l] by simp
qed

declare split_arguments.simps [simp del]

text \<open>The program's name: up to the next quote if it starts with one, without escapes.\<close>

definition split_command_line :: "wide \<Rightarrow> wide \<times> wide list" where
  "split_command_line l =
     (if l \<noteq> [] \<and> hd l = double_quote
      then (takeWhile (\<lambda>c. c \<noteq> double_quote) (tl l), split_arguments (tl (dropWhile (\<lambda>c. c \<noteq> double_quote) (tl l))))
      else (takeWhile (\<lambda>c. \<not> blank c) l, split_arguments (dropWhile (\<lambda>c. \<not> blank c) l)))"

section \<open>Arguments that read back\<close>

definition ends_argument :: "wide \<Rightarrow> bool" where
  "ends_argument rest \<longleftrightarrow> rest = [] \<or> blank (hd rest)"

lemma unquote_end: "ends_argument rest \<Longrightarrow> unquote False n rest = (replicate n backslash, rest)"
  by (cases rest) (auto simp: ends_argument_def blank_def)

lemma unquote_slashes: "unquote inside n (replicate k backslash @ l) = unquote inside (n + k) l"
  by (induction k arbitrary: n) simp_all

lemma unquote_quoted:
  assumes "ends_argument rest"
  shows "unquote True 0 (quote_loop n v @ rest) = (replicate n backslash @ v, rest)"
proof (induction v arbitrary: n)
  case Nil
  have "rest = [] \<or> hd rest \<noteq> double_quote" using assms by (auto simp: ends_argument_def blank_def)
  then show ?case using unquote_end[OF assms, of 0] by (cases rest) (simp_all add: unquote_slashes)
next
  case (Cons c cs)
  then show ?case by (auto simp: unquote_slashes replicate_append_same)
qed

lemma split_arguments_nil [simp]: "split_arguments [] = []"
  by (subst split_arguments.simps) simp

lemma split_arguments_space: "split_arguments (space # l) = split_arguments l"
  by (subst (1 2) split_arguments.simps) (simp add: blank_def)

definition arguments_of :: "(wide \<Rightarrow> wide) \<Rightarrow> wide list \<Rightarrow> wide" where
  "arguments_of q args = concat (map (\<lambda>a. space # q a) args)"

lemma arguments_of_simps [simp]:
  "arguments_of q [] = []" "arguments_of q (a # args) = space # q a @ arguments_of q args"
  by (simp_all add: arguments_of_def)

lemma ends_argument_arguments [simp]: "ends_argument (arguments_of q args)"
  by (cases args) (simp_all add: ends_argument_def blank_def)

text \<open>A way to write arguments, and what it must promise.\<close>

locale argument_quoting =
  fixes q :: "wide \<Rightarrow> wide" and ok :: "wide \<Rightarrow> bool"
  assumes reads_back: "ok a \<Longrightarrow> ends_argument rest \<Longrightarrow> unquote False 0 (q a @ rest) = (a, rest)"
    and starts: "ok a \<Longrightarrow> q a \<noteq> [] \<and> \<not> blank (hd (q a))"
begin

lemma split_one:
  assumes "ok a" and "ends_argument rest"
  shows "split_arguments (space # q a @ rest) = a # split_arguments rest"
proof -
  have "dropWhile blank (space # q a @ rest) = q a @ rest"
    using starts[OF assms(1)] by (cases "q a") (simp_all add: blank_def)
  then show ?thesis using starts[OF assms(1)] reads_back[OF assms] by (subst split_arguments.simps) simp
qed

lemma split_quoted: "\<forall>a\<in>set args. ok a \<Longrightarrow> split_arguments (arguments_of q args) = args"
  by (induction args) (simp_all add: split_one)

end

interpretation upgrade_quoting: argument_quoting quote "\<lambda>_. True"
proof
  fix a rest :: wide assume "ends_argument rest"
  then show "unquote False 0 (quote a @ rest) = (a, rest)"
    using unquote_quoted[of rest 0 a] by (cases "quote_loop 0 a @ rest") (simp_all add: quote_def)
qed (simp add: quote_def blank_def)

lemma unquote_plain:
  assumes "\<not> list_ex (\<lambda>c. c = space \<or> c = tab \<or> c = double_quote) v" and "ends_argument rest"
  shows "unquote False n (v @ rest) = (replicate n backslash @ v, rest)"
  using assms
proof (induction v arbitrary: n)
  case Nil
  then show ?case by (simp add: unquote_end)
next
  case (Cons c cs)
  then show ?case by (auto simp: blank_def replicate_append_same)
qed

interpretation bridge_quoting: argument_quoting quote_windows_argument "\<lambda>a. a \<noteq> []"
proof
  fix a rest :: wide assume "a \<noteq> []" "ends_argument rest"
  then show "unquote False 0 (quote_windows_argument a @ rest) = (a, rest)"
    using unquote_plain[of a rest 0] upgrade_quoting.reads_back[OF TrueI, of rest a] by (simp add: quote_windows_argument_def)
next
  fix a :: wide assume "a \<noteq> []"
  then show "quote_windows_argument a \<noteq> [] \<and> \<not> blank (hd (quote_windows_argument a))"
    using upgrade_quoting.starts[of a] by (cases a) (auto simp: quote_windows_argument_def blank_def)
qed

section \<open>What a child process receives\<close>

lemma split_command_line_quoted:
  assumes "double_quote \<notin> set exe"
  shows "split_command_line (double_quote # exe @ double_quote # l) = (exe, split_arguments l)"
proof -
  have "takeWhile (\<lambda>c. c \<noteq> double_quote) (exe @ double_quote # l) = exe"
    and "dropWhile (\<lambda>c. c \<noteq> double_quote) (exe @ double_quote # l) = double_quote # l"
    using assms by (induction exe) auto
  then show ?thesis by (simp add: split_command_line_def)
qed

text \<open>What a program's path looks like: no quote, and a file name behind the last backslash.\<close>

definition program_path :: "wide \<Rightarrow> bool" where
  "program_path exe \<longleftrightarrow> exe \<noteq> [] \<and> double_quote \<notin> set exe \<and> last exe \<noteq> backslash"

lemma quote_loop_program:
  "double_quote \<notin> set exe \<Longrightarrow> exe \<noteq> [] \<Longrightarrow> last exe \<noteq> backslash \<Longrightarrow>
   quote_loop n exe = replicate n backslash @ exe @ [double_quote]"
  by (induction exe arbitrary: n) (auto simp: replicate_append_same split: if_splits)

lemma quote_program: "program_path exe \<Longrightarrow> quote exe = double_quote # exe @ [double_quote]"
  by (auto simp: program_path_def quote_def quote_loop_program)

lemma command_line_arguments: "command_line q exe args = q exe @ arguments_of q args"
  by (simp add: command_line_def arguments_of_def)

lemma split_command_line_bridge:
  assumes "program_path exe" and "ends_argument l"
  shows "split_command_line (quote_windows_argument exe @ l) = (exe, split_arguments l)"
proof (cases "list_ex (\<lambda>c. c = space \<or> c = tab \<or> c = double_quote) exe")
  case True
  then show ?thesis
    using assms by (simp add: quote_windows_argument_def quote_program split_command_line_quoted program_path_def)
next
  case False
  then have "\<forall>c\<in>set exe. \<not> blank c \<and> c \<noteq> double_quote" by (auto simp: list_ex_iff blank_def)
  moreover from this have "takeWhile (\<lambda>c. \<not> blank c) (exe @ l) = exe" and "dropWhile (\<lambda>c. \<not> blank c) (exe @ l) = l"
    using assms(2) by (cases l; simp add: ends_argument_def takeWhile_append2 dropWhile_append2)+
  ultimately show ?thesis
    using assms(1) False by (auto simp: quote_windows_argument_def split_command_line_def program_path_def)
qed

lemma quote_empty: "quote_windows_argument [] = []"
  by (simp add: quote_windows_argument_def)

lemma split_bridge_arguments:
  "split_arguments (arguments_of quote_windows_argument args) = filter (\<lambda>a. a \<noteq> []) args"
proof (induction args)
  case (Cons a args)
  then show ?case
    using bridge_quoting.split_one[of a "arguments_of quote_windows_argument args"]
    by (cases "a = []") (simp_all add: quote_empty split_arguments_space)
qed simp

text \<open>the upgrade tool's command line reads back.  For every program path (no quote in it, no
  backslash at its end) and every list of arguments - blanks, quotes, backslashes and empty arguments
  included - the line that \<open>run\<close> of the upgrade tool writes is taken apart by the child into exactly that
  path and exactly those arguments.\<close>

theorem upgrade_arguments_read_back:
  assumes "program_path exe"
  shows "split_command_line (command_line quote exe args) = (exe, args)"
  using assms upgrade_quoting.split_quoted[of args]
  by (simp add: command_line_arguments quote_program split_command_line_quoted program_path_def)

lemma upgrade_arguments_read_back_witness:
  "split_command_line (command_line quote [0x43, 0x3A, backslash, 0x61, space, 0x62]
     [[], [0x61, backslash], [0x61, space, double_quote, 0x62, backslash, backslash]]) =
   ([0x43, 0x3A, backslash, 0x61, space, 0x62],
     [[], [0x61, backslash], [0x61, space, double_quote, 0x62, backslash, backslash]])"
  by (rule upgrade_arguments_read_back) (simp add: program_path_def)

text \<open>C40: the line \<open>quote_windows_argument\<close> writes for FFmpeg and for the runtime probe reads back as the program's
  path and the arguments that are not empty: an argument that is the empty string is returned without
  quotes and the child does not see it, which shifts every argument behind it.\<close>

theorem bridge_arguments_read_back:
  assumes "program_path exe"
  shows "split_command_line (command_line quote_windows_argument exe args) = (exe, filter (\<lambda>a. a \<noteq> []) args)"
  by (simp add: command_line_arguments split_command_line_bridge[OF assms] split_bridge_arguments)

lemma bridge_arguments_read_back_witness:
  "split_command_line (command_line quote_windows_argument [0x66, backslash, 0x67] [[0x2D, 0x69], [], [0x61, space]]) =
   ([0x66, backslash, 0x67], [[0x2D, 0x69], [0x61, space]])"
  using bridge_arguments_read_back[of "[0x66, backslash, 0x67]" "[[0x2D, 0x69], [], [0x61, space]]"]
  by (simp add: program_path_def)

end
