(* ===== verification/Windows_Service.thy ===== *)
theory Windows_Service
  imports Machine "HOL-Library.Word"
begin

text \<open>
  \<open>windows-service.cpp\<close>: the bridge under the Windows service control manager.  Three threads meet in it
  (the manager's control calls, \<open>service_main\<close> with its polling loop, the worker that runs the bridge);
  what each does between two waits is one step.  What the manager and the process see is a trace.
\<close>

section \<open>The status\<close>

datatype service_state = NoState | START_PENDING | RUNNING | STOP_PENDING | STOPPED

record status_report =
  rp_state :: service_state
  rp_accepts :: bool            \<comment> \<open>stop and shutdown are accepted\<close>
  rp_failed :: bool             \<comment> \<open>\<open>ERROR_SERVICE_SPECIFIC_ERROR\<close> instead of \<open>NO_ERROR\<close>\<close>
  rp_exit :: "32 word"
  rp_checkpoint :: "32 word"
  rp_wait :: nat

datatype service_action =
    SetStatus status_report
  | StopCallback
  | ErrorEvent
  | TerminateProcess

datatype main_phase = MainIdle | MainUnregistered | MainStarting | MainPolling | MainConcluding | MainDone | Terminated

record service =
  sv_status :: status_report
  sv_handle :: bool
  sv_result :: "32 word"
  sv_stop_started :: "64 word"
  sv_worker :: bool
  sv_finished :: bool
  sv_phase :: main_phase
  sv_trace :: "service_action list"

definition new_service :: service where
  "new_service =
     \<lparr>sv_status = \<lparr>rp_state = NoState, rp_accepts = False, rp_failed = False, rp_exit = 0, rp_checkpoint = 0, rp_wait = 0\<rparr>,
      sv_handle = False, sv_result = 1, sv_stop_started = 0, sv_worker = False, sv_finished = False,
      sv_phase = MainIdle, sv_trace = []\<rparr>"

definition tell :: "service_action list \<Rightarrow> service \<Rightarrow> service" where
  "tell as s = s\<lparr>sv_trace := sv_trace s @ as\<rparr>"

definition pending :: "service_state \<Rightarrow> bool" where
  "pending state \<longleftrightarrow> state = START_PENDING \<or> state = STOP_PENDING"

definition report :: "service_state \<Rightarrow> 32 word \<Rightarrow> service \<Rightarrow> service" where
  "report state error s =
     (let r = \<lparr>rp_state = state, rp_accepts = (state = RUNNING), rp_failed = (error \<noteq> 0), rp_exit = error,
               rp_checkpoint = (if pending state then rp_checkpoint (sv_status s) + 1 else 0),
               rp_wait = (if pending state then 60000 else 0)\<rparr>
      in tell [SetStatus r] (s\<lparr>sv_status := r\<rparr>))"

section \<open>The three threads\<close>

datatype control_code = SERVICE_CONTROL_STOP | SERVICE_CONTROL_SHUTDOWN | SERVICE_CONTROL_INTERROGATE | OtherControl

definition control :: "control_code \<Rightarrow> 64 word \<Rightarrow> service \<Rightarrow> 32 word \<times> service" where
  "control code now s =
     (if code = SERVICE_CONTROL_STOP \<or> code = SERVICE_CONTROL_SHUTDOWN then
        (0, if rp_state (sv_status s) = RUNNING
            then tell [StopCallback] ((report STOP_PENDING 0 s)\<lparr>sv_stop_started := now\<rparr>) else s)
      else if code = SERVICE_CONTROL_INTERROGATE then (0, s)
      else (120, s))"

text \<open>\<open>service_main\<close>: registration, the start of the worker, one round of the loop, the end.\<close>

definition main_enter :: "bool \<Rightarrow> 32 word \<Rightarrow> service \<Rightarrow> service" where
  "main_enter registered last_error s =
     (if registered then (report START_PENDING 0 (s\<lparr>sv_handle := True\<rparr>))\<lparr>sv_phase := MainStarting\<rparr>
      else s\<lparr>sv_result := last_error, sv_phase := MainUnregistered\<rparr>)"

definition main_start :: "bool \<Rightarrow> service \<Rightarrow> service" where
  "main_start started s =
     (if started then s\<lparr>sv_worker := True, sv_phase := MainPolling\<rparr>
      else (tell [ErrorEvent] s)\<lparr>sv_result := 1, sv_phase := MainConcluding\<rparr>)"

definition main_poll :: "64 word \<Rightarrow> service \<Rightarrow> service" where
  "main_poll now s =
     (if sv_finished s then s\<lparr>sv_phase := MainConcluding\<rparr>
      else if sv_stop_started s \<noteq> 0 \<and> now - sv_stop_started s \<ge> 60000
      then (tell [ErrorEvent, TerminateProcess] s)\<lparr>sv_phase := Terminated\<rparr>
      else s)"

definition main_conclude :: "service \<Rightarrow> service" where
  "main_conclude s = (report STOPPED (sv_result s) s)\<lparr>sv_handle := False, sv_phase := MainDone\<rparr>"

text \<open>The worker: its two reports, and its end with the bridge's exit code or an exception.\<close>

definition start_progress :: "service \<Rightarrow> service" where
  "start_progress s =
     (if sv_handle s \<and> rp_state (sv_status s) = START_PENDING then report START_PENDING 0 s else s)"

definition service_ready :: "service \<Rightarrow> service" where
  "service_ready s = (if sv_handle s \<and> rp_state (sv_status s) = START_PENDING then report RUNNING 0 s else s)"

definition worker_end :: "32 word option \<Rightarrow> service \<Rightarrow> service" where
  "worker_end code s =
     (case code of
        Some c \<Rightarrow> s\<lparr>sv_result := c, sv_finished := True\<rparr>
      | None \<Rightarrow> (tell [ErrorEvent] s)\<lparr>sv_result := 1, sv_finished := True\<rparr>)"

definition run_windows_service :: "32 word option \<Rightarrow> service \<Rightarrow> 32 word \<times> service" where
  "run_windows_service dispatcher_error s =
     (case dispatcher_error of Some e \<Rightarrow> (e, tell [ErrorEvent] s) | None \<Rightarrow> (sv_result s, s))"

section \<open>Interleavings\<close>

text \<open>A step happens only when its thread has come to it; nothing happens in a terminated process.\<close>

datatype service_event =
    Enter bool "32 word"
  | Start bool
  | Poll "64 word"
  | Conclude
  | Progress
  | Ready
  | WorkerEnds "32 word option"
  | Control control_code "64 word"

definition working :: "service \<Rightarrow> bool" where
  "working s \<longleftrightarrow> sv_worker s \<and> \<not> sv_finished s"

fun service_step :: "service_event \<Rightarrow> service \<Rightarrow> service" where
  "service_step (Enter registered e) s = (if sv_phase s = MainIdle then main_enter registered e s else s)"
| "service_step (Start started) s = (if sv_phase s = MainStarting then main_start started s else s)"
| "service_step (Poll now) s = (if sv_phase s = MainPolling then main_poll now s else s)"
| "service_step Conclude s = (if sv_phase s = MainConcluding then main_conclude s else s)"
| "service_step Progress s = (if sv_phase s \<noteq> Terminated \<and> working s then start_progress s else s)"
| "service_step Ready s = (if sv_phase s \<noteq> Terminated \<and> working s then service_ready s else s)"
| "service_step (WorkerEnds code) s = (if sv_phase s \<noteq> Terminated \<and> working s then worker_end code s else s)"
| "service_step (Control code now) s = (if sv_phase s \<noteq> Terminated then snd (control code now s) else s)"

section \<open>What the manager may see\<close>

text \<open>The abstract protocol: announcements of the start with growing checkpoints, then running, then
  stopping, then stopped with the bridge's exit code.\<close>

definition start_report :: "nat \<Rightarrow> status_report" where
  "start_report k = \<lparr>rp_state = START_PENDING, rp_accepts = False, rp_failed = False, rp_exit = 0,
     rp_checkpoint = of_nat k, rp_wait = 60000\<rparr>"

definition running_report :: status_report where
  "running_report = \<lparr>rp_state = RUNNING, rp_accepts = True, rp_failed = False, rp_exit = 0, rp_checkpoint = 0, rp_wait = 0\<rparr>"

definition stopping_report :: status_report where
  "stopping_report = \<lparr>rp_state = STOP_PENDING, rp_accepts = False, rp_failed = False, rp_exit = 0,
     rp_checkpoint = 1, rp_wait = 60000\<rparr>"

definition stopped_report :: "32 word \<Rightarrow> status_report" where
  "stopped_report c = \<lparr>rp_state = STOPPED, rp_accepts = False, rp_failed = (c \<noteq> 0), rp_exit = c, rp_checkpoint = 0, rp_wait = 0\<rparr>"

definition history :: "nat \<Rightarrow> bool \<Rightarrow> bool \<Rightarrow> 32 word option \<Rightarrow> service_action list" where
  "history n up stopping final =
     map (\<lambda>k. SetStatus (start_report (Suc k))) [0..<n] @
     (if up then SetStatus running_report # (if stopping then [SetStatus stopping_report, StopCallback] else []) else []) @
     (case final of None \<Rightarrow> [] | Some c \<Rightarrow> [SetStatus (stopped_report c)])"

fun visible :: "service_action \<Rightarrow> bool" where
  "visible (SetStatus _) = True"
| "visible StopCallback = True"
| "visible _ = False"

definition seen :: "service \<Rightarrow> service_action list" where
  "seen s = filter visible (sv_trace s)"

definition reported_state :: "nat \<Rightarrow> bool \<Rightarrow> bool \<Rightarrow> 32 word option \<Rightarrow> service_state" where
  "reported_state n up stopping final =
     (if final \<noteq> None then STOPPED else if stopping then STOP_PENDING else if up then RUNNING
      else if n = 0 then NoState else START_PENDING)"

definition reported_checkpoint :: "nat \<Rightarrow> bool \<Rightarrow> bool \<Rightarrow> 32 word option \<Rightarrow> 32 word" where
  "reported_checkpoint n up stopping final =
     (if final \<noteq> None then 0 else if stopping then 1 else if up then 0 else of_nat n)"

definition follows :: "nat \<Rightarrow> bool \<Rightarrow> bool \<Rightarrow> 32 word option \<Rightarrow> service \<Rightarrow> bool" where
  "follows n up stopping final s \<longleftrightarrow>
     seen s = history n up stopping final \<and>
     rp_state (sv_status s) = reported_state n up stopping final \<and>
     rp_checkpoint (sv_status s) = reported_checkpoint n up stopping final \<and>
     (stopping \<longrightarrow> up) \<and> (up \<longrightarrow> sv_worker s) \<and>
     (sv_stop_started s \<noteq> 0 \<longrightarrow> stopping) \<and>
     sv_handle s = (n > 0 \<and> final = None) \<and>
     (n = 0 \<longleftrightarrow> sv_phase s \<in> {MainIdle, MainUnregistered}) \<and>
     (final \<noteq> None \<longleftrightarrow> sv_phase s = MainDone) \<and>
     (sv_worker s \<longrightarrow> sv_phase s \<in> {MainPolling, MainConcluding, MainDone, Terminated}) \<and>
     (sv_phase s \<in> {MainPolling, Terminated} \<longrightarrow> sv_worker s) \<and>
     (sv_phase s \<in> {MainConcluding, MainDone} \<longrightarrow> \<not> working s) \<and>
     (\<forall>c. final = Some c \<longrightarrow> c = sv_result s)"

definition service_inv :: "service \<Rightarrow> bool" where
  "service_inv s \<longleftrightarrow> (\<exists>n up stopping final. follows n up stopping final s)"

lemmas step_defs = tell_def report_def control_def main_enter_def main_start_def main_poll_def main_conclude_def
  start_progress_def service_ready_def worker_end_def pending_def working_def Let_def

lemmas shape_defs = follows_def seen_def history_def reported_state_def reported_checkpoint_def
  start_report_def running_report_def stopping_report_def stopped_report_def

lemma idle_follows:
  assumes "follows n up stopping final s" and "sv_phase s = MainIdle"
  shows "n = 0 \<and> \<not> up \<and> \<not> stopping \<and> final = None"
  using assms by (auto simp: follows_def)

lemma started_follows:
  assumes "follows n up stopping final s" and "rp_state (sv_status s) = START_PENDING"
  shows "n > 0 \<and> \<not> up \<and> \<not> stopping \<and> final = None"
  using assms by (auto simp: follows_def reported_state_def split: if_splits)

lemma running_follows:
  assumes "follows n up stopping final s" and "rp_state (sv_status s) = RUNNING"
  shows "up \<and> \<not> stopping \<and> final = None"
  using assms by (auto simp: follows_def reported_state_def split: if_splits)

lemma enter_follows:
  assumes "follows n up stopping final s" and "sv_phase s = MainIdle"
  shows "follows (if registered then 1 else 0) False False None (main_enter registered e s)"
  using assms idle_follows[OF assms] by (auto simp: shape_defs step_defs)

lemma start_follows:
  assumes "follows n up stopping final s" and "sv_phase s = MainStarting"
  shows "follows n up stopping final (main_start started s)"
  using assms by (auto simp: shape_defs step_defs)

lemma poll_follows:
  assumes "follows n up stopping final s" and "sv_phase s = MainPolling"
  shows "follows n up stopping final (main_poll now s)"
  using assms by (auto simp: shape_defs step_defs)

lemma conclude_follows:
  assumes "follows n up stopping final s" and "sv_phase s = MainConcluding"
  shows "follows n up stopping (Some (sv_result s)) (main_conclude s)"
  using assms by (auto simp: shape_defs step_defs)

lemma progress_follows:
  assumes "follows n up stopping final s" and "rp_state (sv_status s) = START_PENDING"
  shows "follows (Suc n) up stopping final (report START_PENDING 0 s)"
  using assms started_follows[OF assms] by (auto simp: shape_defs step_defs)

lemma ready_follows:
  assumes "follows n up stopping final s" and "rp_state (sv_status s) = START_PENDING" and "working s"
  shows "follows n True stopping final (report RUNNING 0 s)"
  using assms started_follows[OF assms(1,2)] by (auto simp: shape_defs step_defs)

lemma worker_follows:
  assumes "follows n up stopping final s" and "working s"
  shows "follows n up stopping final (worker_end code s)"
  using assms by (auto simp: shape_defs step_defs split: option.split)

lemma stop_follows:
  assumes "follows n up stopping final s" and "rp_state (sv_status s) = RUNNING"
  shows "follows n up True final (tell [StopCallback] ((report STOP_PENDING 0 s)\<lparr>sv_stop_started := now\<rparr>))"
  using assms running_follows[OF assms] by (auto simp: shape_defs step_defs)

lemma step_follows:
  assumes "follows n up stopping final s"
  shows "service_inv (service_step e s)"
proof -
  have kept: "service_inv s" using assms unfolding service_inv_def by blast
  show ?thesis
  proof (cases e)
    case (Control code now)
    then show ?thesis
      using kept stop_follows[OF assms, of now] unfolding service_inv_def by (auto simp: control_def)
  next
    case (Enter registered c)
    then show ?thesis using kept enter_follows[OF assms, of registered c] unfolding service_inv_def by auto
  next
    case (Start started)
    then show ?thesis using kept start_follows[OF assms, of started] unfolding service_inv_def by auto
  next
    case (Poll now)
    then show ?thesis using kept poll_follows[OF assms, of now] unfolding service_inv_def by auto
  next
    case Conclude
    then show ?thesis using kept conclude_follows[OF assms] unfolding service_inv_def by auto
  next
    case Progress
    then show ?thesis
      using kept progress_follows[OF assms] unfolding service_inv_def by (auto simp: start_progress_def)
  next
    case Ready
    then show ?thesis using kept ready_follows[OF assms] unfolding service_inv_def by (auto simp: service_ready_def)
  next
    case (WorkerEnds code)
    then show ?thesis using kept worker_follows[OF assms, of code] unfolding service_inv_def by auto
  qed
qed

interpretation service_machine: machine service_step service_inv
  by unfold_locales (metis service_inv_def step_follows)

lemma new_service_inv: "service_inv new_service"
proof -
  have "follows 0 False False None new_service" by (simp add: shape_defs new_service_def working_def)
  then show ?thesis unfolding service_inv_def by blast
qed

lemma run_follows: "\<exists>n up stopping final. follows n up stopping final (service_machine.run es new_service)"
  using service_machine.run_inv[OF new_service_inv] unfolding service_inv_def .

section \<open>After a stop request\<close>

definition stop_pending_since :: "64 word \<Rightarrow> service \<Rightarrow> bool" where
  "stop_pending_since t s \<longleftrightarrow>
     sv_stop_started s = t \<and> rp_state (sv_status s) \<in> {STOP_PENDING, STOPPED} \<and>
     sv_phase s \<in> {MainPolling, MainConcluding, MainDone, Terminated}"

lemma stop_pending_step: "stop_pending_since t s \<Longrightarrow> stop_pending_since t (service_step e s)"
  by (cases e) (auto simp: stop_pending_since_def step_defs split: option.split)

lemma stop_pending_run: "stop_pending_since t s \<Longrightarrow> stop_pending_since t (service_machine.run es s)"
  by (induction es arbitrary: s) (simp_all add: stop_pending_step)

lemma stop_requested:
  assumes "service_inv s" and "rp_state (sv_status s) = RUNNING" and "sv_phase s \<noteq> Terminated"
    and "code = SERVICE_CONTROL_STOP \<or> code = SERVICE_CONTROL_SHUTDOWN"
  shows "stop_pending_since t (service_step (Control code t) s)"
proof -
  obtain n up stopping final where f: "follows n up stopping final s" using assms(1) unfolding service_inv_def by blast
  show ?thesis
    using f running_follows[OF f assms(2)] assms(2-4)
    by (auto simp: stop_pending_since_def control_def tell_def report_def Let_def follows_def)
qed

section \<open>Properties\<close>

text \<open>C8: Whatever order the manager's calls, the loop of \<open>service_main\<close> and the worker take, what the manager
  sees refines the protocol: start-pending reports with the checkpoints 1, 2, 3 and so on, at most one
  running report, at most one stop-pending report, made only after it and followed at once by the one
  call of the stop callback, and at most one final report, whose exit code is the one that
  \<open>run_windows_service\<close> returns.  So running is never reported after a stop request, and controls are
  accepted only while the service runs.\<close>

theorem service_reports:
  "let s = service_machine.run es new_service
   in \<exists>n up stopping final. seen s = history n up stopping final \<and>
        (case final of None \<Rightarrow> True | Some c \<Rightarrow> fst (run_windows_service None s) = c)"
proof -
  obtain n up stopping final where f: "follows n up stopping final (service_machine.run es new_service)"
    using run_follows by blast
  then have "case final of None \<Rightarrow> True | Some c \<Rightarrow> fst (run_windows_service None (service_machine.run es new_service)) = c"
    by (simp add: follows_def run_windows_service_def split: option.split)
  with f show ?thesis unfolding follows_def Let_def by blast
qed

text \<open>C25: A service that runs and is asked to stop does not stay stop-pending for ever: whatever happens
  after the request, a round of the loop sixty seconds or more after it (by the unsigned difference of the
  tick counts) leaves it on the way to its final report or with the process terminated.  A request
  at the tick 0 is the one exception, since 0 stands for no request.\<close>

theorem service_stop_ends:
  assumes "rp_state (sv_status (service_machine.run es new_service)) = RUNNING"
    and "sv_phase (service_machine.run es new_service) \<noteq> Terminated"
    and "code = SERVICE_CONTROL_STOP \<or> code = SERVICE_CONTROL_SHUTDOWN"
    and "t \<noteq> 0" and "now - t \<ge> 60000"
  shows "sv_phase (service_machine.run (es @ Control code t # fs @ [Poll now]) new_service)
    \<in> {MainConcluding, MainDone, Terminated}"
proof -
  let ?s = "service_machine.run es new_service"
  let ?u = "service_machine.run fs (service_step (Control code t) ?s)"
  have "stop_pending_since t ?u"
    by (intro stop_pending_run stop_requested service_machine.run_inv new_service_inv assms)
  then have "sv_phase (service_step (Poll now) ?u) \<in> {MainConcluding, MainDone, Terminated}"
    using assms(4,5) by (auto simp: stop_pending_since_def main_poll_def tell_def)
  then show ?thesis by (simp add: service_machine.run_append del: service_step.simps)
qed

lemma example_service:
  "rp_state (sv_status (service_machine.run [Enter True 0, Start True, Progress, Ready] new_service)) = RUNNING"
  "sv_phase (service_machine.run [Enter True 0, Start True, Progress, Ready] new_service) \<noteq> Terminated"
  by (simp_all add: new_service_def step_defs)

theorem service_stop_ends_witness:
  "sv_phase (service_machine.run ([Enter True 0, Start True, Progress, Ready] @ Control SERVICE_CONTROL_STOP 5 #
     [Control SERVICE_CONTROL_SHUTDOWN 6, Progress] @ [Poll 60005]) new_service) \<in> {MainConcluding, MainDone, Terminated}"
  by (rule service_stop_ends[OF example_service]) simp_all

end
