(* ===== verification/Upgrade_Checks.thy ===== *)
theory Upgrade_Checks
  imports Config Win_Quote
begin

text \<open>
  What \<open>windows-upgrade.cpp\<close> checks before it changes anything: that two directories are really apart,
  what kind of executable a service runs, and what the new package's files say.  Every \<open>require\<close> that
  fails throws a \<open>runtime_error\<close>; its text is not kept.
\<close>

definition require :: "bool \<Rightarrow> unit res" where
  "require test = reject_if (\<not> test) RuntimeError"

section \<open>Wide text\<close>

definition wide_text :: "string \<Rightarrow> wide" where
  "wide_text s = map (\<lambda>c. of_nat (of_char c)) s"

text \<open>\<open>towlower\<close> in the C locale, which the tool never leaves.\<close>

definition towlower :: "16 word \<Rightarrow> 16 word" where
  "towlower c = (if 0x41 \<le> c \<and> c \<le> 0x5A then c + 0x20 else c)"

definition wide_lower :: "wide \<Rightarrow> wide" where
  "wide_lower v = map towlower v"

section \<open>Directories\<close>

text \<open>A path is its text in normal form: absolute, on a drive letter, no dots, no separator at the end
  except a root's.  So are the canonical paths the tool works with and the directories Windows reports.\<close>

definition same :: "wide \<Rightarrow> wide \<Rightarrow> bool" where
  "same a b \<longleftrightarrow> wide_lower a = wide_lower b"

definition contains :: "wide \<Rightarrow> wide \<Rightarrow> bool" where
  "contains parent child =
     (let a = wide_lower parent; b = wide_lower child;
          a = (if last a \<noteq> backslash then a @ [backslash] else a)
      in length b \<ge> length a \<and> take (length a) b = a)"

definition root_path :: "wide \<Rightarrow> wide" where
  "root_path p = take 3 p"

record path_env =
  pe_linked :: "wide \<Rightarrow> bool"          \<comment> \<open>some directory on the path is a reparse point\<close>
  pe_directory :: "wide \<Rightarrow> bool"
  pe_windows :: wide
  pe_variable :: "string \<Rightarrow> wide option"

definition no_links :: "path_env \<Rightarrow> wide \<Rightarrow> unit res" where
  "no_links e p = require (\<not> pe_linked e p)"

definition shared_roots :: "string list" where
  "shared_roots = [''ProgramFiles'', ''ProgramFiles(x86)'', ''USERPROFILE'', ''ProgramData'']"

definition validate_paths :: "path_env \<Rightarrow> wide \<Rightarrow> wide \<Rightarrow> unit res" where
  "validate_paths e source target =
     bind_res (no_links e source) (\<lambda>_. bind_res (no_links e target) (\<lambda>_.
     bind_res (require (pe_directory e source \<and> pe_directory e target)) (\<lambda>_.
     bind_res (require (\<not> same source target \<and> \<not> contains source target \<and> \<not> contains target source)) (\<lambda>_.
     bind_res (require (target \<noteq> root_path target)) (\<lambda>_.
     bind_res (require (\<not> same target (pe_windows e) \<and> \<not> contains (pe_windows e) target)) (\<lambda>_.
     require (list_all (\<lambda>name. case pe_variable e name of None \<Rightarrow> True | Some value \<Rightarrow> \<not> same target value)
       shared_roots)))))))"

section \<open>Executables\<close>

type_synonym octets = "8 word list"

fun little_endian :: "octets \<Rightarrow> nat" where
  "little_endian [] = 0"
| "little_endian (b # bs) = unat b + 256 * little_endian bs"

definition read_at :: "nat \<Rightarrow> octets \<Rightarrow> nat \<Rightarrow> nat res" where
  "read_at n bytes offset =
     bind_res (require (offset \<le> length bytes \<and> n \<le> length bytes - offset))
       (\<lambda>_. Inr (little_endian (take n (drop offset bytes))))"

text \<open>The offset of the PE header is a \<open>DWORD\<close>, so \<open>pe+4\<close> is computed in 32 bits; the rest is a
  \<open>size_t\<close>.  The entry of the COM descriptor is the fifteenth data directory.\<close>

definition optional_header :: "nat \<Rightarrow> nat" where
  "optional_header pe = (pe + 4) mod 2 ^ 32 + 20"

definition com_directory :: "nat \<Rightarrow> nat \<Rightarrow> nat" where
  "com_directory optional magic = optional + (if magic = 0x10B then 96 else 112) + 14 * 8"

definition managed_pe :: "octets \<Rightarrow> bool res" where
  "managed_pe bytes =
     bind_res (read_at 2 bytes 0) (\<lambda>mz. bind_res (require (mz = 0x5A4D)) (\<lambda>_.
     bind_res (read_at 4 bytes 0x3C) (\<lambda>pe. bind_res (read_at 4 bytes pe) (\<lambda>signature.
     bind_res (require (signature = 0x4550)) (\<lambda>_.
     bind_res (read_at 2 bytes (optional_header pe)) (\<lambda>magic.
     bind_res (require (magic = 0x10B \<or> magic = 0x20B)) (\<lambda>_.
     bind_res (read_at 8 bytes (com_directory (optional_header pe) magic)) (\<lambda>entry.
       Inr (entry mod 2 ^ 32 \<noteq> 0)))))))))"

datatype kind = Native | Managed

definition product_identity :: octets where
  "product_identity = map (\<lambda>c. of_nat (of_char c)) ''hik-sdk-http-bridge''"

definition identify :: "wide \<Rightarrow> wide list \<Rightarrow> octets \<Rightarrow> kind res" where
  "identify filename args bytes =
     (let name = wide_lower filename in
      bind_res (require (name = wide_text ''hik-sdk-http-bridge.exe'' \<or> name = wide_text ''hiksdkhttpbridge.exe'')) (\<lambda>_.
      bind_res (require (length args \<ge> 2)) (\<lambda>_.
      bind_res (managed_pe bytes) (\<lambda>managed.
        if managed then bind_res (require (wide_lower (args ! 1) = wide_text ''service-run'')) (\<lambda>_. Inr Managed)
        else bind_res (require (name = wide_text ''hik-sdk-http-bridge.exe'' \<and> wide_lower (args ! 1) = wide_text ''service''))
          (\<lambda>_. bind_res (require (find_sub product_identity bytes \<noteq> None)) (\<lambda>_. Inr Native))))))"

section \<open>The package's files\<close>

text \<open>\<open>std::regex_search\<close> for the three expressions of the tool: the first place where one matches.\<close>

fun regex_search :: "(string \<Rightarrow> 'a option) \<Rightarrow> string \<Rightarrow> 'a option" where
  "regex_search m [] = m []"
| "regex_search m (c # s) = (case m (c # s) of Some x \<Rightarrow> Some x | None \<Rightarrow> regex_search m s)"

definition match_key :: "string \<Rightarrow> string \<Rightarrow> string option" where
  "match_key key s =
     (if prefix (quoted_name key) s then
        (case dropWhile is_space (drop (length (quoted_name key)) s) of
           [] \<Rightarrow> None
         | c # r \<Rightarrow> if c = CHR '':'' then Some (dropWhile is_space r) else None)
      else None)"

definition match_until :: "char \<Rightarrow> char \<Rightarrow> string \<Rightarrow> string option" where
  "match_until opening closing s =
     (case s of [] \<Rightarrow> None
      | c # r \<Rightarrow> if c = opening \<and> closing \<in> set r then Some (takeWhile (\<lambda>d. d \<noteq> closing) r) else None)"

definition match_digits :: "string \<Rightarrow> string option" where
  "match_digits s = (if takeWhile is_digit s = [] then None else Some (takeWhile is_digit s))"

definition search_field :: "string \<Rightarrow> (string \<Rightarrow> string option) \<Rightarrow> string \<Rightarrow> string res" where
  "search_field key m s = res_of_option RuntimeError (regex_search (\<lambda>t. Option.bind (match_key key t) m) s)"

definition json_text_field :: "string \<Rightarrow> string \<Rightarrow> string res" where
  "json_text_field json key = search_field key (match_until (CHR 0x22) (CHR 0x22)) json"

definition port :: "string \<Rightarrow> int res" where
  "port text' =
     bind_res (search_field ''server'' (match_until (CHR ''{'') (CHR ''}'')) text') (\<lambda>fields.
     bind_res (json_text_field fields ''bind'') (\<lambda>bind.
     bind_res (require (bind = ''127.0.0.1'')) (\<lambda>_.
     bind_res (search_field ''port'' match_digits fields) (\<lambda>number.
     bind_res (res_of_option RuntimeError (stoi number)) (\<lambda>value.
     bind_res (require (value > 0 \<and> value < 65536)) (\<lambda>_. Inr value))))))"

section \<open>Files\<close>

definition equal_buffer :: nat where
  "equal_buffer = 65536"

text \<open>The comparison of \<open>equal_file\<close>, one buffer at a time.\<close>

function equal_content :: "'a list \<Rightarrow> 'a list \<Rightarrow> bool" where
  "equal_content x y =
     (let xb = take equal_buffer x; yb = take (length xb) y
      in if length yb \<noteq> length xb \<or> xb \<noteq> yb then False
         else if length x < equal_buffer then True
         else equal_content (drop equal_buffer x) (drop (length xb) y))"
  by pat_completeness auto
termination
  by (relation "measure (length \<circ> fst)") (auto simp: equal_buffer_def)

declare equal_content.simps [simp del]

definition equal_file :: "'a list \<Rightarrow> 'a list \<Rightarrow> bool" where
  "equal_file a b \<longleftrightarrow> length a = length b \<and> equal_content a b"

section \<open>Facts about the checks\<close>

lemma require_eq [res_simps]: "require b = Inr u \<longleftrightarrow> b" "require b = Inl f \<longleftrightarrow> \<not> b \<and> f = RuntimeError"
  by (auto simp: require_def reject_if_def)

lemma require_simps [simp]: "require True = Inr ()" "require False = Inl RuntimeError"
  by (simp_all add: require_def)

lemma equal_content_same: "length a = length b \<Longrightarrow> equal_content a b \<longleftrightarrow> a = b"
proof (induction a b rule: equal_content.induct)
  case (1 x y)
  let ?n = "equal_buffer"
  have len: "length (take ?n x) = min (length x) ?n" by (simp add: min.commute)
  have parts: "x = y \<longleftrightarrow> take ?n x = take ?n y \<and> drop ?n x = drop ?n y" by (metis append_take_drop_id)
  show ?case
  proof (cases "length x < ?n")
    case True
    then show ?thesis using 1(2) by (subst equal_content.simps) (simp add: Let_def)
  next
    case False
    have y: "take (length (take ?n x)) y = take ?n y" "drop (length (take ?n x)) y = drop ?n y"
      using False 1(2) by (simp_all add: min_def)
    show ?thesis
    proof (cases "take ?n x = take ?n y")
      case True
      have "equal_content (drop ?n x) (drop (length (take ?n x)) y) \<longleftrightarrow> drop ?n x = drop (length (take ?n x)) y"
        using 1(1)[OF refl refl] True False y 1(2) by simp
      then show ?thesis using True False y parts 1(2) by (subst equal_content.simps) (simp add: Let_def)
    next
      case False
      then show ?thesis using y parts by (subst equal_content.simps) (simp add: Let_def)
    qed
  qed
qed

lemma equal_file_same: "equal_file a b \<longleftrightarrow> a = b"
  using equal_content_same by (auto simp: equal_file_def)

subsection \<open>Paths\<close>

text \<open>The text of a directory from its drive and the names on the way to it.\<close>

definition path_text :: "wide \<Rightarrow> wide list \<Rightarrow> wide" where
  "path_text drive names =
     drive @ (if names = [] then [backslash] else concat (map (\<lambda>n. backslash # n) names))"

definition name_ok :: "wide \<Rightarrow> bool" where
  "name_ok n \<longleftrightarrow> n \<noteq> [] \<and> backslash \<notin> set n"

definition drive_ok :: "wide \<Rightarrow> bool" where
  "drive_ok d \<longleftrightarrow> length d = 2 \<and> backslash \<notin> set d"

definition path_ok :: "wide \<Rightarrow> wide list \<Rightarrow> bool" where
  "path_ok drive names \<longleftrightarrow> drive_ok drive \<and> list_all name_ok names"

lemma towlower_backslash: "towlower c = backslash \<longleftrightarrow> c = backslash"
proof (cases "0x41 \<le> c \<and> c \<le> 0x5A")
  case True
  then have "65 \<le> unat c" "unat c \<le> 90" by (simp_all add: word_le_nat_alt)
  moreover from this have "unat (c + 0x20) = unat c + 32"
    by (simp add: unat_word_ariths)
  ultimately have "unat (c + 0x20) \<noteq> unat backslash" "unat c \<noteq> unat backslash" by auto
  then show ?thesis using True by (auto simp: towlower_def)
qed (auto simp: towlower_def)

lemma name_ok_lower: "name_ok (wide_lower n) = name_ok n"
  using towlower_backslash by (auto simp: name_ok_def wide_lower_def)

lemma path_ok_lower: "path_ok (wide_lower d) (map wide_lower ns) = path_ok d ns"
  using towlower_backslash name_ok_lower
  by (auto simp: path_ok_def drive_ok_def list_all_iff) (auto simp: wide_lower_def)

lemma wide_lower_path: "wide_lower (path_text d ns) = path_text (wide_lower d) (map wide_lower ns)"
  by (auto simp: path_text_def wide_lower_def towlower_def map_concat o_def)

definition below :: "wide list \<Rightarrow> wide" where
  "below ns = concat (map (\<lambda>n. backslash # n) ns)"

lemma below_simps [simp]: "below [] = []" "below (n # ns) = backslash # n @ below ns"
  by (simp_all add: below_def)

lemma below_starts: "below ns = [] \<or> hd (below ns) = backslash"
  by (cases ns) simp_all

lemma first_name:
  assumes "backslash \<notin> set n" "backslash \<notin> set m" and "y = [] \<or> hd y = backslash"
  shows "prefix (n @ backslash # x) (m @ y) \<longleftrightarrow> n = m \<and> prefix (backslash # x) y"
proof
  assume "prefix (n @ backslash # x) (m @ y)"
  then obtain z where z: "m @ y = n @ backslash # x @ z" by (auto simp: prefix_def)
  have "takeWhile (\<lambda>c. c \<noteq> backslash) (m @ y) = m"
    using assms(2,3) by (cases y) (auto simp: takeWhile_tail takeWhile_append)
  moreover have "takeWhile (\<lambda>c. c \<noteq> backslash) (n @ backslash # x @ z) = n"
    using assms(1) by (auto simp: takeWhile_tail takeWhile_append)
  ultimately have "m = n" using z by simp
  then show "n = m \<and> prefix (backslash # x) y" using z by (auto simp: prefix_def)
qed (auto simp: prefix_def)

lemma below_prefix:
  "list_all name_ok ns \<Longrightarrow> list_all name_ok ms \<Longrightarrow> prefix (below ns @ [backslash]) (below ms) \<longleftrightarrow> strict_prefix ns ms"
proof (induction ns arbitrary: ms)
  case Nil
  then show ?case by (cases ms) simp_all
next
  case (Cons n ns)
  show ?case
  proof (cases ms)
    case (Cons m ms')
    obtain x where x: "below ns @ [backslash] = backslash # x" by (cases ns) simp_all
    have "prefix (n @ backslash # x) (m @ below ms') \<longleftrightarrow> n = m \<and> prefix (backslash # x) (below ms')"
      using Cons.prems Cons below_starts by (intro first_name) (auto simp: name_ok_def)
    moreover have "prefix (backslash # x) (below ms') \<longleftrightarrow> strict_prefix ns ms'"
      using Cons.IH[of ms'] Cons.prems Cons unfolding x by simp
    moreover have "below (n # ns) @ [backslash] = backslash # n @ backslash # x" using x by simp
    ultimately show ?thesis unfolding Cons by (auto simp: strict_prefix_def)
  qed simp
qed

lemma path_text_below: "path_text d ns = d @ (if ns = [] then [backslash] else below ns)"
  by (simp add: path_text_def below_def)

lemma below_append: "below (ns @ ms) = below ns @ below ms"
  by (induction ns) simp_all

lemma last_below: "list_all name_ok ns \<Longrightarrow> ns \<noteq> [] \<Longrightarrow> last (below ns) \<noteq> backslash"
  by (cases ns rule: rev_cases) (auto simp: below_append name_ok_def dest: last_in_set)

lemma prefix_take: "length b \<ge> length a \<and> take (length a) b = a \<longleftrightarrow> prefix a b"
  by (metis append_eq_conv_conj append_take_drop_id length_take min.absorb_iff2 min.cobounded1 prefix_def)

lemma contains_path:
  assumes "path_ok d ns" "path_ok d' ms"
  shows "contains (path_text d ns) (path_text d' ms) \<longleftrightarrow>
    wide_lower d = wide_lower d' \<and>
    (strict_prefix (map wide_lower ns) (map wide_lower ms) \<or> ns = [] \<and> ms = [])"
proof -
  define a where "a = wide_lower d"
  define b where "b = wide_lower d'"
  define xs where "xs = map wide_lower ns"
  define ys where "ys = map wide_lower ms"
  have ok: "path_ok a xs" "path_ok b ys" using assms by (simp_all add: a_def b_def xs_def ys_def path_ok_lower)
  then have len: "length a = 2" "length b = 2" and names: "list_all name_ok xs" "list_all name_ok ys"
    by (simp_all add: path_ok_def drive_ok_def)
  have parent: "(if last (path_text a xs) \<noteq> backslash then path_text a xs @ [backslash] else path_text a xs) =
      a @ below xs @ [backslash]"
    using last_below[OF names(1)] by (cases xs) (simp_all add: path_text_below)
  have "contains (path_text d ns) (path_text d' ms) \<longleftrightarrow> prefix (a @ below xs @ [backslash]) (path_text b ys)"
    unfolding contains_def wide_lower_path Let_def a_def[symmetric] b_def[symmetric] xs_def[symmetric] ys_def[symmetric]
      parent by (rule prefix_take)
  also have "\<dots> \<longleftrightarrow> a = b \<and> prefix (below xs @ [backslash]) (if ys = [] then [backslash] else below ys)"
    using len by (auto simp: path_text_below prefix_def)
  also have "\<dots> \<longleftrightarrow> a = b \<and> (strict_prefix xs ys \<or> xs = [] \<and> ys = [])"
    using below_prefix[OF names] by (cases xs) (auto simp: prefix_def)
  finally show ?thesis by (simp add: a_def b_def xs_def ys_def)
qed

text \<open>Where a directory is, whatever the case of its letters.\<close>

definition place :: "wide \<Rightarrow> wide list \<Rightarrow> wide list" where
  "place drive names = wide_lower drive # map wide_lower names"

lemma contains_place:
  assumes "path_ok d ns" "path_ok d' ms"
  shows "contains (path_text d ns) (path_text d' ms) \<longleftrightarrow>
    strict_prefix (place d ns) (place d' ms) \<or> ns = [] \<and> place d ns = place d' ms"
  using contains_path[OF assms] by (auto simp: place_def)

lemma same_place:
  assumes "path_ok d ns" "path_ok d' ms" and "place d ns = place d' ms"
  shows "same (path_text d ns) (path_text d' ms)"
  using assms(3) by (auto simp: same_def wide_lower_path place_def)

lemma apart_places:
  assumes "path_ok d ns" "path_ok d' ms" and "\<not> same (path_text d ns) (path_text d' ms)"
    and "\<not> contains (path_text d ns) (path_text d' ms)"
  shows "\<not> prefix (place d ns) (place d' ms)"
  using assms contains_place[OF assms(1,2)] same_place[OF assms(1,2)] by (auto simp: prefix_order.le_less)

subsection \<open>Executables\<close>

lemma read_at_eq:
  "read_at n bytes offset = Inr v \<longleftrightarrow> offset + n \<le> length bytes \<and> v = little_endian (take n (drop offset bytes))"
  by (auto simp: read_at_def res_simps)

lemma read_at_error: "read_at n bytes offset = Inl f \<Longrightarrow> f = RuntimeError"
  by (auto simp: read_at_def res_simps)

lemma read_at_take: "read_at n (take k bytes) offset = Inr v \<Longrightarrow> read_at n bytes offset = Inr v \<and> offset + n \<le> k"
  by (auto simp: read_at_eq drop_take)

lemma managed_pe_error: "managed_pe bytes = Inl f \<Longrightarrow> f = RuntimeError"
  by (auto simp: managed_pe_def res_simps dest: read_at_error)

text \<open>The reads that an accepted executable answers.\<close>

definition pe_layout :: "octets \<Rightarrow> nat \<Rightarrow> nat \<Rightarrow> nat \<Rightarrow> bool" where
  "pe_layout bytes pe magic entry \<longleftrightarrow>
     read_at 2 bytes 0 = Inr 0x5A4D \<and> read_at 4 bytes 0x3C = Inr pe \<and> read_at 4 bytes pe = Inr 0x4550 \<and>
     read_at 2 bytes (optional_header pe) = Inr magic \<and> magic \<in> {0x10B, 0x20B} \<and>
     read_at 8 bytes (com_directory (optional_header pe) magic) = Inr entry"

lemma managed_pe_layout:
  "managed_pe bytes = Inr m \<longleftrightarrow> (\<exists>pe magic entry. pe_layout bytes pe magic entry \<and> m = (entry mod 2 ^ 32 \<noteq> 0))"
  unfolding managed_pe_def pe_layout_def by (auto simp: res_simps)

lemma managed_pe_truncated:
  assumes "pe_layout bytes pe magic entry" and "k < com_directory (optional_header pe) magic + 8"
  shows "managed_pe (take k bytes) = Inl RuntimeError"
proof (cases "managed_pe (take k bytes)")
  case (Inl f)
  then show ?thesis using managed_pe_error by blast
next
  case (Inr m)
  then obtain pe' magic' entry' where l: "pe_layout (take k bytes) pe' magic' entry'"
    by (auto simp: managed_pe_layout)
  then have "pe' = pe" "magic' = magic"
    using assms(1) by (auto simp: pe_layout_def dest!: read_at_take)
  then show ?thesis using l assms(2) by (auto simp: pe_layout_def dest!: read_at_take)
qed

text \<open>An image as a linker writes it: the DOS header with the offset of the PE header behind \<open>stub\<close>, the
  file header, and an optional header with the COM descriptor's address \<open>clr\<close>.\<close>

fun le_bytes :: "nat \<Rightarrow> nat \<Rightarrow> octets" where
  "le_bytes 0 v = []"
| "le_bytes (Suc k) v = of_nat (v mod 256) # le_bytes k (v div 256)"

lemma le_bytes_length [simp]: "length (le_bytes k v) = k"
  by (induction k arbitrary: v) simp_all

lemma little_endian_bytes: "little_endian (le_bytes k v) = v mod 256 ^ k"
proof (induction k arbitrary: v)
  case (Suc k)
  have "unat (of_nat (v mod 256) :: 8 word) = v mod 256"
    by (simp add: unat_of_nat take_bit_eq_mod)
  then show ?case using Suc by (simp add: mod_mult2_eq)
qed simp

record image =
  im_dos :: octets
  im_stub :: octets
  im_header :: octets
  im_wide :: bool             \<comment> \<open>PE32+\<close>
  im_fields :: octets
  im_clr :: nat
  im_rest :: octets

definition image_ok :: "image \<Rightarrow> bool" where
  "image_ok i \<longleftrightarrow> length (im_dos i) = 58 \<and> length (im_stub i) < 2 ^ 31 \<and> length (im_header i) = 20 \<and>
     length (im_fields i) = (if im_wide i then 110 else 94) + 14 * 8 \<and> im_clr i < 2 ^ 32 \<and> length (im_rest i) \<ge> 4"

definition image_bytes :: "image \<Rightarrow> octets" where
  "image_bytes i =
     le_bytes 2 0x5A4D @ im_dos i @ le_bytes 4 (64 + length (im_stub i)) @ im_stub i @
     le_bytes 4 0x4550 @ im_header i @ le_bytes 2 (if im_wide i then 0x20B else 0x10B) @ im_fields i @
     le_bytes 4 (im_clr i) @ im_rest i"

lemma read_at_append:
  "length a = offset \<Longrightarrow> length b = n \<Longrightarrow> read_at n (a @ b @ c) offset = Inr (little_endian b)"
  by (simp add: read_at_eq)

lemma little_endian_append: "little_endian (a @ b) = little_endian a + 256 ^ length a * little_endian b"
  by (induction a) (simp_all add: algebra_simps)

lemma image_layout:
  assumes "image_ok i"
  shows "\<exists>e. pe_layout (image_bytes i) (64 + length (im_stub i)) (if im_wide i then 0x20B else 0x10B)
     (im_clr i + 2 ^ 32 * e)"
proof -
  let ?pe = "64 + length (im_stub i)" and ?magic = "if im_wide i then 0x20B else 0x10B :: nat"
  note ok = assms[unfolded image_ok_def]
  let ?mz = "le_bytes 2 0x5A4D" and ?off = "le_bytes 4 ?pe" and ?sig = "le_bytes 4 0x4550" and ?m = "le_bytes 2 ?magic"
  let ?clr = "le_bytes 4 (im_clr i)" and ?bytes = "image_bytes i"
  have opt: "optional_header ?pe = ?pe + 24" using ok by (simp add: optional_header_def)
  have "read_at 2 ?bytes 0 = Inr (little_endian ?mz)"
    using read_at_append[where a = "[]" and offset = 0 and b = ?mz and n = 2] by (simp add: image_bytes_def)
  moreover have "read_at 4 ?bytes 0x3C = Inr (little_endian ?off)"
    using read_at_append[where a = "?mz @ im_dos i" and offset = 60 and b = ?off and n = 4] ok by (simp add: image_bytes_def)
  moreover have "read_at 4 ?bytes ?pe = Inr (little_endian ?sig)"
    using read_at_append[where a = "?mz @ im_dos i @ ?off @ im_stub i" and offset = ?pe and b = ?sig and n = 4] ok by (simp add: image_bytes_def)
  moreover have "read_at 2 ?bytes (?pe + 24) = Inr (little_endian ?m)"
    using read_at_append[where a = "?mz @ im_dos i @ ?off @ im_stub i @ ?sig @ im_header i" and offset = "?pe + 24" and b = ?m and n = 2] ok
    by (simp add: image_bytes_def)
  moreover have "read_at 8 ?bytes (com_directory (?pe + 24) ?magic) = Inr (little_endian (?clr @ take 4 (im_rest i)))"
    using read_at_append[where a = "?mz @ im_dos i @ ?off @ im_stub i @ ?sig @ im_header i @ ?m @ im_fields i" and offset = "com_directory (?pe + 24) ?magic" and b = "?clr @ take 4 (im_rest i)" and n = 8 and c = "drop 4 (im_rest i)"] ok
    by (simp add: image_bytes_def com_directory_def)
  moreover have "little_endian (?clr @ take 4 (im_rest i)) = im_clr i + 2 ^ 32 * little_endian (take 4 (im_rest i))"
    using ok by (simp add: little_endian_append little_endian_bytes)
  ultimately show ?thesis
    using ok by (intro exI[of _ "little_endian (take 4 (im_rest i))"])
      (simp add: pe_layout_def opt little_endian_bytes)
qed

subsection \<open>The configuration\<close>

lemma regex_search_found:
  assumes "find_sub pat s = Some i" and "m (drop i s) = Some x" and "\<And>t. \<not> prefix pat t \<Longrightarrow> m t = None"
  shows "regex_search m s = Some x"
  using assms(1,2)
proof (induction s arbitrary: i)
  case Nil
  then show ?case by (simp split: if_splits)
next
  case (Cons c s)
  show ?case
  proof (cases "prefix pat (c # s)")
    case True
    then show ?thesis using Cons.prems by simp
  next
    case False
    then obtain j where "find_sub pat s = Some j" "i = Suc j" using Cons.prems(1) by auto
    then show ?thesis using Cons assms(3)[OF False] by simp
  qed
qed

lemma match_key_field: "match_key k (quoted_name k @ CHR '':'' # r) = Some (dropWhile is_space r)"
  by (simp add: match_key_def is_space_def)

lemma search_field_found:
  assumes "find_sub (quoted_name k) s = Some i" and "drop i s = quoted_name k @ CHR '':'' # r"
    and "m (dropWhile is_space r) = Some x"
  shows "search_field k m s = Inr x"
proof -
  have "regex_search (\<lambda>t. Option.bind (match_key k t) m) s = Some x"
    using assms by (intro regex_search_found[OF assms(1)]) (simp_all add: match_key_field, simp add: match_key_def)
  then show ?thesis by (simp add: search_field_def res_simps)
qed

lemma match_until_found: "c \<notin> set t \<Longrightarrow> match_until d c (d # t @ c # r) = Some t"
proof -
  assume "c \<notin> set t"
  then have "takeWhile (\<lambda>d. d \<noteq> c) (t @ c # r) = t" by (induction t) auto
  then show ?thesis by (simp add: match_until_def)
qed

lemma match_digits_show: "r = [] \<or> hd r = CHR '','' \<Longrightarrow> match_digits (show_nat n @ r) = Some (show_nat n)"
proof -
  assume "r = [] \<or> hd r = CHR '',''"
  then have "takeWhile is_digit (show_nat n @ r) = show_nat n"
    using show_nat_digits by (cases r) (auto simp: takeWhile_append is_digit_def)
  then show ?thesis by (simp add: match_digits_def)
qed

lemma show_nat_start: "dropWhile is_space (show_nat n @ r) = show_nat n @ r"
  using show_nat_digits[of "hd (show_nat n)" n] digit_not_space
  by (cases "show_nat n") (auto dest: show_nat_not_Nil[THEN notE])

lemma search_string_field:
  assumes "fields_ok fs" "plain_name k" "\<forall>(k', v)\<in>set fs. v \<noteq> Str k" "map_of fs k = Some (Str t)"
  shows "json_text_field (render_fields fs) k = Inr t"
proof -
  obtain i r where "find_sub (quoted_name k) (render_fields fs) = Some i"
    "drop i (render_fields fs) = field_text k (Str t) @ r"
    using find_field[OF assms(2,1,3)] assms(4) by auto
  moreover have "clean_text t" using assms(1,4) by (auto simp: fields_ok_def dest!: map_of_SomeD)
  ultimately show ?thesis
    using match_until_found[of "CHR 0x22" t "CHR 0x22" r] unfolding json_text_field_def
    by (intro search_field_found[where r = "quoted_name t @ r"])
      (simp_all add: field_text_def quoted_name_def clean_text_def is_space_def)
qed

lemma search_number_field:
  assumes "fields_ok fs" "plain_name k" "\<forall>(k', v)\<in>set fs. v \<noteq> Str k" "map_of fs k = Some (Token (show_nat n))"
  shows "search_field k match_digits (render_fields fs) = Inr (show_nat n)"
proof -
  obtain i r where "find_sub (quoted_name k) (render_fields fs) = Some i"
    "drop i (render_fields fs) = field_text k (Token (show_nat n)) @ r" "r = [] \<or> hd r = CHR '',''"
    using find_field[OF assms(2,1,3)] assms(4) by auto
  then show ?thesis
    using match_digits_show[of r n] show_nat_start[of n r]
    by (intro search_field_found[where r = "show_nat n @ r"]) (simp_all add: field_text_def)
qed

section \<open>Properties\<close>


definition example_paths :: path_env where
  "example_paths = \<lparr>pe_linked = \<lambda>_. False, pe_directory = \<lambda>_. True,
     pe_windows = path_text [0x43, 0x3A] [[0x57]], pe_variable = \<lambda>_. None\<rparr>"


text \<open>C27: A Windows executable is taken for a managed one exactly when its COM descriptor has an address, in
  32-bit and in 64-bit images, wherever the DOS stub puts the header; and an image that ends before the
  end of that entry is refused, never read behind its end.\<close>

theorem executable_classified:
  assumes "image_ok i"
  shows "managed_pe (image_bytes i) = Inr (im_clr i \<noteq> 0) \<and>
    (\<forall>k < com_directory (88 + length (im_stub i)) (if im_wide i then 0x20B else 0x10B) + 8.
       managed_pe (take k (image_bytes i)) = Inl RuntimeError)"
proof -
  obtain e where l: "pe_layout (image_bytes i) (64 + length (im_stub i)) (if im_wide i then 0x20B else 0x10B)
     (im_clr i + 2 ^ 32 * e)"
    using image_layout[OF assms] by blast
  have "(im_clr i + 2 ^ 32 * e) mod 2 ^ 32 = im_clr i" using assms by (simp add: image_ok_def)
  then have "managed_pe (image_bytes i) = Inr (im_clr i \<noteq> 0)"
    using l by (auto simp: managed_pe_layout intro!: exI)
  moreover have "optional_header (64 + length (im_stub i)) = 88 + length (im_stub i)"
    using assms by (simp add: image_ok_def optional_header_def)
  ultimately show ?thesis using managed_pe_truncated[OF l] by simp
qed

definition example_image :: image where
  "example_image = \<lparr>im_dos = replicate 58 0, im_stub = replicate 64 7, im_header = replicate 20 0, im_wide = True,
     im_fields = replicate 222 0, im_clr = 0x2008, im_rest = replicate 4 1\<rparr>"

theorem executable_classified_witness: "managed_pe (image_bytes example_image) = Inr True"
  using executable_classified[of example_image] by (simp add: image_ok_def example_image_def)



end
