(* ===== verification/Windows_Upgrade.thy ===== *)
theory Windows_Upgrade
  imports Exception_State Upgrade_Checks
begin

text \<open>
  The transaction of \<open>windows-upgrade.cpp\<close>: the old service and directory are inspected, the package is
  copied beside them, and then replaced with a way back.  The machine is its directory trees and its
  registered services; every call into Windows takes the next outcome of an arbitrary sequence, so a
  theorem about an execution is about every combination of failing calls.
\<close>

section \<open>The machine\<close>

datatype entry = Folder | Plain octets | OtherEntry

text \<open>A tree as \<open>recursive_directory_iterator\<close> walks through it: paths below its root, parents first.\<close>

type_synonym tree = "(wide list \<times> entry) list"

record service_config =
  sc_command :: wide
  sc_display :: wide
  sc_account :: wide
  sc_group :: wide
  sc_dependencies :: wide
  sc_type :: nat
  sc_start :: nat
  sc_error :: nat
  sc_delayed :: bool
  sc_description :: wide
  sc_failures :: octets
  sc_failure_flag :: bool

record service_entry =
  en_config :: service_config
  en_active :: bool            \<comment> \<open>neither stopped nor stop-pending\<close>

record upgrade_host =
  ho_trees :: "wide \<Rightarrow> tree option"
  ho_services :: "wide \<Rightarrow> service_entry option"
  ho_calls :: nat
  ho_moved :: bool
  ho_installed :: bool

record service_snapshot =
  sn_name :: wide
  sn_config :: service_config
  sn_running :: bool
  sn_kind :: kind
  sn_exe :: wide

text \<open>A call does its work, fails without it, or fails after it (a timeout, a service marked for
  deletion).\<close>

datatype outcome = Succeeds | Fails | FailsLate

datatype lock_wait = NoMutex | LockAcquired | LockAbandoned | LockTaken

text \<open>What the new service answers in one round of \<open>verify\<close>; \<open>None\<close> where a step of it throws.\<close>

record observation =
  ob_snapshot :: "service_snapshot option"
  ob_pid :: "nat option"
  ob_listeners :: "(nat \<times> 32 word) list"
  ob_health :: "(nat \<times> string list) option"      \<comment> \<open>status and the pieces read\<close>
  ob_version :: "(nat \<times> string list) option"

record upgrade_env =
  ue_outcome :: "nat \<Rightarrow> outcome"
  ue_system :: wide                             \<comment> \<open>the system directory\<close>
  ue_exit :: "nat \<Rightarrow> wide \<Rightarrow> nat"            \<comment> \<open>the exit code of a command line\<close>
  ue_admin :: bool
  ue_lock :: lock_wait
  ue_source :: wide
  ue_canonical :: "wide \<Rightarrow> wide option"
  ue_arguments :: "wide \<Rightarrow> wide list"
  ue_paths :: path_env
  ue_steady :: "wide \<Rightarrow> bool"
  ue_task_file :: "wide \<Rightarrow> bool"
  ue_suffix :: wide
  ue_copied :: "nat \<Rightarrow> octets \<Rightarrow> octets"
  ue_script :: "wide \<Rightarrow> upgrade_host \<Rightarrow> upgrade_host"
  ue_rounds :: "observation list"

definition native_name :: wide where
  "native_name = wide_text ''hikbridge''"

definition managed_name :: wide where
  "managed_name = wide_text ''HikSdkHttpBridge''"

definition tick :: "upgrade_host \<Rightarrow> upgrade_host" where
  "tick h = h\<lparr>ho_calls := ho_calls h + 1\<rparr>"

definition os_call :: "upgrade_env \<Rightarrow> (upgrade_host \<Rightarrow> upgrade_host) \<Rightarrow> (upgrade_host, unit) comp" where
  "os_call e f = (\<lambda>h. case ue_outcome e (ho_calls h) of
     Succeeds \<Rightarrow> (Inr (), f (tick h))
   | Fails \<Rightarrow> (Inl RuntimeError, tick h)
   | FailsLate \<Rightarrow> (Inl RuntimeError, f (tick h)))"

abbreviation ask :: "upgrade_env \<Rightarrow> (upgrade_host, unit) comp" where
  "ask e \<equiv> os_call e (\<lambda>h. h)"

definition checks :: "bool \<Rightarrow> (upgrade_host, unit) comp" where
  "checks test = of_res (require test)"

definition filename :: "wide \<Rightarrow> wide" where
  "filename p = rev (takeWhile (\<lambda>c. c \<noteq> backslash) (rev p))"

text \<open>The command line of \<open>run\<close>: quoted, except for the one command that \<open>cmd.exe\<close> may get.\<close>

definition install_arguments :: "wide list" where
  "install_arguments = [wide_text ''/d'', wide_text ''/c'', wide_text ''windows-service.cmd install /nopause'']"

definition child_line :: "wide \<Rightarrow> wide list \<Rightarrow> wide res" where
  "child_line exe args =
     (if wide_lower (filename exe) = wide_text ''cmd.exe'' then
        bind_res (require (args = install_arguments))
          (\<lambda>_. Inr (quote exe @ wide_text '' /d /c windows-service.cmd install /nopause''))
      else Inr (command_line quote exe args))"

definition run_child ::
  "upgrade_env \<Rightarrow> wide \<Rightarrow> wide list \<Rightarrow> (upgrade_host \<Rightarrow> upgrade_host) \<Rightarrow> (upgrade_host, nat) comp" where
  "run_child e exe args f =
     andthen (of_res (child_line exe args)) (\<lambda>line.
     andthen (asks ho_calls) (\<lambda>n. seq (os_call e f) (ret (ue_exit e n line))))"

definition run_ok ::
  "upgrade_env \<Rightarrow> wide \<Rightarrow> wide list \<Rightarrow> (upgrade_host \<Rightarrow> upgrade_host) \<Rightarrow> (upgrade_host, unit) comp" where
  "run_ok e exe args f = andthen (run_child e exe args f) (\<lambda>code. checks (code = 0))"

definition below_path :: "wide \<Rightarrow> wide list \<Rightarrow> wide" where
  "below_path p names = p @ concat (map (\<lambda>n. backslash # n) names)"

definition program_name :: wide where
  "program_name = wide_text ''hik-sdk-http-bridge.exe''"

definition system_tool :: "upgrade_env \<Rightarrow> string \<Rightarrow> wide" where
  "system_tool e name = below_path (ue_system e) [wide_text name]"

text \<open>The commands the tool runs: a bridge that validates its own configuration, the export of the old
  registration, the installation script (in the directory, under \<open>cmd.exe\<close>), the query for a task.\<close>

definition validate_arguments :: "wide \<Rightarrow> wide list" where
  "validate_arguments dir = [wide_text ''--validate-config'', wide_text ''--config'', below_path dir [wide_text ''config.json'']]"

definition validate_package :: "upgrade_env \<Rightarrow> wide \<Rightarrow> (upgrade_host, unit) comp" where
  "validate_package e dir = run_ok e (below_path dir [program_name]) (validate_arguments dir) (\<lambda>h. h)"

definition export_registration :: "upgrade_env \<Rightarrow> wide \<Rightarrow> wide \<Rightarrow> (upgrade_host, unit) comp" where
  "export_registration e name target =
     run_ok e (system_tool e ''reg.exe'')
       [wide_text ''export'',
        below_path (wide_text ''HKLM'') [wide_text ''SYSTEM'', wide_text ''CurrentControlSet'', wide_text ''Services'', name],
        target @ ue_suffix e @ wide_text ''.reg'', wide_text ''/y''] (\<lambda>h. h)"

definition install_service :: "upgrade_env \<Rightarrow> wide \<Rightarrow> (upgrade_host, unit) comp" where
  "install_service e target = run_ok e (system_tool e ''cmd.exe'') install_arguments (ue_script e target)"

section \<open>Services\<close>

definition put_service :: "wide \<Rightarrow> service_entry option \<Rightarrow> upgrade_host \<Rightarrow> upgrade_host" where
  "put_service name s h = h\<lparr>ho_services := (ho_services h)(name := s)\<rparr>"

definition change_service :: "wide \<Rightarrow> (service_entry \<Rightarrow> service_entry) \<Rightarrow> upgrade_host \<Rightarrow> upgrade_host" where
  "change_service name f h = put_service name (map_option f (ho_services h name)) h"

definition stop_service :: "upgrade_env \<Rightarrow> wide \<Rightarrow> (upgrade_host, unit) comp" where
  "stop_service e name =
     seq (ask e) (andthen (asks (\<lambda>h. ho_services h name)) (\<lambda>s.
       case s of
         None \<Rightarrow> ret ()
       | Some s \<Rightarrow>
           seq (ask e) (seq (if en_active s then os_call e (change_service name (\<lambda>s. s\<lparr>en_active := False\<rparr>)) else ret ())
             (seq (ask e) (ask e)))))"

definition remove_service :: "upgrade_env \<Rightarrow> wide \<Rightarrow> (upgrade_host, unit) comp" where
  "remove_service e name =
     seq (stop_service e name) (seq (ask e) (andthen (asks (\<lambda>h. ho_services h name)) (\<lambda>s.
       seq (if s = None then ret () else os_call e (put_service name None)) (ask e))))"

definition created :: "service_config \<Rightarrow> service_entry" where
  "created c = \<lparr>en_config = c\<lparr>sc_delayed := False, sc_description := [], sc_failures := [], sc_failure_flag := False\<rparr>,
     en_active = False\<rparr>"

definition base_settings :: "service_config \<Rightarrow> service_config \<Rightarrow> service_config" where
  "base_settings c d = d\<lparr>sc_command := sc_command c, sc_display := sc_display c, sc_account := sc_account c,
     sc_group := sc_group c, sc_dependencies := sc_dependencies c, sc_type := sc_type c, sc_start := sc_start c,
     sc_error := sc_error c\<rparr>"

definition configure :: "upgrade_env \<Rightarrow> wide \<Rightarrow> (service_config \<Rightarrow> service_config) \<Rightarrow> (upgrade_host, unit) comp" where
  "configure e name f = os_call e (change_service name (\<lambda>s. s\<lparr>en_config := f (en_config s)\<rparr>))"

definition restore_service :: "upgrade_env \<Rightarrow> service_snapshot \<Rightarrow> (upgrade_host, unit) comp" where
  "restore_service e old =
     (let name = sn_name old; c = sn_config old in
      seq (ask e) (andthen (asks (\<lambda>h. ho_services h name)) (\<lambda>s.
      seq (if s = None then os_call e (put_service name (Some (created c))) else configure e name (base_settings c))
     (seq (configure e name (\<lambda>d. d\<lparr>sc_delayed := sc_delayed c\<rparr>))
     (seq (configure e name (\<lambda>d. d\<lparr>sc_description := sc_description c\<rparr>))
     (seq (if sc_failures c = [] then ret () else configure e name (\<lambda>d. d\<lparr>sc_failures := sc_failures c\<rparr>))
     (seq (configure e name (\<lambda>d. d\<lparr>sc_failure_flag := sc_failure_flag c\<rparr>))
       (if sn_running old then seq (os_call e (change_service name (\<lambda>s. s\<lparr>en_active := True\<rparr>))) (ask e)
        else ret ()))))))))"

section \<open>Looking at the machine\<close>

definition parent_path :: "wide \<Rightarrow> wide" where
  "parent_path p = rev (tl (dropWhile (\<lambda>c. c \<noteq> backslash) (rev p)))"

definition absolute :: "wide \<Rightarrow> bool" where
  "absolute p \<longleftrightarrow> length p \<ge> 3 \<and> p ! 1 = 0x3A \<and> p ! 2 = backslash"

definition file_at :: "tree \<Rightarrow> string \<Rightarrow> octets option" where
  "file_at t name = (case map_of t [wide_text name] of Some (Plain bytes) \<Rightarrow> Some bytes | _ \<Rightarrow> None)"

definition read_exe :: "upgrade_host \<Rightarrow> wide \<Rightarrow> octets option" where
  "read_exe h p = Option.bind (ho_trees h (parent_path p)) (\<lambda>t.
     case map_of t [filename p] of Some (Plain bytes) \<Rightarrow> Some bytes | _ \<Rightarrow> None)"

definition accounts :: "wide list" where
  "accounts = [wide_text ''localsystem'', wide_text ''nt authority'' @ [backslash] @ wide_text ''localservice'',
     wide_text ''nt authority'' @ [backslash] @ wide_text ''networkservice'']"

definition inspect :: "upgrade_env \<Rightarrow> wide \<Rightarrow> upgrade_host \<Rightarrow> service_entry \<Rightarrow> service_snapshot res" where
  "inspect e name h s =
     bind_res (require (ue_steady e name)) (\<lambda>_.
     let args = ue_arguments e (sc_command (en_config s)) in
     bind_res (require (args \<noteq> [] \<and> absolute (hd args))) (\<lambda>_.
     bind_res (no_links (ue_paths e) (hd args)) (\<lambda>_.
     bind_res (res_of_option RuntimeError (ue_canonical e (hd args))) (\<lambda>exe.
     bind_res (res_of_option RuntimeError (read_exe h exe)) (\<lambda>bytes.
     bind_res (identify (filename exe) args bytes) (\<lambda>k.
     bind_res (require (sc_type (en_config s) = 0x10)) (\<lambda>_.
     bind_res (require (wide_lower (sc_account (en_config s)) \<in> set accounts)) (\<lambda>_.
       Inr \<lparr>sn_name = name, sn_config = en_config s, sn_running = en_active s, sn_kind = k, sn_exe = exe\<rparr>))))))))"

definition snapshot :: "upgrade_env \<Rightarrow> wide \<Rightarrow> (upgrade_host, service_snapshot) comp" where
  "snapshot e name =
     seq (ask e) (andthen (asks (\<lambda>h. (ho_services h name, h))) (\<lambda>(s, h).
       case s of None \<Rightarrow> throw RuntimeError | Some s \<Rightarrow> of_res (inspect e name h s)))"

definition discover :: "upgrade_env \<Rightarrow> (upgrade_host, service_snapshot) comp" where
  "discover e =
     seq (ask e) (andthen (asks (\<lambda>h. filter (\<lambda>name. ho_services h name \<noteq> None) [native_name, managed_name])) (\<lambda>found.
       seq (checks (length found = 1)) (snapshot e (hd found))))"

section \<open>Trees\<close>

definition put_tree :: "wide \<Rightarrow> tree option \<Rightarrow> upgrade_host \<Rightarrow> upgrade_host" where
  "put_tree p t h = h\<lparr>ho_trees := (ho_trees h)(p := t)\<rparr>"

definition add_entry :: "wide \<Rightarrow> wide list \<times> entry \<Rightarrow> upgrade_host \<Rightarrow> upgrade_host" where
  "add_entry p x h = put_tree p (map_option (\<lambda>t. t @ [x]) (ho_trees h p)) h"

text \<open>What the disk holds after a copy is \<open>ue_copied\<close> of what was read; the comparison decides.\<close>

fun copy_items :: "upgrade_env \<Rightarrow> wide \<Rightarrow> wide \<Rightarrow> tree \<Rightarrow> (upgrade_host, unit) comp" where
  "copy_items e from' to [] = ret ()"
| "copy_items e from' to ((names, x) # items) =
     seq (of_res (no_links (ue_paths e) (below_path from' names)))
       (seq (case x of
               Folder \<Rightarrow> os_call e (add_entry to (names, Folder))
             | OtherEntry \<Rightarrow> throw RuntimeError
             | Plain bytes \<Rightarrow> andthen (asks (\<lambda>h. ue_copied e (ho_calls h) bytes)) (\<lambda>written.
                 seq (os_call e (add_entry to (names, Plain written))) (checks (equal_file bytes written))))
          (copy_items e from' to items))"

definition copy_all :: "upgrade_env \<Rightarrow> wide \<Rightarrow> wide \<Rightarrow> (upgrade_host, unit) comp" where
  "copy_all e from' to =
     andthen (asks (\<lambda>h. (ho_trees h from', ho_trees h to))) (\<lambda>(source, there).
       seq (checks (there = None)) (seq (os_call e (put_tree to (Some [])))
         (case source of None \<Rightarrow> throw RuntimeError | Some items \<Rightarrow> copy_items e from' to items)))"

text \<open>\<open>fs::rename\<close> of a directory beside its target: all or nothing.\<close>

definition rename :: "upgrade_env \<Rightarrow> wide \<Rightarrow> wide \<Rightarrow> (upgrade_host, unit) comp" where
  "rename e from' to = (\<lambda>h.
     if ue_outcome e (ho_calls h) = Succeeds \<and> ho_trees h from' \<noteq> None \<and> ho_trees h to = None
     then (Inr (), put_tree from' None (put_tree to (ho_trees h from') (tick h)))
     else (Inl RuntimeError, tick h))"

section \<open>Verification\<close>

definition swap_bytes :: "32 word \<Rightarrow> nat" where
  "swap_bytes p = unat p mod 256 * 256 + unat p div 256 mod 256"

definition owns_port :: "nat \<Rightarrow> int \<Rightarrow> (nat \<times> 32 word) list \<Rightarrow> bool" where
  "owns_port pid port' listeners = list_ex (\<lambda>(owner, p). owner = pid \<and> int (swap_bytes p) = port') listeners"

text \<open>The answer to a request of \<open>get\<close>: piece by piece, up to the first empty one.\<close>

fun read_pieces :: "string \<Rightarrow> string list \<Rightarrow> string res" where
  "read_pieces got [] = Inr got"
| "read_pieces got (c # cs) =
     (if c = [] then Inr got
      else bind_res (require (length (got @ c) < 65536)) (\<lambda>_. read_pieces (got @ c) cs))"

definition http_get :: "(nat \<times> string list) option \<Rightarrow> string res" where
  "http_get answer =
     bind_res (res_of_option RuntimeError answer) (\<lambda>(code, pieces).
     bind_res (require (code = 200)) (\<lambda>_. read_pieces [] pieces))"

definition verify_round :: "wide \<Rightarrow> int \<Rightarrow> string \<Rightarrow> observation \<Rightarrow> unit res" where
  "verify_round target port_no expected b =
     bind_res (res_of_option RuntimeError (ob_snapshot b)) (\<lambda>current.
     bind_res (require (sn_kind current = Native \<and> sn_running current \<and> sc_start (sn_config current) = 2 \<and>
       \<not> sc_delayed (sn_config current))) (\<lambda>_.
     bind_res (require (same (sn_exe current) (below_path target [program_name]))) (\<lambda>_.
     bind_res (res_of_option RuntimeError (ob_pid b)) (\<lambda>pid.
     bind_res (require (owns_port pid port_no (ob_listeners b))) (\<lambda>_.
     bind_res (http_get (ob_health b)) (\<lambda>health.
     bind_res (json_text_field health ''status'') (\<lambda>status.
     bind_res (require (status = ''ok'')) (\<lambda>_.
     bind_res (json_text_field health ''sdk'') (\<lambda>sdk.
     bind_res (require (sdk = ''hcnetsdk'')) (\<lambda>_.
     bind_res (http_get (ob_version b)) (\<lambda>version.
     bind_res (json_text_field version ''version'') (\<lambda>v. require (v = expected)))))))))))))"

text \<open>The rounds until the deadline; the first that passes ends them.\<close>

fun verify :: "wide \<Rightarrow> int \<Rightarrow> string \<Rightarrow> observation list \<Rightarrow> unit res" where
  "verify target port_no expected [] = Inl RuntimeError"
| "verify target port_no expected (b # bs) =
     (case verify_round target port_no expected b of
        Inr _ \<Rightarrow> Inr ()
      | Inl _ \<Rightarrow> verify target port_no expected bs)"

section \<open>The transaction\<close>

datatype upgrade_result = CheckPassed | Upgraded | RolledBack | RollbackFailed

fun exit_code :: "upgrade_result res \<Rightarrow> nat" where
  "exit_code (Inr CheckPassed) = 0"
| "exit_code (Inr Upgraded) = 0"
| "exit_code (Inr _) = 1"
| "exit_code (Inl _) = 1"

definition backup_of :: "upgrade_env \<Rightarrow> wide \<Rightarrow> wide" where
  "backup_of e target = target @ ue_suffix e @ wide_text ''-backup''"

definition staged_of :: "upgrade_env \<Rightarrow> wide \<Rightarrow> wide" where
  "staged_of e target = target @ ue_suffix e @ wide_text ''-new''"

definition failed_of :: "upgrade_env \<Rightarrow> wide \<Rightarrow> wide" where
  "failed_of e target = target @ ue_suffix e @ wide_text ''-failed''"

definition replace :: "upgrade_env \<Rightarrow> service_snapshot \<Rightarrow> wide \<Rightarrow> int \<Rightarrow> string \<Rightarrow> (upgrade_host, upgrade_result) comp" where
  "replace e old target port_no expected =
     seq (stop_service e (sn_name old))
    (seq (rename e target (backup_of e target))
    (seq (modify (\<lambda>h. h\<lparr>ho_moved := True\<rparr>))
    (seq (rename e (staged_of e target) target)
    (seq (validate_package e target)
    (seq (if sn_kind old = Managed then remove_service e (sn_name old) else ret ())
    (seq (modify (\<lambda>h. h\<lparr>ho_installed := True\<rparr>))
    (seq (install_service e target)
    (seq (of_res (verify target port_no expected (ue_rounds e)))
      (ret Upgraded)))))))))"

definition roll_back :: "upgrade_env \<Rightarrow> service_snapshot \<Rightarrow> wide \<Rightarrow> (upgrade_host, upgrade_result) comp" where
  "roll_back e old target =
     andthen (asks ho_installed) (\<lambda>installed. andthen (asks ho_moved) (\<lambda>moved.
       seq (if installed then seq (stop_service e native_name)
              (if sn_name old \<noteq> native_name then remove_service e native_name else ret ())
            else stop_service e (sn_name old))
      (seq (if moved then
              seq (andthen (asks (\<lambda>h. ho_trees h target)) (\<lambda>there.
                     if there \<noteq> None then rename e target (failed_of e target) else ret ()))
                (rename e (backup_of e target) target)
            else ret ())
      (seq (restore_service e old) (ret RolledBack)))))"

definition transaction :: "upgrade_env \<Rightarrow> service_snapshot \<Rightarrow> wide \<Rightarrow> int \<Rightarrow> string \<Rightarrow> (upgrade_host, upgrade_result) comp" where
  "transaction e old target port_no expected =
     catch (replace e old target port_no expected)
       (\<lambda>_. catch (roll_back e old target) (\<lambda>_. ret RollbackFailed))"

section \<open>The whole run\<close>

definition upgrade_lock :: "lock_wait \<Rightarrow> unit res" where
  "upgrade_lock w = require (w = LockAcquired)"

definition has_folder :: "tree \<Rightarrow> string \<Rightarrow> bool" where
  "has_folder t name \<longleftrightarrow> map_of t [wide_text name] = Some Folder"

definition octets_text :: "octets \<Rightarrow> string" where
  "octets_text bytes = map (\<lambda>b. char_of (unat b)) bytes"

definition upgrade_version :: string where
  "upgrade_version = ''0.9.1.260922''"

text \<open>The package: its files, its executable, its version and the port of its configuration.\<close>

definition package_files :: "tree \<Rightarrow> (octets \<times> octets \<times> octets option) res" where
  "package_files t =
     (case (file_at t ''windows-service.cmd'', file_at t ''config.json'', has_folder t ''hcnetsdk'' \<and> has_folder t ''ffmpeg'') of
        (Some _, Some config, True) \<Rightarrow>
          (case file_at t ''hik-sdk-http-bridge.exe'' of
             None \<Rightarrow> Inl RuntimeError
           | Some exe \<Rightarrow> Inr (exe, config, file_at t ''version.json''))
      | _ \<Rightarrow> Inl RuntimeError)"

definition package_settings :: "octets \<Rightarrow> octets option \<Rightarrow> (int \<times> string) res" where
  "package_settings config version =
     bind_res (res_of_option RuntimeError version) (\<lambda>v.
     bind_res (json_text_field (octets_text v) ''version'') (\<lambda>expected.
     bind_res (require (expected = upgrade_version)) (\<lambda>_.
     bind_res (port (octets_text config)) (\<lambda>port_no. Inr (port_no, expected)))))"

definition inspect_package :: "upgrade_env \<Rightarrow> (upgrade_host, int \<times> string) comp" where
  "inspect_package e =
     andthen (asks (\<lambda>h. ho_trees h (ue_source e))) (\<lambda>t.
     andthen (of_res (bind_res (res_of_option RuntimeError t) package_files)) (\<lambda>(exe, config, version).
     andthen (of_res (managed_pe exe)) (\<lambda>managed.
     seq (checks (\<not> managed)) (seq (validate_package e (ue_source e)) (of_res (package_settings config version))))))"

definition no_scheduled_task :: "upgrade_env \<Rightarrow> wide \<Rightarrow> (upgrade_host, unit) comp" where
  "no_scheduled_task e name =
     seq (checks (\<not> ue_task_file e name)) 
       (andthen (run_child e (system_tool e ''schtasks.exe'') [wide_text ''/Query'', wide_text ''/TN'', name] (\<lambda>h. h))
         (\<lambda>code. checks (code \<noteq> 0)))"

definition no_links_below :: "upgrade_env \<Rightarrow> wide \<Rightarrow> (upgrade_host, unit) comp" where
  "no_links_below e p =
     andthen (asks (\<lambda>h. ho_trees h p)) (\<lambda>t.
       case t of None \<Rightarrow> throw RuntimeError
       | Some items \<Rightarrow> checks (list_all (\<lambda>(names, _). \<not> pe_linked (ue_paths e) (below_path p names)) items))"

definition inspect_machine :: "upgrade_env \<Rightarrow> (upgrade_host, int \<times> string \<times> service_snapshot \<times> wide) comp" where
  "inspect_machine e =
     seq (checks (ue_admin e)) (seq (of_res (upgrade_lock (ue_lock e)))
    (andthen (inspect_package e) (\<lambda>(port_no, expected).
     seq (ask e) (andthen (discover e) (\<lambda>old.
     andthen (of_res (res_of_option RuntimeError (ue_canonical e (parent_path (sn_exe old))))) (\<lambda>target.
     seq (of_res (validate_paths (ue_paths e) (ue_source e) target))
    (seq (no_scheduled_task e native_name) (seq (no_scheduled_task e managed_name)
    (seq (no_links_below e (ue_source e)) (seq (no_links_below e target)
       (ret (port_no, expected, old, target))))))))))))"

definition prepare_upgrade :: "upgrade_env \<Rightarrow> service_snapshot \<Rightarrow> wide \<Rightarrow> (upgrade_host, unit) comp" where
  "prepare_upgrade e old target =
     andthen (asks (\<lambda>h. ho_trees h (backup_of e target) = None \<and> ho_trees h (staged_of e target) = None \<and>
       ho_trees h (failed_of e target) = None)) (\<lambda>vacant.
     seq (checks vacant) (seq (copy_all e (ue_source e) (staged_of e target))
       
       (seq (validate_package e (staged_of e target)) (export_registration e (sn_name old) target))))"

definition execute :: "upgrade_env \<Rightarrow> bool \<Rightarrow> (upgrade_host, upgrade_result) comp" where
  "execute e check_only =
     andthen (inspect_machine e) (\<lambda>(port_no, expected, old, target).
       if check_only then ret CheckPassed
       else seq (prepare_upgrade e old target) (transaction e old target port_no expected))"

definition wmain :: "upgrade_env \<Rightarrow> string list \<Rightarrow> upgrade_host \<Rightarrow> nat \<times> upgrade_host" where
  "wmain e args h =
     (if args = [''/check''] then (case execute e True h of (r, h') \<Rightarrow> (exit_code r, h'))
      else if args = [] then (case execute e False h of (r, h') \<Rightarrow> (exit_code r, h'))
      else (1, h))"

end
