(* ===== verification/Upgrade_Safety.thy ===== *)
theory Upgrade_Safety
  imports Windows_Upgrade
begin

text \<open>
  What an upgrade leaves behind, whichever of its calls fail: Hoare triples for the steps of
  \<open>Windows_Upgrade\<close>, from single calls to the whole run.
\<close>

section \<open>Single calls\<close>

lemma spec_os:
  "(\<And>h. P h \<Longrightarrow> Q () (f (tick h))) \<Longrightarrow> (\<And>h. P h \<Longrightarrow> R RuntimeError (tick h)) \<Longrightarrow>
   (\<And>h. P h \<Longrightarrow> R RuntimeError (f (tick h))) \<Longrightarrow> spec P (os_call e f) Q R"
  by (auto simp: spec_def os_call_def split: outcome.split)

text \<open>A predicate a computation keeps, whether it throws or not.\<close>

definition keeps :: "('s \<Rightarrow> bool) \<Rightarrow> ('s, 'a) comp \<Rightarrow> bool" where
  "keeps P m \<longleftrightarrow> spec P m (\<lambda>_. P) (\<lambda>_. P)"

lemma keeps_rules [intro]:
  "keeps P (ret x)" "keeps P (throw f)" "keeps P (asks g)" "keeps P (of_res r)" "keeps P (checks b)"
  by (auto simp: keeps_def spec_def comp_defs checks_def split: sum.split)

lemma keeps_andthen [intro]: "keeps P m \<Longrightarrow> (\<And>x. keeps P (k x)) \<Longrightarrow> keeps P (andthen m k)"
  unfolding keeps_def by (rule spec_andthen)

lemma keeps_seq [intro]: "keeps P m \<Longrightarrow> keeps P n \<Longrightarrow> keeps P (seq m n)"
  unfolding keeps_def by (rule spec_seq)

lemma keeps_if [intro]: "keeps P m \<Longrightarrow> keeps P n \<Longrightarrow> keeps P (if b then m else n)"
  by simp

lemma keeps_os: "(\<And>h. P h \<Longrightarrow> P (tick h)) \<Longrightarrow> (\<And>h. P h \<Longrightarrow> P (f h)) \<Longrightarrow> keeps P (os_call e f)"
  unfolding keeps_def by (rule spec_os) auto

lemma keeps_run: "(\<And>h. P h \<Longrightarrow> P (tick h)) \<Longrightarrow> (\<And>h. P h \<Longrightarrow> P (f h)) \<Longrightarrow> keeps P (run_child e exe args f)"
  unfolding run_child_def by (intro keeps_andthen keeps_rules keeps_seq keeps_os)

lemma keeps_run_ok: "(\<And>h. P h \<Longrightarrow> P (tick h)) \<Longrightarrow> (\<And>h. P h \<Longrightarrow> P (f h)) \<Longrightarrow> keeps P (run_ok e exe args f)"
  unfolding run_ok_def by (intro keeps_andthen keeps_rules keeps_run)

lemma keepsD: "keeps P m \<Longrightarrow> spec P m (\<lambda>_. P) (\<lambda>_. P)"
  by (simp add: keeps_def)

lemma tick_fields [simp]:
  "ho_trees (tick h) = ho_trees h" "ho_services (tick h) = ho_services h" "ho_moved (tick h) = ho_moved h"
  "ho_installed (tick h) = ho_installed h"
  by (simp_all add: tick_def)

lemma put_service_fields [simp]:
  "ho_trees (put_service n s h) = ho_trees h" "ho_services (put_service n s h) = (ho_services h)(n := s)"
  "ho_moved (put_service n s h) = ho_moved h" "ho_installed (put_service n s h) = ho_installed h"
  by (simp_all add: put_service_def)

lemma put_tree_fields [simp]:
  "ho_trees (put_tree p t h) = (ho_trees h)(p := t)" "ho_services (put_tree p t h) = ho_services h"
  "ho_moved (put_tree p t h) = ho_moved h" "ho_installed (put_tree p t h) = ho_installed h"
  by (simp_all add: put_tree_def)

section \<open>Services\<close>

definition inactive :: "wide \<Rightarrow> upgrade_host \<Rightarrow> bool" where
  "inactive n h \<longleftrightarrow> (case ho_services h n of None \<Rightarrow> True | Some s \<Rightarrow> \<not> en_active s)"

lemma inactive_simps [simp]:
  "inactive n (tick h) = inactive n h" "inactive n (change_service n (\<lambda>s. s\<lparr>en_active := False\<rparr>) h)"
  "inactive n (put_service n None h)"
  by (auto simp: inactive_def change_service_def split: option.split)

text \<open>What stopping or removing a service may do to a predicate.\<close>

definition stop_frame :: "wide \<Rightarrow> (upgrade_host \<Rightarrow> bool) \<Rightarrow> bool" where
  "stop_frame n P \<longleftrightarrow> (\<forall>h. P h \<longrightarrow> P (tick h)) \<and>
     (\<forall>h. P h \<longrightarrow> P (change_service n (\<lambda>s. s\<lparr>en_active := False\<rparr>) h)) \<and> (\<forall>h. P h \<longrightarrow> P (put_service n None h))"

lemma stop_spec:
  assumes "stop_frame n P"
  shows "spec P (stop_service e n) (\<lambda>_ h. P h \<and> inactive n h) (\<lambda>_. P)"
proof -
  have t: "P h \<Longrightarrow> P (tick h)" and c: "P h \<Longrightarrow> P (change_service n (\<lambda>s. s\<lparr>en_active := False\<rparr>) h)" for h
    using assms by (auto simp: stop_frame_def)
  have off: "spec (\<lambda>h. P h \<and> ho_services h n = Some s) 
      (if en_active s then os_call e (change_service n (\<lambda>s. s\<lparr>en_active := False\<rparr>)) else ret ())
      (\<lambda>_ h. P h \<and> inactive n h) (\<lambda>_. P)" for s
    by (intro spec_if spec_os spec_ret) (simp_all add: t c, simp_all add: inactive_def)
  have waits: "spec (\<lambda>h. P h \<and> inactive n h) (seq (ask e) (ask e)) (\<lambda>_ h. P h \<and> inactive n h) (\<lambda>_. P)"
    by (rule spec_seq[where Q' = "\<lambda>h. P h \<and> inactive n h"]; rule spec_os) (auto simp: t)
  have ask: "spec (\<lambda>h. P h \<and> ho_services h n = s) (ask e) (\<lambda>_ h. P h \<and> ho_services h n = s) (\<lambda>_. P)" for s
    by (rule spec_os) (auto simp: t)
  show ?thesis
    unfolding stop_service_def
  proof (rule spec_seq)
    show "spec P (ask e) (\<lambda>_. P) (\<lambda>_. P)" by (rule spec_os) (auto simp: t)
    show "spec P (andthen (asks (\<lambda>h. ho_services h n)) (\<lambda>s. case s of None \<Rightarrow> ret ()
       | Some s \<Rightarrow> seq (ask e) (seq (if en_active s then os_call e (change_service n (\<lambda>s. s\<lparr>en_active := False\<rparr>)) else ret ())
             (seq (ask e) (ask e))))) (\<lambda>_ h. P h \<and> inactive n h) (\<lambda>_. P)"
    proof (rule spec_andthen)
      show "spec P (asks (\<lambda>h. ho_services h n)) (\<lambda>s h. P h \<and> ho_services h n = s) (\<lambda>_. P)"
        by (rule spec_asks) simp
      show "spec (\<lambda>h. P h \<and> ho_services h n = s) (case s of None \<Rightarrow> ret ()
         | Some s \<Rightarrow> seq (ask e) (seq (if en_active s then os_call e (change_service n (\<lambda>s. s\<lparr>en_active := False\<rparr>)) else ret ())
             (seq (ask e) (ask e)))) (\<lambda>_ h. P h \<and> inactive n h) (\<lambda>_. P)" for s
      proof (cases s)
        case None
        then show ?thesis by (auto intro!: spec_ret simp: inactive_def)
      next
        case (Some s')
        show ?thesis unfolding Some option.case by (rule spec_seq[OF ask spec_seq[OF off waits]])
      qed
    qed
  qed
qed

lemma remove_spec:
  assumes "stop_frame n P"
  shows "spec P (remove_service e n) (\<lambda>_ h. P h \<and> ho_services h n = None) (\<lambda>_. P)"
proof -
  have t: "P h \<Longrightarrow> P (tick h)" and r: "P h \<Longrightarrow> P (put_service n None h)" for h
    using assms by (auto simp: stop_frame_def)
  have stop: "spec P (stop_service e n) (\<lambda>_. P) (\<lambda>_. P)"
    by (rule spec_weaken[OF stop_spec[OF assms]]) auto
  have ask: "spec P (ask e) (\<lambda>_. P) (\<lambda>_. P)" by (rule spec_os) (auto simp: t)
  have delete: "spec (\<lambda>h. P h \<and> ho_services h n = s) (if s = None then ret () else os_call e (put_service n None))
      (\<lambda>_ h. P h \<and> ho_services h n = None) (\<lambda>_. P)" for s
    by (intro spec_if spec_os spec_ret) (auto simp: t r)
  have wait: "spec (\<lambda>h. P h \<and> ho_services h n = None) (ask e) (\<lambda>_ h. P h \<and> ho_services h n = None) (\<lambda>_. P)"
    by (rule spec_os) (auto simp: t)
  show ?thesis
    unfolding remove_service_def
  proof (intro spec_seq[OF stop] spec_seq[OF ask] spec_andthen)
    show "spec P (asks (\<lambda>h. ho_services h n)) (\<lambda>s h. P h \<and> ho_services h n = s) (\<lambda>_. P)"
      by (rule spec_asks) simp
    show "spec (\<lambda>h. P h \<and> ho_services h n = s)
      (seq (if s = None then ret () else os_call e (put_service n None)) (ask e))
      (\<lambda>_ h. P h \<and> ho_services h n = None) (\<lambda>_. P)" for s
      by (rule spec_seq[OF delete wait])
  qed
qed

text \<open>Restoring writes every setting the snapshot has and nothing else.\<close>

definition service_frame :: "wide \<Rightarrow> (upgrade_host \<Rightarrow> bool) \<Rightarrow> bool" where
  "service_frame n P \<longleftrightarrow> (\<forall>h. P h \<longrightarrow> P (tick h)) \<and> (\<forall>h s. P h \<longrightarrow> P (put_service n s h))"

lemma service_frame_stop: "service_frame n P \<Longrightarrow> stop_frame n P"
  by (auto simp: service_frame_def stop_frame_def change_service_def)

definition has_config :: "wide \<Rightarrow> (service_config \<Rightarrow> bool) \<Rightarrow> bool \<Rightarrow> upgrade_host \<Rightarrow> bool" where
  "has_config n C active h \<longleftrightarrow> (\<exists>s. ho_services h n = Some s \<and> C (en_config s) \<and> en_active s = active)"

lemma configure_spec:
  assumes "service_frame n P" and "\<And>c. C c \<Longrightarrow> D (f c)"
  shows "spec (\<lambda>h. P h \<and> has_config n C a h) (configure e n f) (\<lambda>_ h. P h \<and> has_config n D a h) (\<lambda>_. P)"
  unfolding configure_def using assms
  by (intro spec_os) (auto simp: service_frame_def has_config_def change_service_def)

definition same_base :: "service_config \<Rightarrow> service_config \<Rightarrow> bool" where
  "same_base c d \<longleftrightarrow> sc_command d = sc_command c \<and> sc_display d = sc_display c \<and> sc_account d = sc_account c \<and>
     sc_group d = sc_group c \<and> sc_dependencies d = sc_dependencies c \<and> sc_type d = sc_type c \<and>
     sc_start d = sc_start c \<and> sc_error d = sc_error c"

lemma same_base_simps [simp]:
  "same_base c (base_settings c d)" "same_base c (en_config (created c))"
  "same_base c (d\<lparr>sc_delayed := x\<rparr>) = same_base c d" "same_base c (d\<lparr>sc_description := y\<rparr>) = same_base c d"
  "same_base c (d\<lparr>sc_failures := z\<rparr>) = same_base c d" "same_base c (d\<lparr>sc_failure_flag := u\<rparr>) = same_base c d"
  by (simp_all add: same_base_def base_settings_def created_def)

lemma base_spec:
  assumes "service_frame n P"
  shows "spec (\<lambda>h. P h \<and> inactive n h \<and> ho_services h n = s)
    (if s = None then os_call e (put_service n (Some (created c))) else configure e n (base_settings c))
    (\<lambda>_ h. P h \<and> has_config n (same_base c) False h) (\<lambda>_. P)"
proof (rule spec_if)
  assume "s = None"
  then show "spec (\<lambda>h. P h \<and> inactive n h \<and> ho_services h n = s) (os_call e (put_service n (Some (created c))))
    (\<lambda>_ h. P h \<and> has_config n (same_base c) False h) (\<lambda>_. P)"
    using assms by (intro spec_os) (auto simp: service_frame_def has_config_def, simp add: created_def)
next
  assume s: "s \<noteq> None"
  have "spec (\<lambda>h. P h \<and> has_config n (\<lambda>_. True) False h) (configure e n (base_settings c))
    (\<lambda>_ h. P h \<and> has_config n (same_base c) False h) (\<lambda>_. P)"
    by (rule configure_spec[OF assms]) simp
  then show "spec (\<lambda>h. P h \<and> inactive n h \<and> ho_services h n = s) (configure e n (base_settings c))
    (\<lambda>_ h. P h \<and> has_config n (same_base c) False h) (\<lambda>_. P)"
    by (rule spec_pre) (use s in \<open>auto simp: has_config_def inactive_def split: option.splits\<close>)
qed

lemma config_complete:
  "same_base c d \<and> sc_delayed d = sc_delayed c \<and> sc_description d = sc_description c \<and>
   sc_failures d = sc_failures c \<and> sc_failure_flag d = sc_failure_flag c \<Longrightarrow> d = (c :: service_config)"
  by (cases c; cases d) (simp add: same_base_def)

lemma restore_spec:
  assumes frame: "service_frame n P" and n: "sn_name old = n" and f: "sc_failures (sn_config old) \<noteq> []"
  shows "spec (\<lambda>h. P h \<and> inactive n h) (restore_service e old)
    (\<lambda>_ h. P h \<and> ho_services h n = Some \<lparr>en_config = sn_config old, en_active = sn_running old\<rparr>) (\<lambda>_. P)"
proof -
  let ?c = "sn_config old"
  let ?C = "\<lambda>k d. same_base ?c d \<and> (0 < k \<longrightarrow> sc_delayed d = sc_delayed ?c) \<and>
    (1 < k \<longrightarrow> sc_description d = sc_description ?c) \<and> (2 < k \<longrightarrow> sc_failures d = sc_failures ?c) \<and>
    (3 < k \<longrightarrow> sc_failure_flag d = sc_failure_flag ?c)"
  let ?H = "\<lambda>k h. P h \<and> has_config n (?C (k :: nat)) False h"
  note frameD = frame[unfolded service_frame_def]
  have ask: "spec (\<lambda>h. P h \<and> inactive n h) (ask e) (\<lambda>_ h. P h \<and> inactive n h) (\<lambda>_. P)"
    by (rule spec_os) (auto simp: frameD)
  have base: "spec (\<lambda>h. P h \<and> inactive n h \<and> ho_services h n = s)
      (if s = None then os_call e (put_service n (Some (created ?c))) else configure e n (base_settings ?c))
      (\<lambda>_. ?H 0) (\<lambda>_. P)" for s
    using base_spec[OF frame, of s e ?c] by simp
  note conf = configure_spec[OF frame, where a = False]
  have d: "spec (?H 0) (configure e n (\<lambda>d. d\<lparr>sc_delayed := sc_delayed ?c\<rparr>)) (\<lambda>_. ?H 1) (\<lambda>_. P)"
    by (rule conf) simp
  have t: "spec (?H 1) (configure e n (\<lambda>d. d\<lparr>sc_description := sc_description ?c\<rparr>)) (\<lambda>_. ?H 2) (\<lambda>_. P)"
    by (rule conf) simp
  have r: "spec (?H 2) (if sc_failures ?c = [] then ret () else configure e n (\<lambda>d. d\<lparr>sc_failures := sc_failures ?c\<rparr>))
      (\<lambda>_. ?H 3) (\<lambda>_. P)"
    unfolding if_not_P[OF f] by (rule conf) simp
  have g: "spec (?H 3) (configure e n (\<lambda>d. d\<lparr>sc_failure_flag := sc_failure_flag ?c\<rparr>)) (\<lambda>_. ?H 4) (\<lambda>_. P)"
    by (rule conf) simp
  let ?done = "\<lambda>h. P h \<and> ho_services h n = Some \<lparr>en_config = ?c, en_active = sn_running old\<rparr>"
  have settled: "P h \<and> ho_services h n = Some \<lparr>en_config = ?c, en_active = False\<rparr>" if h4: "?H 4 h" for h
  proof -
    obtain s where "P h" "ho_services h n = Some s" "?C (4 :: nat) (en_config s)" "\<not> en_active s"
      using h4 by (auto simp: has_config_def)
    moreover from this have "en_config s = ?c" by (intro config_complete) simp
    ultimately show ?thesis by (cases s) simp
  qed
  have last: "spec (?H 4) (if sn_running old then seq (os_call e (change_service n (\<lambda>s. s\<lparr>en_active := True\<rparr>))) (ask e)
      else ret ()) (\<lambda>_. ?done) (\<lambda>_. P)"
  proof (rule spec_if)
    assume run: "sn_running old"
    show "spec (?H 4) (seq (os_call e (change_service n (\<lambda>s. s\<lparr>en_active := True\<rparr>))) (ask e)) (\<lambda>_. ?done) (\<lambda>_. P)"
    proof (rule spec_seq[where Q' = ?done])
      show "spec (?H 4) (os_call e (change_service n (\<lambda>s. s\<lparr>en_active := True\<rparr>))) (\<lambda>_. ?done) (\<lambda>_. P)"
        by (rule spec_os) (use settled run frameD in \<open>auto simp: change_service_def\<close>)
      show "spec ?done (ask e) (\<lambda>_. ?done) (\<lambda>_. P)" by (rule spec_os) (auto simp: frameD)
    qed
  next
    assume "\<not> sn_running old"
    then show "spec (?H 4) (ret ()) (\<lambda>_. ?done) (\<lambda>_. P)" using settled by (intro spec_ret) auto
  qed
  have tail: "spec (\<lambda>h. P h \<and> inactive n h \<and> ho_services h n = s)
      (seq (if s = None then os_call e (put_service n (Some (created ?c))) else configure e n (base_settings ?c))
        (seq (configure e n (\<lambda>d. d\<lparr>sc_delayed := sc_delayed ?c\<rparr>))
        (seq (configure e n (\<lambda>d. d\<lparr>sc_description := sc_description ?c\<rparr>))
        (seq (if sc_failures ?c = [] then ret () else configure e n (\<lambda>d. d\<lparr>sc_failures := sc_failures ?c\<rparr>))
        (seq (configure e n (\<lambda>d. d\<lparr>sc_failure_flag := sc_failure_flag ?c\<rparr>))
          (if sn_running old then seq (os_call e (change_service n (\<lambda>s. s\<lparr>en_active := True\<rparr>))) (ask e) else ret ()))))))
      (\<lambda>_. ?done) (\<lambda>_. P)" for s
    by (rule spec_seq[OF base spec_seq[OF d spec_seq[OF t spec_seq[OF r spec_seq[OF g last]]]]])
  show ?thesis
    unfolding restore_service_def n Let_def
  proof (rule spec_seq[OF ask], rule spec_andthen)
    show "spec (\<lambda>h. P h \<and> inactive n h) (asks (\<lambda>h. ho_services h n)) (\<lambda>s h. P h \<and> inactive n h \<and> ho_services h n = s) (\<lambda>_. P)"
      by (rule spec_asks) simp
  qed (rule tail)
qed

end
