(* ===== verification/Upgrade_Transaction.thy ===== *)
theory Upgrade_Transaction
  imports Upgrade_Safety
begin

text \<open>
  The transaction and the whole run of the upgrade tool: the states it passes through, where the old
  directory is in each of them, and what is left when it ends.
\<close>

section \<open>States of the transaction\<close>

lemma places_distinct [simp]:
  "backup_of e target \<noteq> target" "staged_of e target \<noteq> target" "failed_of e target \<noteq> target"
  "backup_of e target \<noteq> staged_of e target" "backup_of e target \<noteq> failed_of e target" "staged_of e target \<noteq> failed_of e target"
  "target \<noteq> backup_of e target" "target \<noteq> staged_of e target" "target \<noteq> failed_of e target"
  "staged_of e target \<noteq> backup_of e target" "failed_of e target \<noteq> backup_of e target" "failed_of e target \<noteq> staged_of e target"
  by (simp_all add: backup_of_def staged_of_def failed_of_def wide_text_def)

lemma names_distinct [simp]: "native_name \<noteq> managed_name" "managed_name \<noteq> native_name"
  by (simp_all add: native_name_def managed_name_def wide_text_def)

definition others :: "upgrade_host \<Rightarrow> upgrade_env \<Rightarrow> wide \<Rightarrow> upgrade_host \<Rightarrow> bool" where
  "others h0 e target h \<longleftrightarrow>
     (\<forall>p. p \<notin> {target, backup_of e target, staged_of e target, failed_of e target} \<longrightarrow> ho_trees h p = ho_trees h0 p)"

definition before :: "upgrade_host \<Rightarrow> upgrade_env \<Rightarrow> wide \<Rightarrow> tree \<Rightarrow> upgrade_host \<Rightarrow> bool" where
  "before h0 e target t h \<longleftrightarrow> others h0 e target h \<and> ho_trees h target = Some t \<and>
     ho_trees h (backup_of e target) = None \<and> ho_trees h (failed_of e target) = None \<and> \<not> ho_moved h"

definition away :: "upgrade_host \<Rightarrow> upgrade_env \<Rightarrow> wide \<Rightarrow> tree \<Rightarrow> upgrade_host \<Rightarrow> bool" where
  "away h0 e target t h \<longleftrightarrow> others h0 e target h \<and> ho_trees h (backup_of e target) = Some t \<and>
     ho_trees h (failed_of e target) = None \<and> ho_moved h"

definition home :: "upgrade_host \<Rightarrow> upgrade_env \<Rightarrow> wide \<Rightarrow> tree \<Rightarrow> upgrade_host \<Rightarrow> bool" where
  "home h0 e target t h \<longleftrightarrow> others h0 e target h \<and> ho_trees h target = Some t"

definition safe :: "upgrade_host \<Rightarrow> upgrade_env \<Rightarrow> wide \<Rightarrow> tree \<Rightarrow> upgrade_host \<Rightarrow> bool" where
  "safe h0 e target t h \<longleftrightarrow> others h0 e target h \<and>
     (ho_trees h target = Some t \<or> ho_trees h (backup_of e target) = Some t)"

definition foreign_kept :: "upgrade_host \<Rightarrow> upgrade_host \<Rightarrow> bool" where
  "foreign_kept h0 h \<longleftrightarrow> (\<forall>n. n \<notin> {native_name, managed_name} \<longrightarrow> ho_services h n = ho_services h0 n)"

text \<open>Before the installation script only the old service is touched; after it both names may be, but
  nothing runs under the managed one.\<close>

definition untouched :: "upgrade_host \<Rightarrow> service_snapshot \<Rightarrow> upgrade_host \<Rightarrow> bool" where
  "untouched h0 old h \<longleftrightarrow> \<not> ho_installed h \<and> (\<forall>n. n \<noteq> sn_name old \<longrightarrow> ho_services h n = ho_services h0 n)"

definition installing :: "upgrade_host \<Rightarrow> service_snapshot \<Rightarrow> upgrade_host \<Rightarrow> bool" where
  "installing h0 old h \<longleftrightarrow> ho_installed h \<and> foreign_kept h0 h \<and> inactive managed_name h \<and>
     (sn_name old = native_name \<longrightarrow> ho_services h managed_name = None)"

definition snapshot_of :: "upgrade_host \<Rightarrow> service_snapshot \<Rightarrow> bool" where
  "snapshot_of h old \<longleftrightarrow> sn_name old \<in> {native_name, managed_name} \<and>
     (\<forall>n. n \<in> {native_name, managed_name} \<longrightarrow> n \<noteq> sn_name old \<longrightarrow> ho_services h n = None) \<and>
     ho_services h (sn_name old) = Some \<lparr>en_config = sn_config old, en_active = sn_running old\<rparr>"

text \<open>What is relied on of the installation script: it works in the new directory and on the two service
  names, and neither registers nor starts the managed service.\<close>

definition script_ok :: "upgrade_env \<Rightarrow> bool" where
  "script_ok e \<longleftrightarrow> (\<forall>target h. let h' = ue_script e target h in
     ho_moved h' = ho_moved h \<and> ho_installed h' = ho_installed h \<and>
     (\<forall>p. p \<noteq> target \<longrightarrow> ho_trees h' p = ho_trees h p) \<and>
     (\<forall>n. n \<notin> {native_name, managed_name} \<longrightarrow> ho_services h' n = ho_services h n) \<and>
     (inactive managed_name h \<longrightarrow> inactive managed_name h') \<and>
     (ho_services h managed_name = None \<longrightarrow> ho_services h' managed_name = None))"

lemmas state_defs = before_def away_def home_def safe_def others_def

lemma states_tick [simp]:
  "others h0 e target (tick h) = others h0 e target h" "before h0 e target t (tick h) = before h0 e target t h"
  "away h0 e target t (tick h) = away h0 e target t h" "home h0 e target t (tick h) = home h0 e target t h"
  "safe h0 e target t (tick h) = safe h0 e target t h" "untouched h0 old (tick h) = untouched h0 old h"
  "installing h0 old (tick h) = installing h0 old h" "foreign_kept h0 (tick h) = foreign_kept h0 h"
  by (simp_all add: state_defs untouched_def installing_def foreign_kept_def)

lemma states_service [simp]:
  "others h0 e target (put_service n s h) = others h0 e target h"
  "before h0 e target t (put_service n s h) = before h0 e target t h"
  "away h0 e target t (put_service n s h) = away h0 e target t h"
  "home h0 e target t (put_service n s h) = home h0 e target t h"
  "safe h0 e target t (put_service n s h) = safe h0 e target t h"
  by (simp_all add: state_defs)

lemma untouched_put [simp]: "untouched h0 old (put_service (sn_name old) s h) = untouched h0 old h"
  by (auto simp: untouched_def)

lemma untouched_frame: "service_frame (sn_name old) (\<lambda>h. before h0 e target t h \<and> untouched h0 old h)"
  by (simp add: service_frame_def)

lemma away_frame: "service_frame (sn_name old) (\<lambda>h. away h0 e target t h \<and> untouched h0 old h)"
  by (simp add: service_frame_def)

section \<open>Forward\<close>

lemma rename_spec:
  assumes "\<And>h. P h \<Longrightarrow> R RuntimeError (tick h)"
    and "\<And>h. P h \<Longrightarrow> ho_trees h a \<noteq> None \<Longrightarrow> ho_trees h b = None \<Longrightarrow>
      Q () (put_tree a None (put_tree b (ho_trees h a) (tick h)))"
  shows "spec P (rename e a b) Q R"
  using assms by (auto simp: spec_def rename_def)

lemma script_fields:
  assumes "script_ok e"
  shows "ho_moved (ue_script e target h) = ho_moved h" "ho_installed (ue_script e target h) = ho_installed h"
    "p \<noteq> target \<Longrightarrow> ho_trees (ue_script e target h) p = ho_trees h p"
    "n \<notin> {native_name, managed_name} \<Longrightarrow> ho_services (ue_script e target h) n = ho_services h n"
    "inactive managed_name h \<Longrightarrow> inactive managed_name (ue_script e target h)"
    "ho_services h managed_name = None \<Longrightarrow> ho_services (ue_script e target h) managed_name = None"
  using assms by (simp_all add: script_ok_def Let_def)

lemma script_keeps:
  assumes "script_ok e"
  shows "away h0 e target t h \<and> installing h0 old h \<Longrightarrow>
    away h0 e target t (ue_script e target h) \<and> installing h0 old (ue_script e target h)"
  using script_fields[OF assms, where target = target and h = h] by (auto simp: away_def others_def installing_def foreign_kept_def)

text \<open>A command has run and answered zero.\<close>

definition succeeded :: "upgrade_env \<Rightarrow> wide \<Rightarrow> wide list \<Rightarrow> bool" where
  "succeeded e exe args \<longleftrightarrow> (\<exists>line n. child_line exe args = Inr line \<and> ue_exit e n line = 0)"

lemma run_ok_spec:
  assumes "\<And>h. P h \<Longrightarrow> P (tick h)" "\<And>h. P h \<Longrightarrow> P (f h)"
  shows "spec P (run_ok e exe args f) (\<lambda>_ h. P h \<and> succeeded e exe args) (\<lambda>_. P)"
proof (cases "child_line exe args")
  case (Inl x)
  then show ?thesis
    by (simp add: run_ok_def run_child_def spec_def andthen_def of_res_def throw_def)
next
  case (Inr line)
  have "spec P (run_child e exe args f) (\<lambda>code h. P h \<and> (\<exists>n. code = ue_exit e n line)) (\<lambda>_. P)"
    unfolding run_child_def
  proof (rule spec_andthen)
    show "spec P (of_res (child_line exe args)) (\<lambda>l h. P h \<and> l = line) (\<lambda>_. P)"
      by (rule spec_of_res) (simp_all add: Inr)
    show "spec (\<lambda>h. P h \<and> l = line) (andthen (asks ho_calls) (\<lambda>n. seq (os_call e f) (ret (ue_exit e n l))))
        (\<lambda>code h. P h \<and> (\<exists>n. code = ue_exit e n line)) (\<lambda>_. P)" for l
    proof (rule spec_andthen)
      show "spec (\<lambda>h. P h \<and> l = line) (asks ho_calls) (\<lambda>_ h. P h \<and> l = line) (\<lambda>_. P)" by (rule spec_asks)
      show "spec (\<lambda>h. P h \<and> l = line) (seq (os_call e f) (ret (ue_exit e n l)))
          (\<lambda>code h. P h \<and> (\<exists>n. code = ue_exit e n line)) (\<lambda>_. P)" for n
        by (rule spec_seq[where Q' = "\<lambda>h. P h \<and> l = line"]; (rule spec_os spec_ret)?) (use assms in auto)
    qed
  qed
  then show ?thesis
    unfolding run_ok_def checks_def
    by (rule spec_andthen) (rule spec_of_res; auto simp: succeeded_def Inr res_simps)
qed

lemma spec_fact: "spec P m (\<lambda>_. Q) R \<Longrightarrow> (\<And>f h. R f h \<Longrightarrow> R' f h) \<Longrightarrow>
   spec (\<lambda>h. P h \<and> F) m (\<lambda>_ h. Q h \<and> F) R'"
  by (cases F) (auto simp: spec_false elim: spec_weaken)

definition replaced :: "upgrade_env \<Rightarrow> wide \<Rightarrow> int \<Rightarrow> string \<Rightarrow> bool" where
  "replaced e target port_no expected \<longleftrightarrow>
     succeeded e (below_path target [program_name]) (validate_arguments target) \<and>
     succeeded e (system_tool e ''cmd.exe'') install_arguments \<and>
     verify target port_no expected (ue_rounds e) = Inr ()"

definition broken_off :: "upgrade_host \<Rightarrow> upgrade_env \<Rightarrow> service_snapshot \<Rightarrow> wide \<Rightarrow> tree \<Rightarrow> upgrade_host \<Rightarrow> bool" where
  "broken_off h0 e old target t h \<longleftrightarrow>
     before h0 e target t h \<and> untouched h0 old h \<or>
     away h0 e target t h \<and> (untouched h0 old h \<or> installing h0 old h)"

lemma replace_spec:
  assumes script: "script_ok e" and old: "snapshot_of h0 old"
  shows "spec (\<lambda>h. before h0 e target t h \<and> untouched h0 old h) (replace e old target port_no expected)
    (\<lambda>r h. r = Upgraded \<and> away h0 e target t h \<and> foreign_kept h0 h \<and> replaced e target port_no expected)
    (\<lambda>_. broken_off h0 e old target t)"
proof -
  let ?name = "sn_name old" and ?R = "\<lambda>_ :: failure. broken_off h0 e old target t"
  let ?P0 = "\<lambda>h. before h0 e target t h \<and> untouched h0 old h"
  let ?P1 = "\<lambda>h. ?P0 h \<and> inactive ?name h"
  let ?P2 = "\<lambda>h. others h0 e target h \<and> ho_trees h (backup_of e target) = Some t \<and> ho_trees h (failed_of e target) = None \<and>
    untouched h0 old h \<and> inactive ?name h"
  let ?P3 = "\<lambda>h. away h0 e target t h \<and> untouched h0 old h \<and> inactive ?name h"
  let ?P7 = "\<lambda>h. away h0 e target t h \<and> installing h0 old h"
  have to_R: "?P3 h \<Longrightarrow> ?R f h" "?P7 h \<Longrightarrow> ?R f h" "?P0 h \<Longrightarrow> ?R f h" for h f by (auto simp: broken_off_def)
  have s1: "spec ?P0 (stop_service e ?name) (\<lambda>_. ?P1) ?R"
    by (rule spec_weaken[OF stop_spec[OF service_frame_stop[OF untouched_frame]]]) (use to_R in auto)
  have s2: "spec ?P1 (rename e target (backup_of e target)) (\<lambda>_. ?P2) ?R"
    by (rule rename_spec) (auto simp: broken_off_def before_def others_def untouched_def inactive_def)
  have s3: "spec ?P2 (modify (\<lambda>h. h\<lparr>ho_moved := True\<rparr>)) (\<lambda>_. ?P3) ?R"
    by (rule spec_modify) (auto simp: away_def others_def untouched_def inactive_def)
  have s4: "spec ?P3 (rename e (staged_of e target) target) (\<lambda>_. ?P3) ?R"
    by (rule rename_spec) (auto simp: broken_off_def away_def others_def untouched_def inactive_def)
  let ?V = "succeeded e (below_path target [program_name]) (validate_arguments target)"
  let ?I = "succeeded e (system_tool e ''cmd.exe'') install_arguments"
  have s5: "spec ?P3 (validate_package e target) (\<lambda>_ h. ?P3 h \<and> ?V) ?R"
    unfolding validate_package_def by (rule spec_weaken[OF run_ok_spec[of ?P3]]) (use to_R in auto)
  have frame: "stop_frame ?name ?P3" by (auto simp: stop_frame_def change_service_def) (simp_all add: inactive_def split: option.split)
  have remove: "spec ?P3 (remove_service e ?name) (\<lambda>_. ?P3) ?R"
    by (rule spec_weaken[OF remove_spec[OF frame]]) (use to_R in auto)
  have s6: "spec ?P3 (if sn_kind old = Managed then remove_service e ?name else ret ()) (\<lambda>_. ?P3) ?R"
    by (intro spec_if remove spec_ret)
  have s7: "spec ?P3 (modify (\<lambda>h. h\<lparr>ho_installed := True\<rparr>)) (\<lambda>_. ?P7) ?R"
    by (rule spec_modify)
      (use old in \<open>auto simp: away_def others_def untouched_def installing_def foreign_kept_def inactive_def snapshot_of_def\<close>)
  have s8: "spec (\<lambda>h. ?P7 h \<and> ?V) (install_service e target) (\<lambda>_ h. ?P7 h \<and> ?V \<and> ?I) ?R"
    unfolding install_service_def
    by (rule spec_weaken[OF run_ok_spec[of "\<lambda>h. ?P7 h \<and> ?V"]]) (use to_R script_keeps[OF script] in auto)
  have s9: "spec (\<lambda>h. ?P7 h \<and> ?V \<and> ?I) (of_res (verify target port_no expected (ue_rounds e)))
    (\<lambda>_ h. ?P7 h \<and> replaced e target port_no expected) ?R"
    by (rule spec_of_res) (use to_R in \<open>auto simp: replaced_def\<close>)
  have s10: "spec (\<lambda>h. ?P7 h \<and> replaced e target port_no expected) (ret Upgraded)
    (\<lambda>r h. r = Upgraded \<and> away h0 e target t h \<and> foreign_kept h0 h \<and> replaced e target port_no expected) ?R"
    by (rule spec_ret) (auto simp: installing_def)
  show ?thesis
    unfolding replace_def
    by (rule spec_seq[OF s1 spec_seq[OF s2 spec_seq[OF s3 spec_seq[OF s4 spec_seq[OF s5 spec_seq[OF spec_fact[OF s6]
        spec_seq[OF spec_fact[OF s7] spec_seq[OF s8 spec_seq[OF s9 s10]]]]]]]]])
qed

section \<open>Back\<close>

definition settled :: "upgrade_host \<Rightarrow> service_snapshot \<Rightarrow> upgrade_host \<Rightarrow> bool" where
  "settled h0 old h \<longleftrightarrow> inactive (sn_name old) h \<and> (\<forall>n. n \<noteq> sn_name old \<longrightarrow> ho_services h n = ho_services h0 n)"

definition stage :: "bool \<Rightarrow> upgrade_host \<Rightarrow> upgrade_env \<Rightarrow> wide \<Rightarrow> tree \<Rightarrow> upgrade_host \<Rightarrow> bool" where
  "stage moved h0 e target t = (if moved then away h0 e target t else before h0 e target t)"

lemma stage_service [simp]:
  "stage m h0 e target t (tick h) = stage m h0 e target t h"
  "stage m h0 e target t (put_service n s h) = stage m h0 e target t h"
  by (simp_all add: stage_def)

lemma stage_safe: "stage m h0 e target t h \<Longrightarrow> safe h0 e target t h"
  by (auto simp: stage_def state_defs split: if_splits)

lemma native_frame: "stop_frame native_name (\<lambda>h. away h0 e target t h \<and> installing h0 old h)"
  by (auto simp: stop_frame_def change_service_def installing_def foreign_kept_def inactive_def)

lemma settled_managed:
  assumes "snapshot_of h0 old" and "sn_name old = managed_name" and "installing h0 old h" and "ho_services h native_name = None"
  shows "settled h0 old h"
  unfolding settled_def
proof (intro conjI allI impI)
  fix n assume "n \<noteq> sn_name old"
  then show "ho_services h n = ho_services h0 n"
    using assms by (cases "n = native_name") (simp_all add: snapshot_of_def installing_def foreign_kept_def)
qed (use assms in \<open>simp add: installing_def\<close>)

lemma stop_back_spec:
  assumes old: "snapshot_of h0 old"
  shows "spec (\<lambda>h. broken_off h0 e old target t h \<and> i = ho_installed h \<and> m = ho_moved h)
    (if i then seq (stop_service e native_name) (if sn_name old \<noteq> native_name then remove_service e native_name else ret ())
     else stop_service e (sn_name old))
    (\<lambda>_ h. stage m h0 e target t h \<and> settled h0 old h) (\<lambda>_. safe h0 e target t)"
proof (rule spec_if)
  assume i: "i"
  let ?Q = "\<lambda>h. away h0 e target t h \<and> installing h0 old h"
  have pre: "?Q h \<and> m" if "broken_off h0 e old target t h \<and> i = ho_installed h \<and> m = ho_moved h" for h
    using that i by (auto simp: broken_off_def untouched_def away_def)
  have stop: "spec ?Q (stop_service e native_name) (\<lambda>_ h. ?Q h \<and> inactive native_name h) (\<lambda>_. ?Q)"
    by (rule stop_spec[OF native_frame])
  have other: "sn_name old = managed_name" if "sn_name old \<noteq> native_name"
    using old that by (auto simp: snapshot_of_def)
  have undo: "spec (\<lambda>h. ?Q h \<and> inactive native_name h)
      (if sn_name old \<noteq> native_name then remove_service e native_name else ret ())
      (\<lambda>_ h. away h0 e target t h \<and> settled h0 old h) (\<lambda>_. ?Q)"
  proof (rule spec_if)
    assume n: "sn_name old \<noteq> native_name"
    show "spec (\<lambda>h. ?Q h \<and> inactive native_name h) (remove_service e native_name)
        (\<lambda>_ h. away h0 e target t h \<and> settled h0 old h) (\<lambda>_. ?Q)"
      by (rule spec_weaken[OF remove_spec[OF native_frame[where old = old]]])
        (use settled_managed[OF old other[OF n]] in auto)
  next
    assume "\<not> sn_name old \<noteq> native_name"
    then show "spec (\<lambda>h. ?Q h \<and> inactive native_name h) (ret ()) (\<lambda>_ h. away h0 e target t h \<and> settled h0 old h) (\<lambda>_. ?Q)"
      using old by (intro spec_ret) (auto simp: settled_def installing_def foreign_kept_def snapshot_of_def)
  qed
  show "spec (\<lambda>h. broken_off h0 e old target t h \<and> i = ho_installed h \<and> m = ho_moved h)
    (seq (stop_service e native_name) (if sn_name old \<noteq> native_name then remove_service e native_name else ret ()))
    (\<lambda>_ h. stage m h0 e target t h \<and> settled h0 old h) (\<lambda>_. safe h0 e target t)"
  proof (cases m)
    case True
    then show ?thesis
      by (intro spec_weaken[OF spec_seq[OF stop undo]]) (use pre in \<open>auto simp: stage_def state_defs\<close>)
  next
    case False
    then show ?thesis using pre by (auto simp: spec_def)
  qed
next
  assume i: "\<not> i"
  have frame: "service_frame (sn_name old) (\<lambda>h. stage m h0 e target t h \<and> untouched h0 old h)"
    by (simp add: service_frame_def)
  show "spec (\<lambda>h. broken_off h0 e old target t h \<and> i = ho_installed h \<and> m = ho_moved h) (stop_service e (sn_name old))
    (\<lambda>_ h. stage m h0 e target t h \<and> settled h0 old h) (\<lambda>_. safe h0 e target t)"
    by (rule spec_weaken[OF stop_spec[OF service_frame_stop[OF frame]]])
      (use i stage_safe in \<open>auto simp: broken_off_def stage_def before_def away_def installing_def settled_def untouched_def\<close>)
qed

lemma move_back_spec:
  "spec (\<lambda>h. stage m h0 e target t h \<and> settled h0 old h)
    (if m then seq (andthen (asks (\<lambda>h. ho_trees h target)) (\<lambda>there.
                     if there \<noteq> None then rename e target (failed_of e target) else ret ()))
                (rename e (backup_of e target) target)
     else ret ())
    (\<lambda>_ h. home h0 e target t h \<and> settled h0 old h) (\<lambda>_. safe h0 e target t)"
proof (rule spec_if)
  assume m: "m"
  let ?mid = "\<lambda>h. others h0 e target h \<and> ho_trees h (backup_of e target) = Some t \<and> settled h0 old h"
  have clear: "spec (\<lambda>h. away h0 e target t h \<and> settled h0 old h) (andthen (asks (\<lambda>h. ho_trees h target)) (\<lambda>there.
      if there \<noteq> None then rename e target (failed_of e target) else ret ())) (\<lambda>_. ?mid) (\<lambda>_. safe h0 e target t)"
  proof (rule spec_andthen)
    show "spec (\<lambda>h. away h0 e target t h \<and> settled h0 old h) (asks (\<lambda>h. ho_trees h target))
      (\<lambda>_ h. away h0 e target t h \<and> settled h0 old h) (\<lambda>_. safe h0 e target t)"
      by (rule spec_asks)
    show "spec (\<lambda>h. away h0 e target t h \<and> settled h0 old h)
      (if there \<noteq> None then rename e target (failed_of e target) else ret ()) (\<lambda>_. ?mid) (\<lambda>_. safe h0 e target t)" for there
      by (intro spec_if rename_spec spec_ret) (auto simp: state_defs settled_def inactive_def)
  qed
  have return: "spec ?mid (rename e (backup_of e target) target)
      (\<lambda>_ h. home h0 e target t h \<and> settled h0 old h) (\<lambda>_. safe h0 e target t)"
    by (rule rename_spec) (auto simp: state_defs settled_def inactive_def)
  show "spec (\<lambda>h. stage m h0 e target t h \<and> settled h0 old h)
    (seq (andthen (asks (\<lambda>h. ho_trees h target)) (\<lambda>there. if there \<noteq> None then rename e target (failed_of e target) else ret ()))
      (rename e (backup_of e target) target))
    (\<lambda>_ h. home h0 e target t h \<and> settled h0 old h) (\<lambda>_. safe h0 e target t)"
    using spec_seq[OF clear return] m by (simp add: stage_def)
next
  assume "\<not> m"
  then show "spec (\<lambda>h. stage m h0 e target t h \<and> settled h0 old h) (ret ())
    (\<lambda>_ h. home h0 e target t h \<and> settled h0 old h) (\<lambda>_. safe h0 e target t)"
    by (intro spec_ret) (auto simp: stage_def state_defs)
qed

lemma roll_back_spec:
  assumes old: "snapshot_of h0 old" and f: "sc_failures (sn_config old) \<noteq> []"
  shows "spec (broken_off h0 e old target t) (roll_back e old target)
    (\<lambda>r h. r = RolledBack \<and> home h0 e target t h \<and> ho_services h = ho_services h0) (\<lambda>_. safe h0 e target t)"
proof -
  let ?P = "\<lambda>h. home h0 e target t h \<and> (\<forall>n. n \<noteq> sn_name old \<longrightarrow> ho_services h n = ho_services h0 n)"
  have frame: "service_frame (sn_name old) ?P" by (auto simp: service_frame_def)
  have same: "ho_services h = ho_services h0"
    if "?P h" "ho_services h (sn_name old) = Some \<lparr>en_config = sn_config old, en_active = sn_running old\<rparr>" for h
    using that old by (intro ext) (metis snapshot_of_def)
  have restore: "spec (\<lambda>h. home h0 e target t h \<and> settled h0 old h) (seq (restore_service e old) (ret RolledBack))
    (\<lambda>r h. r = RolledBack \<and> home h0 e target t h \<and> ho_services h = ho_services h0) (\<lambda>_. safe h0 e target t)"
  proof (rule spec_seq)
    show "spec (\<lambda>h. home h0 e target t h \<and> settled h0 old h) (restore_service e old)
      (\<lambda>_ h. home h0 e target t h \<and> ho_services h = ho_services h0) (\<lambda>_. safe h0 e target t)"
      by (rule spec_weaken[OF restore_spec[OF frame refl f]])
        (use same in \<open>auto simp: settled_def home_def safe_def\<close>)
  qed (rule spec_ret, simp)
  show ?thesis
    unfolding roll_back_def
  proof (rule spec_andthen)
    show "spec (broken_off h0 e old target t) (asks ho_installed)
      (\<lambda>i h. broken_off h0 e old target t h \<and> i = ho_installed h) (\<lambda>_. safe h0 e target t)"
      by (rule spec_asks) simp
    show "spec (\<lambda>h. broken_off h0 e old target t h \<and> i = ho_installed h) (andthen (asks ho_moved) (\<lambda>m.
       seq (if i then seq (stop_service e native_name) (if sn_name old \<noteq> native_name then remove_service e native_name else ret ())
            else stop_service e (sn_name old))
      (seq (if m then seq (andthen (asks (\<lambda>h. ho_trees h target)) (\<lambda>there.
                     if there \<noteq> None then rename e target (failed_of e target) else ret ()))
                (rename e (backup_of e target) target)
            else ret ())
        (seq (restore_service e old) (ret RolledBack)))))
      (\<lambda>r h. r = RolledBack \<and> home h0 e target t h \<and> ho_services h = ho_services h0) (\<lambda>_. safe h0 e target t)" for i
    proof (rule spec_andthen)
      show "spec (\<lambda>h. broken_off h0 e old target t h \<and> i = ho_installed h) (asks ho_moved)
        (\<lambda>m h. broken_off h0 e old target t h \<and> i = ho_installed h \<and> m = ho_moved h) (\<lambda>_. safe h0 e target t)"
        by (rule spec_asks) simp
    qed (rule spec_seq[OF stop_back_spec[OF old] spec_seq[OF move_back_spec restore]])
  qed
qed

text \<open>Where a transaction ends.\<close>

definition outcome_ok :: "upgrade_host \<Rightarrow> upgrade_env \<Rightarrow> wide \<Rightarrow> tree \<Rightarrow> int \<Rightarrow> string \<Rightarrow> upgrade_result \<Rightarrow> upgrade_host \<Rightarrow> bool" where
  "outcome_ok h0 e target t port_no expected r h \<longleftrightarrow>
     (case r of
        CheckPassed \<Rightarrow> False
      | Upgraded \<Rightarrow> away h0 e target t h \<and> foreign_kept h0 h \<and> replaced e target port_no expected
      | RolledBack \<Rightarrow> home h0 e target t h \<and> ho_services h = ho_services h0
      | RollbackFailed \<Rightarrow> safe h0 e target t h)"

lemma transaction_spec:
  assumes "script_ok e" "snapshot_of h0 old" "sc_failures (sn_config old) \<noteq> []"
  shows "spec (\<lambda>h. before h0 e target t h \<and> untouched h0 old h) (transaction e old target port_no expected)
    (outcome_ok h0 e target t port_no expected) (\<lambda>_ _. False)"
  unfolding transaction_def
proof (rule spec_catch)
  show "spec (\<lambda>h. before h0 e target t h \<and> untouched h0 old h) (replace e old target port_no expected)
    (outcome_ok h0 e target t port_no expected) (\<lambda>_. broken_off h0 e old target t)"
    by (rule spec_weaken[OF replace_spec[OF assms(1,2)]]) (auto simp: outcome_ok_def)
  fix f
  show "spec (broken_off h0 e old target t) (catch (roll_back e old target) (\<lambda>_. ret RollbackFailed))
    (outcome_ok h0 e target t port_no expected) (\<lambda>_ _. False)"
    by (rule spec_catch[OF spec_weaken[OF roll_back_spec[OF assms(2,3)]] spec_ret]) (auto simp: outcome_ok_def)
qed

section \<open>The whole run\<close>

definition unchanged :: "upgrade_host \<Rightarrow> upgrade_host \<Rightarrow> bool" where
  "unchanged h0 h \<longleftrightarrow> ho_trees h = ho_trees h0 \<and> ho_services h = ho_services h0 \<and>
     ho_moved h = ho_moved h0 \<and> ho_installed h = ho_installed h0"

lemma unchanged_tick [simp]: "unchanged h0 (tick h) = unchanged h0 h"
  by (simp add: unchanged_def)

lemma ask_unchanged [intro]: "keeps (unchanged h0) (ask e)"
  by (rule keeps_os) simp_all

lemma run_unchanged [intro]: "keeps (unchanged h0) (validate_package e dir)" "keeps (unchanged h0) (run_child e exe args (\<lambda>h. h))"
  unfolding validate_package_def by (rule keeps_run_ok keeps_run; simp)+

lemma keeps_case [intro]: "(\<And>x y. keeps P (k x y)) \<Longrightarrow> keeps P (case z of (x, y) \<Rightarrow> k x y)"
  by (cases z) simp

lemma keeps_option [intro]: "keeps P m \<Longrightarrow> (\<And>x. keeps P (k x)) \<Longrightarrow> keeps P (case z of None \<Rightarrow> m | Some x \<Rightarrow> k x)"
  by (cases z) simp_all

lemma package_unchanged: "keeps (unchanged h0) (inspect_package e)"
  unfolding inspect_package_def by (intro keeps_andthen keeps_seq keeps_rules keeps_case run_unchanged)

lemma task_unchanged: "keeps (unchanged h0) (no_scheduled_task e n)"
  unfolding no_scheduled_task_def by (intro keeps_andthen keeps_seq keeps_rules run_unchanged)

lemma inspect_name:
  assumes "inspect e n h s = Inr old"
  shows "sn_name old = n \<and> s = \<lparr>en_config = sn_config old, en_active = sn_running old\<rparr>"
  using assms by (cases s) (auto simp: inspect_def res_simps Let_def)

lemma snapshot_spec:
  "spec (unchanged h0) (snapshot e n)
    (\<lambda>old h. unchanged h0 h \<and> sn_name old = n \<and>
      ho_services h0 n = Some \<lparr>en_config = sn_config old, en_active = sn_running old\<rparr>) (\<lambda>_. unchanged h0)"
  unfolding snapshot_def
proof (rule spec_seq[OF keepsD[OF ask_unchanged]], rule spec_andthen)
  show "spec (unchanged h0) (asks (\<lambda>h. (ho_services h n, h)))
    (\<lambda>(s, h') h. unchanged h0 h \<and> s = ho_services h0 n) (\<lambda>_. unchanged h0)"
    by (rule spec_asks) (simp add: unchanged_def)
  show "spec ((\<lambda>(s, h') h. unchanged h0 h \<and> s = ho_services h0 n) x)
     (case x of (s, h) \<Rightarrow> case s of None \<Rightarrow> throw RuntimeError | Some s \<Rightarrow> of_res (inspect e n h s))
     (\<lambda>old h. unchanged h0 h \<and> sn_name old = n \<and>
       ho_services h0 n = Some \<lparr>en_config = sn_config old, en_active = sn_running old\<rparr>) (\<lambda>_. unchanged h0)" for x
  proof (cases x)
    case (Pair s h')
    show ?thesis
      unfolding Pair prod.case
      by (rule spec_option; (rule spec_throw spec_of_res)) (auto dest: inspect_name)
  qed
qed

lemma one_of_two: "length (filter P [a, b]) = 1 \<Longrightarrow> a \<noteq> b \<Longrightarrow>
    (let x = hd (filter P [a, b]) in x \<in> {a, b} \<and> (\<forall>n. n \<in> {a, b} \<longrightarrow> n \<noteq> x \<longrightarrow> \<not> P n))"
  by (auto simp: Let_def split: if_splits)

lemma discover_spec:
  "spec (unchanged h0) (discover e) (\<lambda>old h. unchanged h0 h \<and> snapshot_of h0 old) (\<lambda>_. unchanged h0)"
  unfolding discover_def
proof (rule spec_seq[OF keepsD[OF ask_unchanged]], rule spec_andthen)
  let ?found = "\<lambda>h. filter (\<lambda>name. ho_services h name \<noteq> None) [native_name, managed_name]"
  show "spec (unchanged h0) (asks ?found) (\<lambda>found h. unchanged h0 h \<and> found = ?found h0) (\<lambda>_. unchanged h0)"
    by (rule spec_asks) (simp add: unchanged_def)
  show "spec (\<lambda>h. unchanged h0 h \<and> found = ?found h0) (seq (checks (length found = 1)) (snapshot e (hd found)))
    (\<lambda>old h. unchanged h0 h \<and> snapshot_of h0 old) (\<lambda>_. unchanged h0)" for found
  proof (rule spec_seq)
    show "spec (\<lambda>h. unchanged h0 h \<and> found = ?found h0) (checks (length found = 1))
      (\<lambda>_ h. unchanged h0 h \<and> found = ?found h0 \<and> length found = 1) (\<lambda>_. unchanged h0)"
      unfolding checks_def by (rule spec_of_res) (auto simp: res_simps)
    show "spec (\<lambda>h. unchanged h0 h \<and> found = ?found h0 \<and> length found = 1) (snapshot e (hd found))
      (\<lambda>old h. unchanged h0 h \<and> snapshot_of h0 old) (\<lambda>_. unchanged h0)"
    proof (cases "found = ?found h0 \<and> length found = 1")
      case True
      then have "hd found \<in> {native_name, managed_name} \<and>
          (\<forall>n. n \<in> {native_name, managed_name} \<longrightarrow> n \<noteq> hd found \<longrightarrow> \<not> ho_services h0 n \<noteq> None)"
        using one_of_two[of "\<lambda>n. ho_services h0 n \<noteq> None" native_name managed_name] by (metis names_distinct(1))
      then show ?thesis
        by (intro spec_weaken[OF snapshot_spec]) (auto simp: snapshot_of_def)
    next
      case False
      then show ?thesis by (auto simp: spec_def)
    qed
  qed
qed

lemma spec_keep_fact: "keeps P m \<Longrightarrow> spec (\<lambda>h. P h \<and> F) m (\<lambda>_ h. P h \<and> F) (\<lambda>_. P)"
  by (cases F) (auto simp: keeps_def spec_false)

lemma links_spec:
  "spec (\<lambda>h. unchanged h0 h \<and> F) (no_links_below e p) (\<lambda>_ h. unchanged h0 h \<and> F \<and> ho_trees h0 p \<noteq> None) (\<lambda>_. unchanged h0)"
  unfolding no_links_below_def
proof (rule spec_andthen)
  show "spec (\<lambda>h. unchanged h0 h \<and> F) (asks (\<lambda>h. ho_trees h p)) (\<lambda>t h. unchanged h0 h \<and> F \<and> t = ho_trees h0 p) (\<lambda>_. unchanged h0)"
    by (rule spec_asks) (simp add: unchanged_def)
  show "spec (\<lambda>h. unchanged h0 h \<and> F \<and> t = ho_trees h0 p) (case t of None \<Rightarrow> throw RuntimeError
      | Some items \<Rightarrow> checks (list_all (\<lambda>(names, _). \<not> pe_linked (ue_paths e) (below_path p names)) items))
      (\<lambda>_ h. unchanged h0 h \<and> F \<and> ho_trees h0 p \<noteq> None) (\<lambda>_. unchanged h0)" for t
    unfolding checks_def by (rule spec_option; (rule spec_throw spec_of_res)) (auto simp: res_simps)
qed

lemma inspect_machine_spec:
  "spec (unchanged h0) (inspect_machine e)
    (\<lambda>(port_no, expected, old, target) h. unchanged h0 h \<and> snapshot_of h0 old \<and> ho_trees h0 target \<noteq> None)
    (\<lambda>_. unchanged h0)"
proof -
  let ?U = "unchanged h0"
  have tail: "spec (\<lambda>h. ?U h \<and> snapshot_of h0 old)
      (seq (of_res (validate_paths (ue_paths e) (ue_source e) target))
        (seq (no_scheduled_task e native_name) (seq (no_scheduled_task e managed_name)
          (seq (no_links_below e (ue_source e)) (seq (no_links_below e target) (ret (port_no, expected, old, target)))))))
      (\<lambda>(port_no, expected, old, target) h. ?U h \<and> snapshot_of h0 old \<and> ho_trees h0 target \<noteq> None) (\<lambda>_. ?U)"
    for port_no :: int and expected :: string and old target
    by (rule spec_seq[OF spec_keep_fact[OF keeps_rules(4)] spec_seq[OF spec_keep_fact[OF task_unchanged]
        spec_seq[OF spec_keep_fact[OF task_unchanged] spec_seq[OF
          spec_weaken[OF links_spec[where F = "snapshot_of h0 old"]] spec_seq[OF links_spec[where F = "snapshot_of h0 old"] spec_ret]]]]])
      auto
  have middle: "spec ?U (andthen (discover e) (\<lambda>old.
      andthen (of_res (res_of_option RuntimeError (ue_canonical e (parent_path (sn_exe old))))) (\<lambda>target.
      seq (of_res (validate_paths (ue_paths e) (ue_source e) target))
        (seq (no_scheduled_task e native_name) (seq (no_scheduled_task e managed_name)
          (seq (no_links_below e (ue_source e)) (seq (no_links_below e target) (ret (port_no, expected, old, target)))))))))
      (\<lambda>(port_no, expected, old, target) h. ?U h \<and> snapshot_of h0 old \<and> ho_trees h0 target \<noteq> None) (\<lambda>_. ?U)"
    for port_no :: int and expected :: string
    by (rule spec_andthen[OF discover_spec spec_andthen[OF spec_keep_fact[OF keeps_rules(4)] tail]])
  show ?thesis
    unfolding inspect_machine_def
  proof (rule spec_seq[OF keepsD[OF keeps_rules(5)] spec_seq[OF keepsD[OF keeps_rules(4)] spec_andthen[OF keepsD[OF package_unchanged]]]])
    show "spec ?U (case x of (port_no, expected) \<Rightarrow> seq (ask e) (andthen (discover e) (\<lambda>old.
      andthen (of_res (res_of_option RuntimeError (ue_canonical e (parent_path (sn_exe old))))) (\<lambda>target.
      seq (of_res (validate_paths (ue_paths e) (ue_source e) target))
        (seq (no_scheduled_task e native_name) (seq (no_scheduled_task e managed_name)
          (seq (no_links_below e (ue_source e)) (seq (no_links_below e target) (ret (port_no, expected, old, target))))))))))
      (\<lambda>(port_no, expected, old, target) h. ?U h \<and> snapshot_of h0 old \<and> ho_trees h0 target \<noteq> None) (\<lambda>_. ?U)" for x :: "int \<times> string"
    proof (cases x)
      case (Pair port_no expected)
      show ?thesis unfolding Pair prod.case by (rule spec_seq[OF keepsD[OF ask_unchanged]], rule middle)
    qed
  qed
qed

subsection \<open>The copy beside the installation\<close>

text \<open>What the preparations may change: the staged directory.\<close>

definition staging :: "upgrade_host \<Rightarrow> upgrade_env \<Rightarrow> wide \<Rightarrow> upgrade_host \<Rightarrow> bool" where
  "staging h0 e target h \<longleftrightarrow> (\<forall>p. p \<noteq> staged_of e target \<longrightarrow> ho_trees h p = ho_trees h0 p) \<and>
     ho_services h = ho_services h0 \<and> ho_moved h = ho_moved h0 \<and> ho_installed h = ho_installed h0"

lemma staging_steps [simp]:
  "staging h0 e target (tick h) = staging h0 e target h"
  "staging h0 e target (put_tree (staged_of e target) t h) = staging h0 e target h"
  "staging h0 e target (add_entry (staged_of e target) x h) = staging h0 e target h"
  by (simp_all add: staging_def add_entry_def)

lemma copy_items_staging: "keeps (staging h0 e target) (copy_items e p (staged_of e target) items)"
proof (induction items)
  case Nil
  show ?case unfolding copy_items.simps by (rule keeps_rules)
next
  case (Cons x items)
  obtain names y where x: "x = (names, y)" by (cases x)
  show ?case
    unfolding x copy_items.simps
    by (cases y) (auto intro!: keeps_seq keeps_andthen keeps_os Cons)
qed

lemma copy_staging: "keeps (staging h0 e target) (copy_all e p (staged_of e target))"
  unfolding copy_all_def by (auto intro!: keeps_andthen keeps_case keeps_seq keeps_os keeps_option copy_items_staging)

definition vacant :: "upgrade_host \<Rightarrow> upgrade_env \<Rightarrow> wide \<Rightarrow> bool" where
  "vacant h e target \<longleftrightarrow> ho_trees h (backup_of e target) = None \<and> ho_trees h (staged_of e target) = None \<and>
     ho_trees h (failed_of e target) = None"

lemma unchanged_staging: "unchanged h0 h \<Longrightarrow> staging h0 e target h"
  by (simp add: unchanged_def staging_def)

lemma prepare_spec:
  "spec (unchanged h0) (prepare_upgrade e old target)
    (\<lambda>_ h. staging h0 e target h \<and> vacant h0 e target)
    (\<lambda>_ h. unchanged h0 h \<or> staging h0 e target h \<and> vacant h0 e target)"
proof -
  let ?S = "\<lambda>h. staging h0 e target h" and ?R = "\<lambda>(_ :: failure) h. unchanged h0 h \<or> staging h0 e target h \<and> vacant h0 e target"
  have kept: "keeps ?S m \<Longrightarrow> spec (\<lambda>h. ?S h \<and> vacant h0 e target) m (\<lambda>_ h. ?S h \<and> vacant h0 e target) ?R"
    for m :: "(upgrade_host, unit) comp"
    by (cases "vacant h0 e target") (auto simp: keeps_def spec_false elim: spec_weaken)
  have run: "keeps ?S (validate_package e (staged_of e target))" "keeps ?S (export_registration e (sn_name old) target)"
    unfolding validate_package_def export_registration_def by (rule keeps_run_ok; simp)+
  have work: "spec (\<lambda>h. ?S h \<and> vacant h0 e target)
      (seq (copy_all e (ue_source e) (staged_of e target)) 
        (seq (validate_package e (staged_of e target)) (export_registration e (sn_name old) target)))
      (\<lambda>_ h. ?S h \<and> vacant h0 e target) ?R"
    by (rule spec_seq[OF kept[OF copy_staging] spec_seq[OF kept[OF run(1)] kept[OF run(2)]]])
  have check: "spec (\<lambda>h. unchanged h0 h \<and> v = vacant h0 e target) (checks v) (\<lambda>_ h. ?S h \<and> vacant h0 e target) ?R" for v
    unfolding checks_def by (rule spec_of_res) (auto simp: res_simps unchanged_staging)
  show ?thesis
    unfolding prepare_upgrade_def
  proof (rule spec_andthen)
    show "spec (unchanged h0) (asks (\<lambda>h. ho_trees h (backup_of e target) = None \<and> ho_trees h (staged_of e target) = None \<and>
       ho_trees h (failed_of e target) = None)) (\<lambda>v h. unchanged h0 h \<and> v = vacant h0 e target) ?R"
      by (rule spec_asks) (simp add: unchanged_def vacant_def)
    show "spec (\<lambda>h. unchanged h0 h \<and> v = vacant h0 e target) (seq (checks v)
       (seq (copy_all e (ue_source e) (staged_of e target)) 
        (seq (validate_package e (staged_of e target)) (export_registration e (sn_name old) target))))
       (\<lambda>_ h. ?S h \<and> vacant h0 e target) ?R" for v
      by (rule spec_seq[OF check work])
  qed
qed

lemma staging_before:
  assumes "staging h0 e target h" "vacant h0 e target" "ho_trees h0 target = Some t" "\<not> ho_moved h0" "\<not> ho_installed h0"
  shows "before h0 e target t h \<and> untouched h0 old h"
  using assms by (auto simp: staging_def vacant_def before_def others_def untouched_def)

subsection \<open>Every way it ends\<close>

definition services_complete :: "upgrade_host \<Rightarrow> bool" where
  "services_complete h \<longleftrightarrow> (\<forall>n s. ho_services h n = Some s \<longrightarrow> sc_failures (en_config s) \<noteq> [])"

definition run_ended :: "upgrade_host \<Rightarrow> upgrade_env \<Rightarrow> upgrade_result \<Rightarrow> upgrade_host \<Rightarrow> bool" where
  "run_ended h0 e r h \<longleftrightarrow> (r = CheckPassed \<and> unchanged h0 h) \<or>
     (\<exists>target t port_no expected. ho_trees h0 target = Some t \<and> vacant h0 e target \<and>
        outcome_ok h0 e target t port_no expected r h)"

definition run_refused :: "upgrade_host \<Rightarrow> upgrade_env \<Rightarrow> upgrade_host \<Rightarrow> bool" where
  "run_refused h0 e h \<longleftrightarrow> unchanged h0 h \<or> (\<exists>target. staging h0 e target h \<and> vacant h0 e target)"

lemma execute_spec:
  assumes script: "script_ok e" and complete: "services_complete h0" and new: "\<not> ho_moved h0" "\<not> ho_installed h0"
  shows "spec (unchanged h0) (execute e check_only) (run_ended h0 e) (\<lambda>_. run_refused h0 e)"
proof -
  have go: "spec (\<lambda>h. unchanged h0 h \<and> snapshot_of h0 old \<and> ho_trees h0 target \<noteq> None)
      (seq (prepare_upgrade e old target) (transaction e old target port_no expected)) (run_ended h0 e) (\<lambda>_. run_refused h0 e)"
    for old target port_no expected
  proof (cases "snapshot_of h0 old \<and> ho_trees h0 target \<noteq> None")
    case True
    then obtain t where t: "ho_trees h0 target = Some t" by auto
    have f: "sc_failures (sn_config old) \<noteq> []"
      using complete True unfolding services_complete_def snapshot_of_def by fastforce
    have prepare: "spec (unchanged h0) (prepare_upgrade e old target)
        (\<lambda>_ h. (before h0 e target t h \<and> untouched h0 old h) \<and> vacant h0 e target) (\<lambda>_. run_refused h0 e)"
      by (rule spec_weaken[OF prepare_spec[of h0 e old target]])
        (use staging_before[OF _ _ t new] in \<open>auto simp: run_refused_def\<close>)
    have work: "spec (\<lambda>h. (before h0 e target t h \<and> untouched h0 old h) \<and> vacant h0 e target)
        (transaction e old target port_no expected) (run_ended h0 e) (\<lambda>_. run_refused h0 e)"
    proof (cases "vacant h0 e target")
      case v: True
      show ?thesis
        by (rule spec_weaken[OF transaction_spec[OF script _ f, where t = t]]) (use True t v in \<open>auto simp: run_ended_def\<close>)
    next
      case False
      then show ?thesis by (simp add: spec_false)
    qed
    show ?thesis by (rule spec_pre[OF spec_seq[OF prepare work]]) simp
  next
    case False
    then show ?thesis by (auto simp: spec_def)
  qed
  let ?found = "\<lambda>(port_no :: int, expected :: string, old, target) h. unchanged h0 h \<and> snapshot_of h0 old \<and> ho_trees h0 target \<noteq> None"
  have look: "spec (unchanged h0) (inspect_machine e) ?found (\<lambda>_. run_refused h0 e)"
    by (rule spec_weaken[OF inspect_machine_spec]) (auto simp: run_refused_def)
  have act: "spec (?found x) (case x of (port_no, expected, old, target) \<Rightarrow> if check_only then ret CheckPassed
      else seq (prepare_upgrade e old target) (transaction e old target port_no expected))
      (run_ended h0 e) (\<lambda>_. run_refused h0 e)" for x
  proof (cases x)
    case (fields port_no expected old target)
    show ?thesis unfolding fields prod.case by (intro spec_if spec_ret go) (simp add: run_ended_def)
  qed
  show ?thesis unfolding execute_def by (rule spec_andthen[OF look act])
qed

subsection \<open>When no call fails\<close>

definition reliable :: "upgrade_env \<Rightarrow> bool" where
  "reliable e \<longleftrightarrow> (\<forall>n. ue_outcome e n = Succeeds)"

definition never_throws :: "('s, 'a) comp \<Rightarrow> bool" where
  "never_throws m \<longleftrightarrow> (\<forall>s. \<exists>x s'. m s = (Inr x, s'))"

lemma total_rules [intro]: "never_throws (ret x)" "never_throws (asks g)"
  by (simp_all add: never_throws_def)

lemma total_andthen [intro]: "never_throws m \<Longrightarrow> (\<And>x. never_throws (k x)) \<Longrightarrow> never_throws (andthen m k)"
  unfolding never_throws_def andthen_def by (metis (mono_tags, lifting) old.sum.simps(6) prod.case)

lemma total_seq [intro]: "never_throws m \<Longrightarrow> never_throws n \<Longrightarrow> never_throws (seq m n)"
  unfolding seq_def by (rule total_andthen)

lemma total_if [intro]: "never_throws m \<Longrightarrow> never_throws n \<Longrightarrow> never_throws (if b then m else n)"
  by simp

lemma total_option [intro]: "never_throws m \<Longrightarrow> (\<And>x. never_throws (k x)) \<Longrightarrow> never_throws (case z of None \<Rightarrow> m | Some x \<Rightarrow> k x)"
  by (cases z) simp_all

lemma total_os: "reliable e \<Longrightarrow> never_throws (os_call e f)"
  by (auto simp: never_throws_def os_call_def reliable_def)

lemma total_stop: "reliable e \<Longrightarrow> never_throws (stop_service e n)"
  unfolding stop_service_def by (intro total_rules total_andthen total_seq total_if total_option total_os)

lemma total_remove: "reliable e \<Longrightarrow> never_throws (remove_service e n)"
  unfolding remove_service_def by (intro total_rules total_andthen total_seq total_if total_os total_stop)

lemma total_restore: "reliable e \<Longrightarrow> never_throws (restore_service e old)"
  unfolding restore_service_def configure_def Let_def
  by (intro total_rules total_andthen total_seq total_if total_os)

lemma total_spec: "never_throws m \<Longrightarrow> spec P m Q R \<Longrightarrow> spec P m Q R'"
  unfolding spec_def never_throws_def
proof (intro allI impI)
  fix s assume m: "\<forall>s. \<exists>x s'. m s = (Inr x, s')" and P: "P s"
    and q: "\<forall>s. P s \<longrightarrow> (case m s of (Inl f, s') \<Rightarrow> R f s' | (Inr x, s') \<Rightarrow> Q x s')"
  obtain x s' where "m s = (Inr x, s')" using m by blast
  then show "case m s of (Inl f, s') \<Rightarrow> R' f s' | (Inr x, s') \<Rightarrow> Q x s'" using q P by fastforce
qed

lemma rename_total:
  assumes "reliable e" and "\<And>h. P h \<Longrightarrow> ho_trees h a \<noteq> None \<and> ho_trees h b = None"
    and "\<And>h. P h \<Longrightarrow> Q () (put_tree a None (put_tree b (ho_trees h a) (tick h)))"
  shows "spec P (rename e a b) Q R"
  using assms by (auto simp: spec_def rename_def reliable_def)

lemma move_back_total:
  assumes "reliable e"
  shows "spec (\<lambda>h. stage m h0 e target t h \<and> settled h0 old h)
    (if m then seq (andthen (asks (\<lambda>h. ho_trees h target)) (\<lambda>there.
                     if there \<noteq> None then rename e target (failed_of e target) else ret ()))
                (rename e (backup_of e target) target)
     else ret ())
    (\<lambda>_ _. True) (\<lambda>_ _. False)"
proof (rule spec_if)
  assume m: "m"
  let ?away = "\<lambda>h. ho_trees h (backup_of e target) \<noteq> None \<and> ho_trees h (failed_of e target) = None"
  let ?mid = "\<lambda>h. ho_trees h (backup_of e target) \<noteq> None \<and> ho_trees h target = None"
  have clear: "spec ?away (andthen (asks (\<lambda>h. ho_trees h target)) (\<lambda>there.
      if there \<noteq> None then rename e target (failed_of e target) else ret ())) (\<lambda>_. ?mid) (\<lambda>_ _. False)"
  proof (rule spec_andthen)
    show "spec ?away (asks (\<lambda>h. ho_trees h target)) (\<lambda>there h. ?away h \<and> there = ho_trees h target) (\<lambda>_ _. False)"
      by (rule spec_asks) simp
    show "spec (\<lambda>h. ?away h \<and> there = ho_trees h target)
      (if there \<noteq> None then rename e target (failed_of e target) else ret ()) (\<lambda>_. ?mid) (\<lambda>_ _. False)" for there
      by (intro spec_if rename_total[OF assms] spec_ret) auto
  qed
  have return: "spec ?mid (rename e (backup_of e target) target) (\<lambda>_ _. True) (\<lambda>_ _. False)"
    by (rule rename_total[OF assms]) auto
  show "spec (\<lambda>h. stage m h0 e target t h \<and> settled h0 old h)
    (seq (andthen (asks (\<lambda>h. ho_trees h target)) (\<lambda>there. if there \<noteq> None then rename e target (failed_of e target) else ret ()))
      (rename e (backup_of e target) target)) (\<lambda>_ _. True) (\<lambda>_ _. False)"
    by (rule spec_pre[OF spec_seq[OF clear return]]) (use m in \<open>auto simp: stage_def away_def\<close>)
qed (rule spec_ret, simp)

lemma roll_back_total:
  assumes "reliable e" and old: "snapshot_of h0 old"
  shows "spec (broken_off h0 e old target t) (roll_back e old target) (\<lambda>r _. r = RolledBack) (\<lambda>_ _. False)"
proof -
  have stop: "spec (\<lambda>h. broken_off h0 e old target t h \<and> i = ho_installed h \<and> m = ho_moved h)
    (if i then seq (stop_service e native_name) (if sn_name old \<noteq> native_name then remove_service e native_name else ret ())
     else stop_service e (sn_name old))
    (\<lambda>_ h. stage m h0 e target t h \<and> settled h0 old h) (\<lambda>_ _. False)" for i m
    by (rule total_spec[OF _ stop_back_spec[OF old]])
      (intro total_if total_seq total_stop total_remove total_rules assms(1))
  have restore: "spec (\<lambda>_. True) (seq (restore_service e old) (ret RolledBack)) (\<lambda>r _. r = RolledBack) (\<lambda>_ _. False)"
  proof (rule spec_seq)
    have "spec (\<lambda>_. True) (restore_service e old) (\<lambda>_ _. True) (\<lambda>_ _. True)"
      by (auto simp: spec_def split: prod.split sum.split)
    then show "spec (\<lambda>_. True) (restore_service e old) (\<lambda>_ _. True) (\<lambda>_ _. False)"
      by (rule total_spec[OF total_restore[OF assms(1)]])
  qed (rule spec_ret, simp)
  show ?thesis
    unfolding roll_back_def
  proof (rule spec_andthen)
    show "spec (broken_off h0 e old target t) (asks ho_installed)
      (\<lambda>i h. broken_off h0 e old target t h \<and> i = ho_installed h) (\<lambda>_ _. False)"
      by (rule spec_asks) simp
    show "spec (\<lambda>h. broken_off h0 e old target t h \<and> i = ho_installed h) (andthen (asks ho_moved) (\<lambda>m.
       seq (if i then seq (stop_service e native_name) (if sn_name old \<noteq> native_name then remove_service e native_name else ret ())
            else stop_service e (sn_name old))
      (seq (if m then seq (andthen (asks (\<lambda>h. ho_trees h target)) (\<lambda>there.
                     if there \<noteq> None then rename e target (failed_of e target) else ret ()))
                (rename e (backup_of e target) target)
            else ret ())
        (seq (restore_service e old) (ret RolledBack))))) (\<lambda>r _. r = RolledBack) (\<lambda>_ _. False)" for i
    proof (rule spec_andthen)
      show "spec (\<lambda>h. broken_off h0 e old target t h \<and> i = ho_installed h) (asks ho_moved)
        (\<lambda>m h. broken_off h0 e old target t h \<and> i = ho_installed h \<and> m = ho_moved h) (\<lambda>_ _. False)"
        by (rule spec_asks) simp
    qed (rule spec_seq[OF stop spec_seq[OF move_back_total[OF assms(1)] restore]])
  qed
qed

subsection \<open>The copy is exact\<close>

lemma copy_items_exact:
  assumes "copy_items e p to items h = (Inr (), h')" and "ho_trees h to = Some done"
  shows "ho_trees h' to = Some (done @ items)"
  using assms
proof (induction items arbitrary: h "done")
  case Nil
  then show ?case by simp
next
  case (Cons x items)
  obtain names y where x: "x = (names, y)" by (cases x)
  from Cons.prems(1) obtain h1 where h1: "copy_items e p to items h1 = (Inr (), h')"
    and "ho_trees h1 to = Some (done @ [(names, y)])"
    using Cons.prems(2) unfolding x copy_items.simps
    by (cases y) (auto simp: comp_defs checks_def os_call_def add_entry_def require_def reject_if_def equal_file_same
        split: sum.splits prod.splits outcome.splits if_splits)
  then show ?case using Cons.IH[OF h1] x by simp
qed

section \<open>Properties\<close>

text \<open>A directory that was there is there at the end, in its place or as the backup of an upgrade.\<close>

definition still_there :: "upgrade_env \<Rightarrow> upgrade_host \<Rightarrow> upgrade_host \<Rightarrow> bool" where
  "still_there e h h' \<longleftrightarrow>
     (\<forall>p t. ho_trees h p = Some t \<longrightarrow> ho_trees h' p = Some t \<or> ho_trees h' (backup_of e p) = Some t)"

definition in_place :: "upgrade_host \<Rightarrow> upgrade_host \<Rightarrow> bool" where
  "in_place h h' \<longleftrightarrow> ho_services h' = ho_services h \<and> (\<forall>p t. ho_trees h p = Some t \<longrightarrow> ho_trees h' p = Some t)"

lemma staged_in_place: "staging h e target h' \<Longrightarrow> vacant h e target \<Longrightarrow> in_place h h'"
  unfolding staging_def vacant_def in_place_def by (metis option.distinct(1))

lemma others_there:
  assumes "others h e target h'" "vacant h e target" "ho_trees h p = Some t" "p \<noteq> target"
  shows "ho_trees h' p = Some t"
  using assms by (auto simp: others_def vacant_def)

lemma ended_safe:
  assumes "ho_trees h target = Some t" "vacant h e target" "outcome_ok h e target t port_no expected r h'"
  shows "still_there e h h'"
proof -
  have o: "others h e target h'" and t: "ho_trees h' target = Some t \<or> ho_trees h' (backup_of e target) = Some t"
    using assms(3) by (auto simp: outcome_ok_def state_defs split: upgrade_result.splits)
  show ?thesis
    unfolding still_there_def using others_there[OF o assms(2)] t assms(1) by (metis option.inject)
qed


text \<open>A small machine: an old native service in a directory with one file, and a package beside it.\<close>

definition example_old_config :: service_config where
  "example_old_config = \<lparr>sc_command = [1], sc_display = [2], sc_account = [3], sc_group = [], sc_dependencies = [0, 0],
     sc_type = 0x10, sc_start = 2, sc_error = 1, sc_delayed = False, sc_description = [4], sc_failures = [5], sc_failure_flag = True\<rparr>"

definition example_old :: service_snapshot where
  "example_old = \<lparr>sn_name = native_name, sn_config = example_old_config, sn_running = True, sn_kind = Native, sn_exe = [7, 8]\<rparr>"

definition example_host :: upgrade_host where
  "example_host = \<lparr>ho_trees = [[7] \<mapsto> [([[8]], Plain [1])], [9] \<mapsto> [([[8]], Plain [2])]],
     ho_services = [native_name \<mapsto> \<lparr>en_config = example_old_config, en_active = True\<rparr>],
     ho_calls = 0, ho_moved = False, ho_installed = False\<rparr>"

definition example_upgrade :: "(nat \<Rightarrow> outcome) \<Rightarrow> upgrade_env" where
  "example_upgrade outcome = \<lparr>ue_outcome = outcome, ue_system = [], ue_exit = \<lambda>_ _. 0, ue_admin = True, ue_lock = LockAcquired, ue_source = [9],
     ue_canonical = Some, ue_arguments = \<lambda>_. [], ue_paths = example_paths, ue_steady = \<lambda>_. True, ue_task_file = \<lambda>_. False,
     ue_suffix = [], ue_copied = \<lambda>_ b. b, ue_script = \<lambda>_ h. h, ue_rounds = []\<rparr>"

lemma example_script: "script_ok (example_upgrade outcome)"
  by (simp add: script_ok_def example_upgrade_def Let_def)

lemma example_complete: "services_complete example_host"
  by (simp add: services_complete_def example_host_def example_old_config_def)

lemma example_snapshot: "snapshot_of example_host example_old"
  by (simp add: snapshot_of_def example_host_def example_old_def)


text \<open>C7: A transaction whose own calls work ends with the new version verified or with the old directory, the
  old registration and the old running state back, whatever the child processes, the installation
  script and the new service answer; it never ends with a rollback that was given up.\<close>

theorem reliable_transaction:
  assumes "reliable e" "script_ok e" "snapshot_of h old" "sc_failures (sn_config old) \<noteq> []"
    and "ho_trees h target = Some t" "vacant h e target" "\<not> ho_moved h" "\<not> ho_installed h"
  shows "case transaction e old target port_no expected h of
      (Inr Upgraded, h') \<Rightarrow> ho_trees h' (backup_of e target) = Some t \<and> replaced e target port_no expected
    | (Inr RolledBack, h') \<Rightarrow> ho_trees h' target = Some t \<and> ho_services h' = ho_services h
    | _ \<Rightarrow> False"
proof -
  let ?P = "\<lambda>s. before h e target t s \<and> untouched h old s"
  have P: "?P h" using assms(5-8) by (auto simp: before_def others_def vacant_def untouched_def)
  have "spec ?P (transaction e old target port_no expected) (\<lambda>r _. r = Upgraded \<or> r = RolledBack) (\<lambda>_ _. False)"
    unfolding transaction_def
  proof (rule spec_catch)
    show "spec ?P (replace e old target port_no expected) (\<lambda>r _. r = Upgraded \<or> r = RolledBack) (\<lambda>_. broken_off h e old target t)"
      by (rule spec_weaken[OF replace_spec[OF assms(2,3)]]) auto
    show "spec (broken_off h e old target t) (catch (roll_back e old target) (\<lambda>_. ret RollbackFailed))
      (\<lambda>r _. r = Upgraded \<or> r = RolledBack) (\<lambda>_ _. False)"
      by (rule spec_catch[OF spec_weaken[OF roll_back_total[OF assms(1,3)]] spec_false]) auto
  qed
  from spec_conj[OF this transaction_spec[OF assms(2-4)], THEN specD, OF P] show ?thesis
    by (auto simp: outcome_ok_def state_defs split: prod.split sum.split upgrade_result.split)
qed

theorem reliable_transaction_witness:
  "\<exists>h'. fst (transaction (example_upgrade (\<lambda>_. Succeeds)) example_old [7] 1 ''v'' example_host) = Inr RolledBack \<and>
     snd (transaction (example_upgrade (\<lambda>_. Succeeds)) example_old [7] 1 ''v'' example_host) = h' \<and>
     ho_trees h' [7] = Some [([[8]], Plain [1])]"
proof -
  let ?e = "example_upgrade (\<lambda>_. Succeeds)"
  have f: "\<not> replaced ?e [7] 1 ''v''" by (simp add: replaced_def example_upgrade_def)
  have "vacant example_host ?e [7]"
    by (simp add: vacant_def example_host_def backup_of_def staged_of_def failed_of_def example_upgrade_def wide_text_def)
  then have "case transaction ?e example_old [7] 1 ''v'' example_host of
      (Inr Upgraded, h') \<Rightarrow> ho_trees h' (backup_of ?e [7]) = Some [([[8]], Plain [1])] \<and> replaced ?e [7] 1 ''v''
    | (Inr RolledBack, h') \<Rightarrow> ho_trees h' [7] = Some [([[8]], Plain [1])] \<and> ho_services h' = ho_services example_host
    | _ \<Rightarrow> False"
    using example_script example_snapshot
    by (intro reliable_transaction) (simp_all add: reliable_def example_upgrade_def example_host_def example_old_def example_old_config_def)
  then show ?thesis using f by (auto split: prod.splits sum.splits upgrade_result.splits)
qed

text \<open>The copy that replaces the installation is the package: if copying succeeds, the staged directory has
  exactly the package's entries and contents, whatever the disk did on the way, because every file is
  compared with its source.\<close>

theorem staged_copy_exact:
  assumes "copy_all e p to h = (Inr (), h')" and "ho_trees h p = Some items"
  shows "ho_trees h' to = Some items"
proof -
  obtain h1 where "copy_items e p to items h1 = (Inr (), h')" "ho_trees h1 to = Some []"
    using assms by (auto simp: copy_all_def comp_defs checks_def os_call_def require_def reject_if_def
        split: sum.splits prod.splits outcome.splits if_splits)
  then show ?thesis using copy_items_exact by fastforce
qed

theorem staged_copy_exact_witness:
  "ho_trees (snd (copy_all (example_upgrade (\<lambda>_. Succeeds)) [9] [10] example_host)) [10] = Some [([[8]], Plain [2])]"
proof (rule staged_copy_exact)
  show "copy_all (example_upgrade (\<lambda>_. Succeeds)) [9] [10] example_host =
    (Inr (), snd (copy_all (example_upgrade (\<lambda>_. Succeeds)) [9] [10] example_host))"
    by (simp add: copy_all_def comp_defs checks_def os_call_def require_def example_upgrade_def example_host_def
        no_links_def example_paths_def equal_file_same tick_def put_tree_def)
  show "ho_trees example_host [9] = Some [([[8]], Plain [2])]" by (simp add: example_host_def)
qed

end
