(* ===== verification/Daily_Log.thy ===== *)
theory Daily_Log
  imports Cpp_String "HOL-Library.Word"
begin

text \<open>
  \<open>DailyLogWriter\<close>: one log file per day, named by its date, and the removal of old ones.  Dates are
  ordered as a calendar orders them; the names are compared as text.
\<close>

section \<open>Dates\<close>

datatype date = Date (date_year: nat) (date_month: nat) (date_day: nat)

instantiation date :: linorder
begin

definition less_eq_date :: "date \<Rightarrow> date \<Rightarrow> bool" where
  "less_eq_date a b \<longleftrightarrow> date_year a < date_year b \<or> date_year a = date_year b \<and>
     (date_month a < date_month b \<or> date_month a = date_month b \<and> date_day a \<le> date_day b)"

definition less_date :: "date \<Rightarrow> date \<Rightarrow> bool" where
  "less_date a b \<longleftrightarrow> a \<le> b \<and> \<not> b \<le> (a :: date)"

instance
  by standard (auto simp: less_eq_date_def less_date_def intro: date.expand)

end

lemma less_date_eq:
  "Date y m d < Date y' m' d' \<longleftrightarrow> y < y' \<or> y = y' \<and> (m < m' \<or> m = m' \<and> d < d')"
  by (auto simp: less_date_def less_eq_date_def)

definition leap_year :: "nat \<Rightarrow> bool" where
  "leap_year y \<longleftrightarrow> y mod 4 = 0 \<and> (y mod 100 \<noteq> 0 \<or> y mod 400 = 0)"

definition month_days :: "nat \<Rightarrow> nat \<Rightarrow> nat" where
  "month_days y m = (if m \<in> {4, 6, 9, 11} then 30 else if m = 2 then (if leap_year y then 29 else 28) else 31)"

definition date_ok :: "date \<Rightarrow> bool" where
  "date_ok d \<longleftrightarrow> date_year d < 10000 \<and> 1 \<le> date_month d \<and> date_month d \<le> 12 \<and>
     1 \<le> date_day d \<and> date_day d \<le> month_days (date_year d) (date_month d)"

fun day_before :: "date \<Rightarrow> date" where
  "day_before (Date y m d) =
     (if d > 1 then Date y m (d - 1)
      else if m > 1 then Date y (m - 1) (month_days y (m - 1))
      else Date (y - 1) 12 31)"

section \<open>The code\<close>

text \<open>\<open>std::put_time\<close> with \<open>%F\<close>.\<close>

definition padded :: "nat \<Rightarrow> nat \<Rightarrow> string" where
  "padded k n = replicate (k - length (show_nat n)) (CHR ''0'') @ show_nat n"

definition day_text :: "date \<Rightarrow> string" where
  "day_text d = padded 4 (date_year d) @ ''-'' @ padded 2 (date_month d) @ ''-'' @ padded 2 (date_day d)"

text \<open>The C library's view of the local time: the date of a second, and \<open>mktime\<close> of a noon whose day of
  the month may be far below one.\<close>

record clock =
  cl_date :: "int \<Rightarrow> date"
  cl_noon :: "date \<Rightarrow> int \<Rightarrow> int"
  cl_time :: "int \<Rightarrow> nat \<times> nat \<times> nat"

definition day_key :: "clock \<Rightarrow> int \<Rightarrow> string" where
  "day_key c now = day_text (cl_date c now)"

definition is_daily_log_name :: "string \<Rightarrow> bool" where
  "is_daily_log_name name \<longleftrightarrow> length name = 14 \<and> drop 10 name = ''.log'' \<and> name ! 4 = CHR ''-'' \<and> name ! 7 = CHR ''-'' \<and>
     list_all (\<lambda>i. i = 4 \<or> i = 7 \<or> is_digit (name ! i)) [0..<10]"

text \<open>A directory entry: its name, whether it is a regular file, and how long ago it was written, in
  seconds; \<open>None\<close> when the time cannot be read.\<close>

record log_entry =
  le_name :: string
  le_regular :: bool
  le_age :: "int option"
  le_removable :: bool   \<comment> \<open>the iteration reaches it and it can be deleted\<close>

definition has_log_extension :: "string \<Rightarrow> bool" where
  "has_log_extension name \<longleftrightarrow> length name > 4 \<and> drop (length name - 4) name = ''.log''"

text \<open>\<open>24 * retention_days_\<close> is an \<open>int\<close>.\<close>

definition retention_hours :: "int \<Rightarrow> int" where
  "retention_hours days = sint (word_of_int (24 * days) :: 32 word)"

definition expired :: "int \<Rightarrow> string \<Rightarrow> log_entry \<Rightarrow> bool" where
  "expired days cutoff f \<longleftrightarrow>
     (is_daily_log_name (le_name f) \<and> take 10 (le_name f) < cutoff) \<or>
     (\<not> is_daily_log_name (le_name f) \<and>
        (case le_age f of None \<Rightarrow> False | Some age \<Rightarrow> age > retention_hours days * 3600))"

definition cutoff_date :: "clock \<Rightarrow> int \<Rightarrow> int \<Rightarrow> string" where
  "cutoff_date c days now = day_key c (cl_noon c (cl_date c now) days)"

definition cleanup_logs :: "clock \<Rightarrow> int \<Rightarrow> int \<Rightarrow> log_entry list \<Rightarrow> log_entry list" where
  "cleanup_logs c days now entries =
     filter (\<lambda>f. \<not> (le_removable f \<and> le_regular f \<and> has_log_extension (le_name f) \<and> expired days (cutoff_date c days now) f)) entries"

record log_writer =
  lw_days :: int
  lw_cleaned :: string         \<comment> \<open>\<open>last_cleanup_date_\<close>\<close>
  lw_entries :: "log_entry list"
  lw_lines :: "(string \<times> string) list"    \<comment> \<open>file and line, in the order written\<close>

definition new_log_writer :: "clock \<Rightarrow> int \<Rightarrow> int \<Rightarrow> log_entry list \<Rightarrow> log_writer" where
  "new_log_writer c days now entries =
     (let days = (if days < 1 then 30 else days)
      in \<lparr>lw_days = days, lw_cleaned = day_key c now, lw_entries = cleanup_logs c days now entries, lw_lines = []\<rparr>)"

definition open_log :: "string \<Rightarrow> log_entry list \<Rightarrow> log_entry list" where
  "open_log name entries =
     (if list_ex (\<lambda>f. le_name f = name) entries then entries
      else entries @ [\<lparr>le_name = name, le_regular = True, le_age = Some 0, le_removable = True\<rparr>])"

definition write_log :: "clock \<Rightarrow> bool \<Rightarrow> string \<Rightarrow> int \<Rightarrow> log_writer \<Rightarrow> log_writer" where
  "write_log c opened line now w =
     (let date = day_key c now;
          w = (if date \<noteq> lw_cleaned w
               then w\<lparr>lw_entries := cleanup_logs c (lw_days w) now (lw_entries w), lw_cleaned := date\<rparr> else w)
      in if opened
         then w\<lparr>lw_entries := open_log (date @ ''.log'') (lw_entries w), lw_lines := lw_lines w @ [(date @ ''.log'', line)]\<rparr>
         else w)"

text \<open>\<open>log_line\<close>: the level's name in UTF-8; the line goes to the standard error and to the day's file once
  there is a writer.\<close>

definition level_name :: "string \<Rightarrow> string" where
  "level_name level =
     map char_of (if level = ''WARN'' then [0xE8, 0xAD, 0xA6, 0xE5, 0x91, 0x8A :: nat]
       else if level = ''ERROR'' then [0xE9, 0x94, 0x99, 0xE8, 0xAF, 0xAF] else [0xE4, 0xBF, 0xA1, 0xE6, 0x81, 0xAF])"

definition time_text :: "nat \<times> nat \<times> nat \<Rightarrow> string" where
  "time_text t = (case t of (h, m, s) \<Rightarrow> padded 2 h @ '':'' @ padded 2 m @ '':'' @ padded 2 s)"

definition stamped_line :: "clock \<Rightarrow> string \<Rightarrow> string \<Rightarrow> int \<Rightarrow> string" where
  "stamped_line c level message now =
     day_text (cl_date c now) @ '' '' @ time_text (cl_time c now) @ '' ['' @ level_name level @ ''] '' @ message"

definition log_line :: "clock \<Rightarrow> bool \<Rightarrow> string \<Rightarrow> string \<Rightarrow> int \<Rightarrow> string list \<times> log_writer option \<Rightarrow> string list \<times> log_writer option" where
  "log_line c opened level message now s =
     (case s of (errors, w) \<Rightarrow>
        (errors @ [stamped_line c level message now],
         map_option (write_log c opened (stamped_line c level message now) now) w))"

text \<open>\<open>unix_to_nvr_time\<close>: a recorder reads the local time of the bridge.\<close>

record nvr_time =
  dwYear :: "32 word"
  dwMonth :: "32 word"
  dwDay :: "32 word"
  dwHour :: "32 word"
  dwMinute :: "32 word"
  dwSecond :: "32 word"

definition unix_to_nvr_time :: "clock \<Rightarrow> int \<Rightarrow> nvr_time" where
  "unix_to_nvr_time c seconds =
     (case cl_time c seconds of (h, m, s) \<Rightarrow>
        \<lparr>dwYear = word_of_nat (date_year (cl_date c seconds)), dwMonth = word_of_nat (date_month (cl_date c seconds)),
         dwDay = word_of_nat (date_day (cl_date c seconds)), dwHour = word_of_nat h, dwMinute = word_of_nat m,
         dwSecond = word_of_nat s\<rparr>)"

section \<open>Names in the order of dates\<close>

lemma month_days_bound: "28 \<le> month_days y m \<and> month_days y m \<le> 31"
  by (simp add: month_days_def)

lemma day_before_less: "date_ok d \<Longrightarrow> 0 < date_year d \<Longrightarrow> day_before d < d"
  by (cases d) (auto simp: less_date_eq date_ok_def)

lemma day_before_ok: "date_ok d \<Longrightarrow> 0 < date_year d \<Longrightarrow> date_ok (day_before d)"
proof (cases d)
  case (Date y m k)
  assume ok: "date_ok d" "0 < date_year d"
  consider "k > 1" | "\<not> k > 1" "m > 1" | "\<not> k > 1" "\<not> m > 1" by blast
  then show ?thesis
  proof cases
    case 1
    then show ?thesis using ok by (auto simp: Date date_ok_def)
  next
    case 2
    then show ?thesis using ok month_days_bound[of y "m - 1"] by (auto simp: Date date_ok_def)
  next
    case 3
    then have "m = 1" using ok by (simp add: Date date_ok_def)
    then have "day_before d = Date (y - 1) 12 31" using 3 by (simp add: Date)
    moreover have "y - 1 < 10000" using ok by (auto simp: Date date_ok_def)
    ultimately show ?thesis by (simp add: date_ok_def month_days_def)
  qed
qed

lemma digit_less: "a < 10 \<Longrightarrow> b < 10 \<Longrightarrow> digit a < digit b \<longleftrightarrow> a < b"
  by (simp add: less_char_def)

lemma digit_inject: "a < 10 \<Longrightarrow> b < 10 \<Longrightarrow> digit a = digit b \<longleftrightarrow> a = b"
  by (metis byte_digit add_left_cancel)

lemma padded_Suc:
  assumes "0 < k"
  shows "padded (Suc k) n = padded k (n div 10) @ [digit (n mod 10)]"
proof (cases "n < 10")
  case True
  have zero: "show_nat 0 = [CHR ''0'']" by code_simp
  have "show_nat n = [digit n]" using True by (simp add: show_nat.simps[of n])
  moreover have "padded k 0 = replicate k (CHR ''0'')"
    using assms by (cases k) (simp_all add: padded_def zero replicate_append_same)
  ultimately show ?thesis using True by (simp add: padded_def)
next
  case False
  then show ?thesis by (simp add: padded_def show_nat.simps[of n])
qed

lemma padded_1: "n < 10 \<Longrightarrow> padded (Suc 0) n = [digit n]"
  by (simp add: padded_def show_nat.simps[of n])

lemma padded_induct:
  assumes "n < 10 ^ Suc k"
  shows "length (padded (Suc k) n) = Suc k \<and> list_all is_digit (padded (Suc k) n)"
  using assms
proof (induction k arbitrary: n)
  case 0
  then show ?case by (simp add: padded_1)
next
  case (Suc k)
  have "n div 10 < 10 ^ Suc k" using Suc.prems by (simp add: less_mult_imp_div_less)
  then show ?case using Suc.IH[of "n div 10"] by (simp add: padded_Suc)
qed

lemma append_less:
  fixes x y u v :: string
  shows "length x = length y \<Longrightarrow> x @ u < y @ v \<longleftrightarrow> x < y \<or> x = y \<and> u < v"
proof (induction x y rule: list_induct2)
  case (Cons a x b y)
  show ?case
    by (cases "a = b") (simp_all only: append_Cons Cons_less_Cons Cons.IH list.inject simp_thms disj_assoc)
qed simp

lemma div_mod_less: "(n :: nat) < m \<longleftrightarrow> n div 10 < m div 10 \<or> n div 10 = m div 10 \<and> n mod 10 < m mod 10"
proof -
  have "10 * q + r < 10 * q' + r' \<longleftrightarrow> q < q' \<or> q = q' \<and> r < r'" if "r < 10" "r' < 10" for q r q' r' :: nat
    using that by arith
  from this[of "n mod 10" "m mod 10" "n div 10" "m div 10"] show ?thesis by simp
qed

lemma padded_less:
  assumes "n < 10 ^ Suc k" "m < 10 ^ Suc k"
  shows "padded (Suc k) n < padded (Suc k) m \<longleftrightarrow> n < m"
  using assms
proof (induction k arbitrary: n m)
  case 0
  then show ?case by (simp add: padded_1 digit_less)
next
  case (Suc k)
  have b: "n div 10 < 10 ^ Suc k" "m div 10 < 10 ^ Suc k" using Suc.prems by (simp_all add: less_mult_imp_div_less)
  note less = Suc.IH[OF b] Suc.IH[OF b(2,1)]
  have same: "padded (Suc k) (n div 10) = padded (Suc k) (m div 10) \<longleftrightarrow> n div 10 = m div 10"
    using less by (metis linorder_neq_iff)
  show ?case
    using less same padded_induct[OF b(1)] padded_induct[OF b(2)]
    by (simp add: padded_Suc append_less digit_less flip: div_mod_less)
qed

lemma padded_inject:
  "n < 10 ^ Suc k \<Longrightarrow> m < 10 ^ Suc k \<Longrightarrow> padded (Suc k) n = padded (Suc k) m \<longleftrightarrow> n = m"
  using padded_less[of n k m] padded_less[of m k n] by (metis linorder_neq_iff)

lemma padded4:
  assumes "n < 10000" "m < 10000"
  shows "padded 4 n < padded 4 m \<longleftrightarrow> n < m" "padded 4 n = padded 4 m \<longleftrightarrow> n = m" "length (padded 4 n) = 4"
    "list_all is_digit (padded 4 n)"
  using padded_less[of n 3 m] padded_inject[of n 3 m] padded_induct[of n 3] assms by simp_all

lemma padded2:
  assumes "n < 100" "m < 100"
  shows "padded 2 n < padded 2 m \<longleftrightarrow> n < m" "padded 2 n = padded 2 m \<longleftrightarrow> n = m" "length (padded 2 n) = 2"
    "list_all is_digit (padded 2 n)"
  using padded_less[of n 1 m] padded_inject[of n 1 m] padded_induct[of n 1] assms by (simp_all add: numeral_2_eq_2)

lemma date_bounds: "date_ok d \<Longrightarrow> date_year d < 10000 \<and> date_month d < 100 \<and> date_day d < 100"
  using month_days_bound[of "date_year d" "date_month d"] by (auto simp: date_ok_def)

lemma texts_less:
  assumes "length x = length x'" "length y = length y'"
  shows "x @ ''-'' @ y @ ''-'' @ z < x' @ ''-'' @ y' @ ''-'' @ z' \<longleftrightarrow>
    x < x' \<or> x = x' \<and> (y < y' \<or> y = y' \<and> z < (z' :: string))"
  by (simp add: append_less[OF assms(1)] append_less[OF assms(2)])

lemma day_text_less:
  assumes "date_ok a" "date_ok b"
  shows "day_text a < day_text b \<longleftrightarrow> a < b"
proof -
  note bounds = date_bounds[OF assms(1)] date_bounds[OF assms(2)]
  have y: "date_year a < 10000" "date_year b < 10000" and m: "date_month a < 100" "date_month b < 100"
    and d: "date_day a < 100" "date_day b < 100" using bounds by simp_all
  have "length (padded 4 (date_year a)) = length (padded 4 (date_year b))"
    "length (padded 2 (date_month a)) = length (padded 2 (date_month b))"
    using padded4(3)[OF y] padded4(3)[OF y(2,1)] padded2(3)[OF m] padded2(3)[OF m(2,1)] by simp_all
  then show ?thesis
    unfolding day_text_def
    by (simp only: texts_less padded4(1,2)[OF y] padded2(1,2)[OF m] padded2(1)[OF d])
      (cases a; cases b; simp add: less_date_eq)
qed

lemma day_text_shape:
  assumes "date_ok d"
  shows "length (day_text d) = 10 \<and> is_daily_log_name (day_text d @ ''.log'')"
proof -
  have b: "date_year d < 10000" "date_month d < 100" "date_day d < 100" using date_bounds[OF assms] by simp_all
  obtain y1 y2 y3 y4 where y: "padded 4 (date_year d) = [y1, y2, y3, y4]"
    using padded4(3)[OF b(1,1)] by (auto simp: length_Suc_conv numeral_eq_Suc)
  obtain m1 m2 where m: "padded 2 (date_month d) = [m1, m2]"
    using padded2(3)[OF b(2,2)] by (auto simp: length_Suc_conv numeral_eq_Suc)
  obtain d1 d2 where k: "padded 2 (date_day d) = [d1, d2]"
    using padded2(3)[OF b(3,3)] by (auto simp: length_Suc_conv numeral_eq_Suc)
  show ?thesis
    using padded4(4)[OF b(1,1)] padded2(4)[OF b(2,2)] padded2(4)[OF b(3,3)] unfolding y m k
    by (simp add: day_text_def is_daily_log_name_def y m k upt_rec)
qed

section \<open>Which logs are deleted\<close>

text \<open>What the C library promises: the noon \<open>days\<close> days back falls on the date the calendar gives.\<close>

definition clock_ok :: "clock \<Rightarrow> int \<Rightarrow> int \<Rightarrow> bool" where
  "clock_ok c days now \<longleftrightarrow> date_ok (cl_date c now) \<and> nat days < date_year (cl_date c now) \<and>
     cl_date c (cl_noon c (cl_date c now) days) = (day_before ^^ nat days) (cl_date c now)"

lemma day_before_year: "date_year d \<le> Suc (date_year (day_before d))"
  by (cases d) auto

lemma days_before:
  assumes "date_ok d" "k < date_year d"
  shows "date_ok ((day_before ^^ k) d) \<and> date_year d \<le> date_year ((day_before ^^ k) d) + k \<and>
    (day_before ^^ k) d \<le> d"
  using assms
proof (induction k)
  case 0
  then show ?case by simp
next
  case (Suc k)
  let ?e = "(day_before ^^ k) d"
  have e: "date_ok ?e" "date_year d \<le> date_year ?e + k" "?e \<le> d" using Suc by simp_all
  then have "0 < date_year ?e" using Suc.prems by linarith
  then have "date_ok (day_before ?e)" "day_before ?e < ?e" using e(1) by (simp_all add: day_before_ok day_before_less)
  then show ?case using e day_before_year[of ?e] by (auto intro: less_imp_le less_le_trans)
qed

lemma expired_daily:
  assumes "clock_ok c days now" "date_ok d" "le_name f = day_text d @ ''.log''"
  shows "expired days (cutoff_date c days now) f \<longleftrightarrow> d < (day_before ^^ nat days) (cl_date c now)"
proof -
  have "date_ok ((day_before ^^ nat days) (cl_date c now))"
    using assms(1) days_before[of "cl_date c now" "nat days"] by (simp add: clock_ok_def)
  moreover have "cutoff_date c days now = day_text ((day_before ^^ nat days) (cl_date c now))"
    using assms(1) by (simp add: cutoff_date_def day_key_def clock_ok_def)
  moreover have "take 10 (le_name f) = day_text d" using day_text_shape[OF assms(2)] assms(3) by simp
  moreover have "is_daily_log_name (le_name f)" using day_text_shape[OF assms(2)] assms(3) by simp
  ultimately show ?thesis using day_text_less[OF assms(2)] by (simp add: expired_def)
qed

lemma daily_extension: "date_ok d \<Longrightarrow> has_log_extension (day_text d @ ''.log'')"
  using day_text_shape[of d] by (simp add: has_log_extension_def)

lemma cleanup_daily:
  assumes "clock_ok c days now" "date_ok d" "le_name f = day_text d @ ''.log''" "f \<in> set entries"
  shows "f \<in> set (cleanup_logs c days now entries) \<longleftrightarrow>
    \<not> (le_removable f \<and> le_regular f \<and> d < (day_before ^^ nat days) (cl_date c now))"
  using assms by (simp add: cleanup_logs_def expired_daily daily_extension)

lemma open_log_keeps: "f \<in> set entries \<Longrightarrow> f \<in> set (open_log name entries)"
  by (simp add: open_log_def)

text \<open>Starting the log and writing lines, in any order of times.\<close>

definition log_run :: "clock \<Rightarrow> int \<Rightarrow> int \<Rightarrow> log_entry list \<Rightarrow> (bool \<times> string \<times> int) list \<Rightarrow> log_writer" where
  "log_run c days now entries lines =
     fold (\<lambda>(opened, line, at_time). write_log c opened line at_time) lines (new_log_writer c days now entries)"

lemma write_log_days: "lw_days (write_log c opened line now w) = lw_days w"
  by (simp add: write_log_def Let_def)

lemma write_log_keeps:
  assumes "clock_ok c (lw_days w) now" "date_ok d" "le_name f = day_text d @ ''.log''"
    "(day_before ^^ nat (lw_days w)) (cl_date c now) \<le> d" "f \<in> set (lw_entries w)"
  shows "f \<in> set (lw_entries (write_log c opened line now w))"
  using assms by (simp add: write_log_def Let_def open_log_keeps cleanup_daily not_less)

lemma fold_write_keeps:
  assumes "date_ok d" "le_name f = day_text d @ ''.log''" "f \<in> set (lw_entries w)"
    "\<And>opened line t. (opened, line, t) \<in> set ls \<Longrightarrow>
      clock_ok c (lw_days w) t \<and> (day_before ^^ nat (lw_days w)) (cl_date c t) \<le> d"
  shows "f \<in> set (lw_entries (fold (\<lambda>(opened, line, t). write_log c opened line t) ls w))"
  using assms(3,4)
proof (induction ls arbitrary: w)
  case Nil
  then show ?case by simp
next
  case (Cons l ls)
  obtain opened line t where l: "l = (opened, line, t)" by (cases l)
  have "f \<in> set (lw_entries (write_log c opened line t w))"
    using Cons.prems l by (intro write_log_keeps[OF _ assms(1,2)]) auto
  moreover have "clock_ok c (lw_days (write_log c opened line t w)) t' \<and>
      (day_before ^^ nat (lw_days (write_log c opened line t w))) (cl_date c t') \<le> d"
    if "(opened', line', t') \<in> set ls" for opened' line' t'
    using Cons.prems(2)[of opened' line' t'] that by (simp add: write_log_days)
  ultimately have "f \<in> set (lw_entries (fold (\<lambda>(opened, line, t). write_log c opened line t) ls
      (write_log c opened line t w)))" by (rule Cons.IH)
  then show ?case by (simp add: l)
qed

text \<open>A daily log is deleted at a cleanup exactly when its date lies more than the retention days before
  today; leap years and month ends included.\<close>

theorem daily_logs_expire:
  assumes "clock_ok c days now" "0 < days" "date_ok d" "le_name f = day_text d @ ''.log''" "f \<in> set entries"
    "le_regular f" "le_removable f"
  shows "f \<in> set (lw_entries (new_log_writer c days now entries)) \<longleftrightarrow>
    (day_before ^^ nat days) (cl_date c now) \<le> d"
  using assms by (simp add: new_log_writer_def Let_def cleanup_daily not_less)

definition leap_clock :: clock where
  "leap_clock = \<lparr>cl_date = (\<lambda>t. if t = 0 then Date 2024 2 28 else Date 2024 3 1), cl_noon = (\<lambda>_ _. 0), cl_time = (\<lambda>_. (8, 5, 9))\<rparr>"

lemma leap_clock_ok: "clock_ok leap_clock 2 7"
  by (simp add: clock_ok_def leap_clock_def date_ok_def month_days_def leap_year_def numeral_2_eq_2)

definition log_of :: "date \<Rightarrow> log_entry" where
  "log_of d = \<lparr>le_name = day_text d @ ''.log'', le_regular = True, le_age = None, le_removable = True\<rparr>"

theorem daily_logs_expire_witness:
  "log_of (Date 2024 2 27) \<notin> set (lw_entries (new_log_writer leap_clock 2 7 [log_of (Date 2024 2 27)])) \<and>
   log_of (Date 2024 2 28) \<in> set (lw_entries (new_log_writer leap_clock 2 7 [log_of (Date 2024 2 28)]))"
  using daily_logs_expire[OF leap_clock_ok, of "Date 2024 2 27" "log_of (Date 2024 2 27)" "[log_of (Date 2024 2 27)]"]
    daily_logs_expire[OF leap_clock_ok, of "Date 2024 2 28" "log_of (Date 2024 2 28)" "[log_of (Date 2024 2 28)]"]
  by (simp add: log_of_def leap_clock_def date_ok_def month_days_def leap_year_def numeral_2_eq_2 less_eq_date_def)

text \<open>C34: A log of a day inside the retention period survives the start of the log and every line written after
  it, whatever days the lines are written on and however often the cleanup runs.\<close>

theorem recent_logs_survive:
  assumes "0 < days" "date_ok d" "le_name f = day_text d @ ''.log''" "f \<in> set entries"
    "\<forall>t \<in> set (now # map (\<lambda>(_, _, t). t) lines). clock_ok c days t \<and> (day_before ^^ nat days) (cl_date c t) \<le> d"
  shows "f \<in> set (lw_entries (log_run c days now entries lines))"
proof -
  have days: "lw_days (new_log_writer c days now entries) = days"
    using assms(1) by (simp add: new_log_writer_def Let_def)
  have "f \<in> set (lw_entries (new_log_writer c days now entries))"
    using assms by (simp add: new_log_writer_def Let_def cleanup_daily not_less)
  then show ?thesis
    unfolding log_run_def using assms(5) by (intro fold_write_keeps[OF assms(2,3)]) (force simp: days)+
qed

theorem recent_logs_survive_witness:
  "log_of (Date 2024 2 29) \<in> set (lw_entries (log_run leap_clock 2 7 [log_of (Date 2024 2 29)] [(True, ''a'', 7), (True, ''b'', 8)]))"
  using recent_logs_survive[of 2 "Date 2024 2 29" "log_of (Date 2024 2 29)" "[log_of (Date 2024 2 29)]" 7
      "[(True, ''a'', 7), (True, ''b'', 8)]" leap_clock]
  by (simp add: log_of_def clock_ok_def leap_clock_def date_ok_def month_days_def leap_year_def numeral_2_eq_2
      less_eq_date_def)

text \<open>With a retention of 89478486 days the hours wrap below zero, and a log that is not a daily one is
  deleted however new it is.\<close>

lemma retention_overflow: "retention_hours 89478486 = - 2147483632"
  by (simp add: retention_hours_def)

lemma retention_overflow_deletes:
  assumes "\<not> is_daily_log_name (le_name f)" "le_age f = Some age" "0 \<le> age"
  shows "expired 89478486 cutoff f"
  using assms by (simp add: expired_def retention_overflow)

section \<open>Lines and files\<close>

text \<open>Every line is in the file of the day its own time stamp names.\<close>

definition filed :: "log_writer \<Rightarrow> bool" where
  "filed w \<longleftrightarrow> (\<forall>(name, line)\<in>set (lw_lines w). name = take 10 line @ ''.log'')"

lemma log_line_filed:
  assumes "date_ok (cl_date c now)" "filed w"
  shows "\<forall>v\<in>set_option (snd (log_line c opened level message now (errors, Some w))). filed v"
  using assms day_text_shape[OF assms(1)]
  by (auto simp: log_line_def write_log_def Let_def filed_def stamped_line_def day_key_def)

end
