(* ===== verification/Windows_Process.thy ===== *)
theory Windows_Process
  imports Ffmpeg_Process Win_Quote
begin

text \<open>
  The processes the bridge starts on Windows: \<open>run_windows_process\<close>, which runs FFmpeg for its answers,
  and the Windows branches of \<open>FfmpegProcess\<close>.  Handles are integers, the null handle is zero; what the
  system calls answer are arguments, and the bytes in a pipe are a list the child appends to.
\<close>

section \<open>Handles\<close>

datatype win_call =
    OpenHandle int
  | CloseHandle int
  | LaunchChild int wide "int list option"   \<comment> \<open>process, command line, the handles it may inherit (\<open>None\<close>: all)\<close>
  | TerminateChild int
  | AwaitChild int                           \<comment> \<open>a wait that has seen the process end\<close>

text \<open>
  The handles a trace leaves open and the child nobody has waited for; \<open>None\<close> is a violation: a handle
  closed that is not open, a second child, the handle of a running child closed, a child terminated or
  waited for through a handle that is not open.
\<close>

fun track_win :: "int multiset \<times> int option \<Rightarrow> win_call list \<Rightarrow> (int multiset \<times> int option) option" where
  "track_win o' [] = Some o'"
| "track_win (hs, child) (OpenHandle h # cs) = track_win (add_mset h hs, child) cs"
| "track_win (hs, child) (CloseHandle h # cs) =
     (if h \<in># hs \<and> (child = Some h \<longrightarrow> h \<in># hs - {#h#}) then track_win (hs - {#h#}, child) cs else None)"
| "track_win (hs, child) (LaunchChild h _ _ # cs) =
     (if child = None then track_win (add_mset h hs, Some h) cs else None)"
| "track_win (hs, child) (TerminateChild h # cs) = (if h \<in># hs then track_win (hs, child) cs else None)"
| "track_win (hs, child) (AwaitChild h # cs) = (if h \<in># hs then track_win (hs, None) cs else None)"

lemma track_win_append: "track_win o' (cs @ ds) = Option.bind (track_win o' cs) (\<lambda>o'. track_win o' ds)"
  by (induction o' cs rule: track_win.induct) auto

definition close_handles :: "int list \<Rightarrow> win_call list" where
  "close_handles hs = map CloseHandle (filter (\<lambda>h. h \<noteq> 0) hs)"

lemma close_handles_simps [simp]:
  "close_handles [] = []"
  "close_handles (h # hs) = (if h \<noteq> 0 then [CloseHandle h] else []) @ close_handles hs"
  by (simp_all add: close_handles_def)

section \<open>A run for its output\<close>

text \<open>A round of the loop: what the child has written before the peek, whether peek and read work, what it
  writes behind them, whether it has exited, and whether the deadline has passed.\<close>

record output_wait =
  wr_before :: string
  wr_peek :: bool
  wr_read :: bool
  wr_after :: string
  wr_exited :: bool
  wr_deadline :: bool

definition output_buffer :: nat where
  "output_buffer = 4096"

text \<open>The body of the loop up to the wait: the output so far, and what is left in the pipe.\<close>

definition collect_round :: "output_wait \<Rightarrow> string \<Rightarrow> string \<Rightarrow> string \<times> string" where
  "collect_round r pipe got =
     (let pipe = pipe @ wr_before r;
          n = (if wr_peek r \<and> pipe \<noteq> [] \<and> wr_read r then min output_buffer (length pipe) else 0)
      in (got @ take n pipe, drop n pipe @ wr_after r))"

text \<open>Whether the run timed out, with the output and the pipe.\<close>

fun collect :: "output_wait list \<Rightarrow> string \<times> string \<Rightarrow> (bool \<times> string \<times> string) option" where
  "collect [] s = None"
| "collect (r # rs) (got, pipe) =
     (if wr_exited r then Some (False, collect_round r pipe got)
      else if wr_deadline r then Some (True, collect_round r pipe got)
      else collect rs (collect_round r pipe got))"

text \<open>Reading to the end of the pipe; the argument is how many reads succeed.\<close>

fun drain_pipe :: "nat \<Rightarrow> string \<Rightarrow> string" where
  "drain_pipe 0 pipe = []"
| "drain_pipe (Suc n) pipe = (if pipe = [] then [] else take output_buffer pipe @ drain_pipe n (drop output_buffer pipe))"

record run_env =
  re_pipe :: "(int \<times> int) option"
  re_launch :: "(int \<times> int) option"     \<comment> \<open>process and thread\<close>
  re_rounds :: "output_wait list"
  re_reads :: nat
  re_exit :: "32 word option"            \<comment> \<open>\<open>GetExitCodeProcess\<close>\<close>

definition run_failed :: captured where
  "run_failed = \<lparr>cp_exit = -1, cp_timed_out = False, cp_output = []\<rparr>"

definition exit_status :: "32 word option \<Rightarrow> int" where
  "exit_status c = (case c of None \<Rightarrow> 1 | Some w \<Rightarrow> sint w)"

text \<open>\<open>None\<close> while the child still runs before its deadline.\<close>

definition run_windows_process :: "run_env \<Rightarrow> wide \<Rightarrow> wide list \<Rightarrow> (captured \<times> win_call list) option" where
  "run_windows_process e exe arguments =
     (case re_pipe e of
        None \<Rightarrow> Some (run_failed, [])
      | Some (rd, wr) \<Rightarrow>
          (case re_launch e of
             None \<Rightarrow> Some (run_failed, [OpenHandle rd, OpenHandle wr, CloseHandle rd, CloseHandle wr])
           | Some (process, thread) \<Rightarrow>
               (case collect (re_rounds e) ([], []) of
                  None \<Rightarrow> None
                | Some (timed_out, output, pipe) \<Rightarrow>
                    Some (\<lparr>cp_exit = exit_status (re_exit e), cp_timed_out = timed_out,
                           cp_output = output @ drain_pipe (re_reads e) pipe\<rparr>,
                      [OpenHandle rd, OpenHandle wr,
                       LaunchChild process (command_line quote_windows_argument exe arguments) None, OpenHandle thread,
                       CloseHandle wr, CloseHandle thread] @
                      (if timed_out then [TerminateChild process] else []) @
                      [AwaitChild process, CloseHandle rd, CloseHandle process]))))"

section \<open>Starting FFmpeg\<close>

record windows_process =
  wp_process :: int
  wp_job :: int
  wp_input :: int
  wp_output :: int
  wp_error :: int
  wp_stop_requested :: bool
  wp_calls :: "win_call list"

definition new_windows_process :: windows_process where
  "new_windows_process =
     \<lparr>wp_process = 0, wp_job = 0, wp_input = 0, wp_output = 0, wp_error = 0, wp_stop_requested = False, wp_calls = []\<rparr>"

record launch_env =
  le_pipe :: "nat \<Rightarrow> (int \<times> int) option"   \<comment> \<open>\<open>CreatePipe\<close>: the end to read, the end to write\<close>
  le_attributes :: bool                     \<comment> \<open>\<open>InitializeProcThreadAttributeList\<close>\<close>
  le_inherit :: bool                        \<comment> \<open>\<open>UpdateProcThreadAttribute\<close>\<close>
  le_launch :: "(int \<times> int) option"
  le_job :: int                             \<comment> \<open>\<open>CreateJobObjectW\<close>\<close>

definition win_calls :: "win_call list \<Rightarrow> windows_process \<Rightarrow> windows_process" where
  "win_calls cs p = p\<lparr>wp_calls := wp_calls p @ cs\<rparr>"

text \<open>The three pipes: whether all were made, the child's ends so far, and the process with its own ends.\<close>

definition open_windows_pipes :: "launch_env \<Rightarrow> windows_process \<Rightarrow> bool \<times> int list \<times> windows_process" where
  "open_windows_pipes e p =
     (case le_pipe e 0 of
        None \<Rightarrow> (False, [], p)
      | Some (ir, iw) \<Rightarrow>
          let p = win_calls [OpenHandle ir, OpenHandle iw] (p\<lparr>wp_input := iw\<rparr>) in
          (case le_pipe e 1 of
             None \<Rightarrow> (False, [ir], p)
           | Some (out_read, ow) \<Rightarrow>
               let p = win_calls [OpenHandle out_read, OpenHandle ow] (p\<lparr>wp_output := out_read\<rparr>) in
               (case le_pipe e 2 of
                  None \<Rightarrow> (False, [ir, ow], p)
                | Some (er, ew) \<Rightarrow>
                    (True, [ir, ow, ew], win_calls [OpenHandle er, OpenHandle ew] (p\<lparr>wp_error := er\<rparr>)))))"

text \<open>The guard closes the child's ends on every way out.\<close>

definition start_windows :: "launch_env \<Rightarrow> wide \<Rightarrow> wide list \<Rightarrow> windows_process \<Rightarrow> unit res \<times> windows_process" where
  "start_windows e exe arguments p =
     (case open_windows_pipes e p of
        (False, ends, p) \<Rightarrow> (Inl pipe_failed, win_calls (close_handles ends) p)
      | (True, ends, p) \<Rightarrow>
          if \<not> le_attributes e \<or> \<not> le_inherit e then (Inl start_failed, win_calls (close_handles ends) p)
          else
            (case le_launch e of
               None \<Rightarrow> (Inl start_failed, win_calls (close_handles ends) p)
             | Some (process, thread) \<Rightarrow>
                 (Inr (),
                  win_calls
                    ([LaunchChild process (command_line quote_windows_argument exe arguments) (Some ends),
                      OpenHandle thread, CloseHandle thread] @
                     (if le_job e \<noteq> 0 then [OpenHandle (le_job e)] else []) @ close_handles ends)
                    (p\<lparr>wp_process := process, wp_job := le_job e\<rparr>))))"

text \<open>\<open>stop_process\<close>, with whether the child was still there after half a second; the threads have ended
  when the handles are closed.\<close>

definition stop_windows :: "bool \<Rightarrow> bool \<Rightarrow> windows_process \<Rightarrow> windows_process" where
  "stop_windows immediate lingers p =
     (if wp_stop_requested p then p
      else
        win_calls
          ((if wp_process p \<noteq> 0
            then (if immediate \<or> lingers then [TerminateChild (wp_process p)] else []) @ [AwaitChild (wp_process p)] else []) @
           close_handles [wp_input p, wp_output p, wp_error p, wp_process p, wp_job p])
          (p\<lparr>wp_stop_requested := True, wp_process := 0, wp_job := 0, wp_input := 0, wp_output := 0, wp_error := 0\<rparr>))"

definition construct_windows ::
  "failure option \<Rightarrow> launch_env \<Rightarrow> bool \<Rightarrow> wide \<Rightarrow> wide list \<Rightarrow> unit res \<times> windows_process" where
  "construct_windows check_client e thread_created exe arguments =
     (case check_client of
        Some f \<Rightarrow> (Inl f, new_windows_process)
      | None \<Rightarrow>
          (case start_windows e exe arguments new_windows_process of
             (Inl f, p) \<Rightarrow> (Inl f, stop_windows True False p)
           | (Inr _, p) \<Rightarrow>
               if thread_created then (Inr (), p) else (Inl RuntimeError, stop_windows True False p)))"

section \<open>Input and output\<close>

text \<open>Each answer of \<open>WriteFile\<close>, given at most 64 KiB: success and the count; \<open>None\<close> while a write waits.\<close>

definition write_part :: nat where
  "write_part = 64 * 1024"

fun write_input_windows :: "int \<Rightarrow> (bool \<times> nat) list \<Rightarrow> bytes \<Rightarrow> (bool \<times> bytes) option" where
  "write_input_windows handle answers [] = Some (True, [])"
| "write_input_windows handle [] (b # bs) = (if handle = 0 then Some (False, []) else None)"
| "write_input_windows handle ((ok, n) # answers) (b # bs) =
     (if handle = 0 \<or> \<not> ok \<or> n = 0 then Some (False, [])
      else case write_input_windows handle answers (drop (min n write_part) (b # bs)) of
        None \<Rightarrow> None
      | Some (done', written) \<Rightarrow> Some (done', take (min n write_part) (b # bs) @ written))"

text \<open>A round of \<open>read_output_timeout\<close>.\<close>

record output_round =
  or_deadline :: bool
  or_abort :: "failure option"
  or_before :: bytes
  or_peek :: bool
  or_read :: bool
  or_after :: bytes
  or_exited :: bool

text \<open>The count and the bytes, with what is left in the pipe; a negative count when the deadline passed.\<close>

fun read_output_windows ::
  "int \<Rightarrow> int \<Rightarrow> nat \<Rightarrow> output_round list \<Rightarrow> bytes \<Rightarrow> ((int \<times> bytes) res \<times> bytes) option" where
  "read_output_windows output process buffer [] pipe = None"
| "read_output_windows output process buffer (r # rs) pipe =
     (if or_deadline r then Some (Inr (-1, []), pipe)
      else case or_abort r of
        Some f \<Rightarrow> Some (Inl f, pipe)
      | None \<Rightarrow>
          let pipe = pipe @ or_before r in
          if output \<noteq> 0 \<and> or_peek r \<and> pipe \<noteq> [] then
            if or_read r
            then Some (Inr (int (min buffer (length pipe)), take buffer pipe), drop buffer pipe @ or_after r)
            else Some (Inr (0, []), pipe @ or_after r)
          else if process \<noteq> 0 \<and> or_exited r then Some (Inr (0, []), pipe @ or_after r)
          else read_output_windows output process buffer rs (pipe @ or_after r))"

text \<open>The loop of \<open>read_diagnostics\<close>: the look into the pipe fails, the pipe is empty (with whether the stop was
  requested), the read fails, or it yields text.  \<open>None\<close> while it waits.\<close>

datatype diagnostic_round = PeekFails | PipeEmpty bool | ReadFails | ReadText string

fun read_diagnostics_windows :: "int \<Rightarrow> diagnostic_round list \<Rightarrow> ffmpeg_process \<Rightarrow> ffmpeg_process option" where
  "read_diagnostics_windows error [] p = (if error = 0 then Some p else None)"
| "read_diagnostics_windows error (r # rs) p =
     (if error = 0 then Some p
      else case r of
        PeekFails \<Rightarrow> Some p
      | PipeEmpty stop_requested \<Rightarrow> if stop_requested then Some p else read_diagnostics_windows error rs p
      | ReadFails \<Rightarrow> Some p
      | ReadText chunk \<Rightarrow> if chunk = [] then Some p else read_diagnostics_windows error rs (read_diagnostics chunk p))"

section \<open>A run collects what the child writes\<close>

text \<open>Everything written until the end of the run.\<close>

fun run_text :: "output_wait list \<Rightarrow> string" where
  "run_text [] = []"
| "run_text (r # rs) = wr_before r @ wr_after r @ (if wr_exited r \<or> wr_deadline r then [] else run_text rs)"

lemma take_drop_append: "take n xs @ drop n xs @ ys = xs @ ys"
  by (metis append_assoc append_take_drop_id)

lemma collect_round_text:
  "collect_round r pipe got = (got', left) \<Longrightarrow> got' @ left = got @ pipe @ wr_before r @ wr_after r"
  by (auto simp: collect_round_def Let_def take_drop_append simp del: take_append drop_append)

lemma collect_text: "collect rs (got, pipe) = Some (late, out, left) \<Longrightarrow> out @ left = got @ pipe @ run_text rs"
proof (induction rs arbitrary: pipe got)
  case (Cons r rs)
  obtain got' left' where r: "collect_round r pipe got = (got', left')" by fastforce
  show ?case
  proof (cases "wr_exited r \<or> wr_deadline r")
    case True
    then have "out = got' \<and> left = left'" using Cons.prems r by (auto split: if_splits)
    then show ?thesis using True collect_round_text[OF r] by simp
  next
    case False
    then have "collect rs (got', left') = Some (late, out, left)" using Cons.prems r by simp
    then have "out @ left = got' @ left' @ run_text rs" by (rule Cons.IH)
    then show ?thesis using False collect_round_text[OF r] by (metis append_assoc run_text.simps(2))
  qed
qed simp

lemma collect_ends: "\<exists>r\<in>set rs. wr_exited r \<or> wr_deadline r \<Longrightarrow> collect rs s \<noteq> None"
proof (induction rs arbitrary: s)
  case (Cons r rs)
  obtain got pipe where "s = (got, pipe)" by fastforce
  then show ?case using Cons.IH[of "collect_round r pipe got"] Cons.prems by auto
qed simp

lemma drain_pipe_all: "length pipe \<le> n \<Longrightarrow> drain_pipe n pipe = pipe"
proof (induction n pipe rule: drain_pipe.induct)
  case (2 n pipe)
  then show ?case by (cases pipe) (auto simp: output_buffer_def)
qed simp

lemma run_handles:
  "run_windows_process e exe arguments = Some (r, cs) \<Longrightarrow> track_win ({#}, None) cs = Some ({#}, None)"
  by (auto simp: run_windows_process_def split: option.splits prod.splits if_splits)

text \<open>C20: Running FFmpeg for its answers returns as soon as the child exits or the time is up; the child has
  ended then, every handle is closed once, and the text is all the child has written, in order.\<close>

theorem windows_run_complete:
  assumes "\<exists>r\<in>set (re_rounds e). wr_exited r \<or> wr_deadline r"
    and "re_pipe e \<noteq> None" "re_launch e \<noteq> None" "length (run_text (re_rounds e)) \<le> re_reads e"
  shows "\<exists>r cs. run_windows_process e exe arguments = Some (r, cs) \<and> cp_output r = run_text (re_rounds e) \<and>
    track_win ({#}, None) cs = Some ({#}, None)"
proof -
  obtain late out left where c: "collect (re_rounds e) ([], []) = Some (late, out, left)"
    using collect_ends[OF assms(1)] by (metis not_None_eq prod_cases3)
  have t: "out @ left = run_text (re_rounds e)" using collect_text[OF c] by simp
  then have "length left \<le> re_reads e" using assms(4) by (metis le_trans length_append le_add2)
  then have d: "drain_pipe (re_reads e) left = left" by (rule drain_pipe_all)
  obtain r cs where r: "run_windows_process e exe arguments = Some (r, cs)" "cp_output r = run_text (re_rounds e)"
    using assms(2,3) t d by (auto simp: run_windows_process_def c)
  then show ?thesis using run_handles[OF r(1)] by blast
qed

definition example_run :: run_env where
  "example_run =
     \<lparr>re_pipe = Some (1, 2), re_launch = Some (3, 4),
      re_rounds =
        [\<lparr>wr_before = ''h2'', wr_peek = True, wr_read = True, wr_after = ''6'', wr_exited = False, wr_deadline = False\<rparr>,
         \<lparr>wr_before = [], wr_peek = True, wr_read = True, wr_after = ''4'', wr_exited = True, wr_deadline = False\<rparr>],
      re_reads = 9, re_exit = Some 0\<rparr>"

theorem windows_run_complete_witness:
  "\<exists>r cs. run_windows_process example_run [0x66] [] = Some (r, cs) \<and> cp_output r = ''h264''"
  using windows_run_complete[of example_run "[0x66]" "[]"] by (simp add: example_run_def) blast

section \<open>Handles of FFmpeg's process\<close>

definition win_held :: "windows_process \<Rightarrow> int multiset" where
  "win_held p = mset (filter (\<lambda>h. h \<noteq> 0) [wp_input p, wp_output p, wp_error p, wp_process p, wp_job p])"

definition win_child :: "windows_process \<Rightarrow> int option" where
  "win_child p = (if wp_process p \<noteq> 0 then Some (wp_process p) else None)"

definition win_ok :: "windows_process \<Rightarrow> bool" where
  "win_ok p \<longleftrightarrow> track_win ({#}, None) (wp_calls p) = Some (win_held p, win_child p)"

text \<open>Handles of successful calls are not null.\<close>

definition launch_ok :: "launch_env \<Rightarrow> bool" where
  "launch_ok e \<longleftrightarrow> (\<forall>i\<in>{0, 1, 2}. \<forall>a b. le_pipe e i = Some (a, b) \<longrightarrow> a \<noteq> 0 \<and> b \<noteq> 0) \<and>
     (\<forall>a b. le_launch e = Some (a, b) \<longrightarrow> a \<noteq> 0)"

lemma track_opens: "track_win (S, c) (map OpenHandle hs) = Some (mset hs + S, c)"
  by (induction hs arbitrary: S) auto

lemma close_handles_track:
  assumes "mset (filter (\<lambda>h. h \<noteq> 0) hs) \<subseteq># S" "\<forall>c\<in>set_option child. c \<in># S - mset (filter (\<lambda>h. h \<noteq> 0) hs)"
  shows "track_win (S, child) (close_handles hs) = Some (S - mset (filter (\<lambda>h. h \<noteq> 0) hs), child)"
  using assms
proof (induction hs arbitrary: S)
  case (Cons h hs)
  show ?case
  proof (cases "h = 0")
    case True
    then show ?thesis using Cons by simp
  next
    case False
    have h: "h \<in># S" "mset (filter (\<lambda>h. h \<noteq> 0) hs) \<subseteq># S - {#h#}"
      using Cons.prems(1) False by (auto simp: insert_subset_eq_iff)
    have c: "\<forall>c\<in>set_option child. c \<in># S - {#h#} - mset (filter (\<lambda>h. h \<noteq> 0) hs)"
      using Cons.prems(2) False by simp
    then have "\<forall>c\<in>set_option child. c \<in># S - {#h#}" by (meson in_diffD)
    then show ?thesis using Cons.IH[OF h(2) c] False h(1) by auto
  qed
qed simp

lemma stop_windows_ok: "win_ok p \<Longrightarrow> win_ok (stop_windows immediate lingers p)"
proof -
  assume p: "win_ok p"
  have "track_win (win_held p, win_child p)
     (if wp_process p \<noteq> 0
      then (if immediate \<or> lingers then [TerminateChild (wp_process p)] else []) @ [AwaitChild (wp_process p)] else [])
    = Some (win_held p, None)"
    by (simp add: win_child_def win_held_def)
  moreover have "track_win (win_held p, None) (close_handles [wp_input p, wp_output p, wp_error p, wp_process p, wp_job p])
    = Some ({#}, None)"
    by (subst close_handles_track) (simp_all only: win_held_def subset_mset.order_refl cancel_comm_monoid_add_class.diff_cancel option.set ball_empty)
  ultimately show ?thesis
    using p unfolding win_ok_def stop_windows_def
    by (simp add: win_calls_def track_win_append win_held_def win_child_def del: close_handles_simps)
qed

lemma stop_windows_nothing:
  "wp_stop_requested p = False \<Longrightarrow> win_held (stop_windows immediate lingers p) = {#} \<and>
     win_child (stop_windows immediate lingers p) = None \<and> wp_stop_requested (stop_windows immediate lingers p)"
  by (simp add: stop_windows_def win_calls_def win_held_def win_child_def)

lemma windows_pipes:
  assumes "launch_ok e"
  shows "case open_windows_pipes e new_windows_process of (ok, ends, p) \<Rightarrow>
    track_win ({#}, None) (wp_calls p) = Some (win_held p + mset ends, None) \<and> (\<forall>h\<in>set ends. h \<noteq> 0) \<and>
    wp_process p = 0 \<and> wp_job p = 0 \<and> \<not> wp_stop_requested p"
proof -
  note defs = open_windows_pipes_def Let_def win_calls_def new_windows_process_def win_held_def
  have real: "a \<noteq> 0 \<and> b \<noteq> 0" if "le_pipe e i = Some (a, b)" "i \<in> {0, 1, 2}" for i a b
    using assms that unfolding launch_ok_def by blast
  show ?thesis
  proof (cases "le_pipe e 0")
    case None
    then show ?thesis by (simp add: defs)
  next
    case (Some x)
    obtain a b where x: "le_pipe e 0 = Some (a, b)" "a \<noteq> 0" "b \<noteq> 0" using Some real[of 0] by (cases x) auto
    show ?thesis
    proof (cases "le_pipe e 1")
      case None
      then show ?thesis using x by (simp add: defs add_mset_commute)
    next
      case (Some y)
      obtain c d where y: "le_pipe e 1 = Some (c, d)" "c \<noteq> 0" "d \<noteq> 0" using Some real[of 1] by (cases y) auto
      show ?thesis
      proof (cases "le_pipe e 2")
        case None
        then show ?thesis using x y by (simp add: defs add_mset_commute)
      next
        case (Some z)
        obtain f g where z: "le_pipe e 2 = Some (f, g)" "f \<noteq> 0" "g \<noteq> 0" using Some real[of 2] by (cases z) auto
        show ?thesis using x y z by (simp add: defs add_mset_commute)
      qed
    qed
  qed
qed

lemma guard_ok:
  assumes "track_win ({#}, None) (wp_calls p) = Some (win_held p + mset ends, None)" "\<forall>h\<in>set ends. h \<noteq> 0"
    "wp_process p = 0"
  shows "win_ok (win_calls (close_handles ends) p)"
proof -
  have f: "filter (\<lambda>h. h \<noteq> 0) ends = ends" using assms(2) by (simp add: filter_id_conv)
  show ?thesis
    using assms(1,3) close_handles_track[of ends "win_held p + mset ends" None]
    by (simp add: win_ok_def win_calls_def track_win_append f win_child_def) (simp add: win_held_def)
qed

lemma start_windows_ok:
  assumes "launch_ok e"
  shows "win_ok (snd (start_windows e exe arguments new_windows_process)) \<and>
    \<not> wp_stop_requested (snd (start_windows e exe arguments new_windows_process))"
proof -
  obtain ok ends p where o: "open_windows_pipes e new_windows_process = (ok, ends, p)" by (metis prod_cases3)
  have p: "track_win ({#}, None) (wp_calls p) = Some (win_held p + mset ends, None)" "\<forall>h\<in>set ends. h \<noteq> 0"
    "wp_process p = 0" "wp_job p = 0" "\<not> wp_stop_requested p"
    using windows_pipes[OF assms] by (simp_all add: o)
  have failed: "win_ok (win_calls (close_handles ends) p) \<and> \<not> wp_stop_requested (win_calls (close_handles ends) p)"
    using guard_ok[OF p(1-3)] p(5) by (simp add: win_calls_def)
  show ?thesis
  proof (cases "ok \<and> le_attributes e \<and> le_inherit e \<and> le_launch e \<noteq> None")
    case False
    then show ?thesis using failed by (auto simp: start_windows_def o split: bool.split option.split)
  next
    case True
    then obtain q t where l: "le_launch e = Some (q, t)" by fastforce
    let ?p = "p\<lparr>wp_process := q, wp_job := le_job e\<rparr>"
    let ?line = "command_line quote_windows_argument exe arguments"
    have q: "q \<noteq> 0" using assms l by (simp add: launch_ok_def)
    have held: "win_held ?p = win_held p + ({#q#} + (if le_job e \<noteq> 0 then {#le_job e#} else {#}))"
      using p(3,4) q by (simp add: win_held_def)
    have started: "track_win (win_held p + mset ends, None)
        ([LaunchChild q ?line (Some ends), OpenHandle t, CloseHandle t] @ (if le_job e \<noteq> 0 then [OpenHandle (le_job e)] else []))
      = Some (win_held ?p + mset ends, Some q)"
      by (simp add: held)
    have f: "filter (\<lambda>h. h \<noteq> 0) ends = ends" using p(2) by (simp add: filter_id_conv)
    have closed: "track_win (win_held ?p + mset ends, Some q) (close_handles ends) = Some (win_held ?p, Some q)"
      using close_handles_track[of ends "win_held ?p + mset ends" "Some q"] by (simp add: f held)
    have "start_windows e exe arguments new_windows_process = (Inr (),
        win_calls (([LaunchChild q ?line (Some ends), OpenHandle t, CloseHandle t] @
          (if le_job e \<noteq> 0 then [OpenHandle (le_job e)] else [])) @ close_handles ends) ?p)"
      using True by (simp add: start_windows_def o l)
    moreover have "track_win ({#}, None) (wp_calls (win_calls (([LaunchChild q ?line (Some ends), OpenHandle t, CloseHandle t] @
          (if le_job e \<noteq> 0 then [OpenHandle (le_job e)] else [])) @ close_handles ends) ?p)) = Some (win_held ?p, Some q)"
    proof -
      have calls: "wp_calls (win_calls cs ?p) = wp_calls p @ cs" for cs by (simp add: win_calls_def)
      show ?thesis
        unfolding calls track_win_append[of _ "wp_calls p"] p(1) bind.bind_lunit
        unfolding track_win_append[of _ _ "close_handles ends"] started bind.bind_lunit by (rule closed)
    qed
    ultimately show ?thesis using p(5) q by (simp add: win_ok_def win_calls_def win_child_def win_held_def)
  qed
qed

lemma construct_windows_ok:
  assumes "launch_ok e"
  shows "case construct_windows check e created exe arguments of (r, p) \<Rightarrow>
    win_ok p \<and> (is_ok r \<longrightarrow> \<not> wp_stop_requested p) \<and> (\<not> is_ok r \<longrightarrow> win_held p = {#} \<and> win_child p = None)"
proof (cases check)
  case (Some f)
  then show ?thesis by (simp add: construct_windows_def new_windows_process_def win_ok_def win_held_def win_child_def)
next
  case None
  obtain r p where s: "start_windows e exe arguments new_windows_process = (r, p)" by fastforce
  have p: "win_ok p" "\<not> wp_stop_requested p" using start_windows_ok[OF assms, of exe arguments] by (simp_all add: s)
  then have stopped: "win_ok (stop_windows True False p)" "win_held (stop_windows True False p) = {#}"
    "win_child (stop_windows True False p) = None"
    using stop_windows_ok[OF p(1)] stop_windows_nothing[of p True False] by simp_all
  show ?thesis using p stopped by (cases r) (simp_all add: construct_windows_def None s)
qed

text \<open>C19: Whatever fails while FFmpeg is started on Windows: a constructor that throws has closed every handle
  and ended the child; one that returns owns exactly the handles it records, and stopping the process,
  however often, closes each of them once, after the child has ended.\<close>

theorem windows_process_accounts:
  assumes "launch_ok e" "construct_windows check e created exe arguments = (r, p)"
  shows "(\<not> is_ok r \<longrightarrow> track_win ({#}, None) (wp_calls p) = Some ({#}, None)) \<and>
    (is_ok r \<longrightarrow> track_win ({#}, None) (wp_calls p) = Some (win_held p, win_child p) \<and>
      track_win ({#}, None) (wp_calls (stop_windows immediate lingers p)) = Some ({#}, None) \<and>
      stop_windows i l (stop_windows immediate lingers p) = stop_windows immediate lingers p)"
proof -
  have p: "win_ok p" "is_ok r \<Longrightarrow> \<not> wp_stop_requested p" "\<not> is_ok r \<Longrightarrow> win_held p = {#} \<and> win_child p = None"
    using construct_windows_ok[OF assms(1), of check created exe arguments] assms(2) by simp_all
  show ?thesis
  proof (cases "is_ok r")
    case False
    then show ?thesis using p by (simp add: win_ok_def)
  next
    case True
    note n = stop_windows_nothing[of p immediate lingers]
    have "track_win ({#}, None) (wp_calls (stop_windows immediate lingers p)) = Some ({#}, None)"
      using stop_windows_ok[OF p(1), of immediate lingers] n p(2)[OF True] by (simp add: win_ok_def)
    moreover have "stop_windows i l (stop_windows immediate lingers p) = stop_windows immediate lingers p"
      using n p(2)[OF True] by (simp add: stop_windows_def[of i l])
    ultimately show ?thesis using True p(1) by (simp add: win_ok_def)
  qed
qed

definition example_launch :: launch_env where
  "example_launch =
     \<lparr>le_pipe = (\<lambda>i. Some (2 * int i + 1, 2 * int i + 2)), le_attributes = True, le_inherit = True,
      le_launch = Some (7, 8), le_job = 0\<rparr>"

theorem windows_process_accounts_witness:
  "track_win ({#}, None) (wp_calls (stop_windows False True (snd (construct_windows None example_launch True [0x66] [])))) =
     Some ({#}, None)"
proof -
  have "launch_ok example_launch" by (auto simp: launch_ok_def example_launch_def)
  moreover have "is_ok (fst (construct_windows None example_launch True [0x66] []))"
    by (simp add: construct_windows_def start_windows_def open_windows_pipes_def example_launch_def)
  ultimately show ?thesis
    using windows_process_accounts[of example_launch None True "[0x66]" "[]" _ _ False True, OF _ prod.collapse[symmetric]]
    by blast
qed

section \<open>What is written and read\<close>

text \<open>The pump's writes on Windows: what the child's input accepts is the packet from its start, all of it
  exactly when the write reports success.\<close>

lemma windows_input_in_order:
  assumes "write_input_windows handle answers d = Some (ok, written)" "handle \<noteq> 0"
  shows "prefix written d \<and> (ok \<longrightarrow> written = d)"
  using assms
proof (induction handle answers d arbitrary: ok written rule: write_input_windows.induct)
  case (3 handle ok' n answers b bs)
  show ?case
  proof (cases "\<not> ok' \<or> n = 0")
    case True
    then show ?thesis using 3(2) by auto
  next
    case False
    then obtain w where w: "write_input_windows handle answers (drop (min n write_part) (b # bs)) = Some (ok, w)"
      "written = take (min n write_part) (b # bs) @ w"
      using 3(2,3) by (auto split: option.splits)
    have "prefix w (drop (min n write_part) (b # bs)) \<and> (ok \<longrightarrow> w = drop (min n write_part) (b # bs))"
      using 3(1)[OF _ w(1)] 3(3) False by simp
    then show ?thesis unfolding w(2) by (metis append_take_drop_id same_prefix_prefix)
  qed
qed auto

text \<open>What the child wrote in the rounds a read took part in.\<close>

fun output_text :: "output_round list \<Rightarrow> bytes" where
  "output_text [] = []"
| "output_text (r # rs) = or_before r @ or_after r @ output_text rs"

text \<open>Reading FFmpeg's output on Windows keeps the bytes and their order: what is returned, and what stays in
  the pipe behind it, is what was there and what the child wrote during the rounds the read took.\<close>

lemma windows_output_in_order:
  assumes "read_output_windows output process buffer rs pipe = Some (Inr (n, d), left)"
  shows "\<exists>k. d @ left = pipe @ output_text (take k rs) \<and> n = (if d = [] \<and> n < 0 then -1 else int (length d))"
  using assms
proof (induction rs arbitrary: pipe)
  case (Cons r rs)
  let ?p = "pipe @ or_before r"
  consider "or_deadline r" | "\<not> or_deadline r" "output \<noteq> 0 \<and> or_peek r \<and> ?p \<noteq> []"
    | "\<not> or_deadline r" "\<not> (output \<noteq> 0 \<and> or_peek r \<and> ?p \<noteq> [])" by blast
  then show ?case
  proof cases
    case 1
    then have "n = -1 \<and> d = [] \<and> left = pipe" using Cons.prems by simp
    then show ?thesis by (intro exI[of _ 0]) simp
  next
    case 2
    then have a: "or_abort r = None" using Cons.prems by (cases "or_abort r") auto
    have "d @ left = ?p @ or_after r \<and> n = int (length d)"
      using Cons.prems 2 a by (cases "or_read r")
        (auto simp: Let_def take_drop_append min.commute simp del: take_append drop_append)
    then show ?thesis by (intro exI[of _ 1]) simp
  next
    case 3
    then have a: "or_abort r = None" using Cons.prems by (cases "or_abort r") auto
    show ?thesis
    proof (cases "process \<noteq> 0 \<and> or_exited r")
      case True
      then have "d = [] \<and> n = 0 \<and> left = ?p @ or_after r" 
        using Cons.prems unfolding read_output_windows.simps Let_def a option.case if_not_P[OF 3(1)] if_not_P[OF 3(2)] if_P[OF True]
        by auto
      then show ?thesis by (intro exI[of _ 1]) simp
    next
      case False
      then have "read_output_windows output process buffer rs (?p @ or_after r) = Some (Inr (n, d), left)"
        
        using Cons.prems unfolding read_output_windows.simps Let_def a option.case if_not_P[OF 3(1)] if_not_P[OF 3(2)] if_not_P[OF False] by simp
      then obtain k where "d @ left = (?p @ or_after r) @ output_text (take k rs)"
        "n = (if d = [] \<and> n < 0 then -1 else int (length d))" using Cons.IH by blast
      then show ?thesis by (intro exI[of _ "Suc k"]) simp
    qed
  qed
qed simp


end
