(* ===== verification/Server_Run.thy ===== *)
theory Server_Run
  imports Connection_Workers Socket_IO Ffmpeg_Plan Bridge_Main Windows_Service Win_Quote
begin

text \<open>
  \<open>run_server\<close> around the accept loop: the network and the SDK are set up, FFmpeg is probed, the listener is
  opened, and the destructors undo all of it in the opposite order.  With it the entry point on Windows
  and the console.
\<close>

section \<open>The code\<close>

datatype sdk_setup =
    SetLibraryDirectory string
  | SetSdkPath string
  | SetCryptoPath string
  | SetSslPath string
  | SetConnectTime int int
  | SetRecvTimeOut int
  | SetReconnect int bool

datatype server_action =
    NetStart
  | NetCleanup
  | Configure sdk_setup
  | SdkInit
  | SdkCleanup
  | ServiceProgress
  | ServiceReady
  | ListenerCall os_call
  | WorkerAction worker_action

text \<open>\<open>HcNetRuntime\<close>: which files of the SDK's directory exist, their paths, the size of the SDK's path field,
  and whether its calls succeed.\<close>

record runtime_env =
  rt_exists :: "string \<Rightarrow> bool"
  rt_absolute :: "string \<Rightarrow> string"
  rt_join :: "string \<Rightarrow> string \<Rightarrow> string"
  rt_path_size :: nat
  rt_directory_set :: bool
  rt_init :: bool

definition sdk_files_present :: "platform \<Rightarrow> runtime_env \<Rightarrow> string \<Rightarrow> bool" where
  "sdk_files_present pf e sdk =
     (case pf of
        Windows \<Rightarrow> rt_exists e (rt_join e sdk ''HCNetSDK.dll'')
      | Linux \<Rightarrow> rt_exists e (rt_join e sdk ''libhcnetsdk.so'') \<and> rt_exists e (rt_join e sdk ''libcrypto.so.3'') \<and>
          rt_exists e (rt_join e sdk ''libssl.so.3''))"

definition sdk_paths :: "platform \<Rightarrow> runtime_env \<Rightarrow> string \<Rightarrow> sdk_setup list" where
  "sdk_paths pf e sdk =
     (case pf of
        Windows \<Rightarrow> [SetLibraryDirectory sdk]
      | Linux \<Rightarrow> [SetSdkPath (take (rt_path_size e - 1) sdk), SetCryptoPath (rt_join e sdk ''libcrypto.so.3''),
          SetSslPath (rt_join e sdk ''libssl.so.3'')])"

definition create_runtime :: "platform \<Rightarrow> runtime_env \<Rightarrow> string \<Rightarrow> unit res \<times> server_action list" where
  "create_runtime pf e directory =
     (let sdk = rt_absolute e directory
      in if \<not> sdk_files_present pf e sdk then (Inl (BridgeError 500 ''SDK_NOT_FOUND''), [])
         else if pf = Windows \<and> \<not> rt_directory_set e
         then (Inl (BridgeError 500 ''SDK_LOAD_FAILED''), map Configure (sdk_paths pf e sdk))
         else let as = map Configure (sdk_paths pf e sdk @ [SetConnectTime 3000 2, SetRecvTimeOut 5000, SetReconnect 10000 True])
         in if \<not> rt_init e then (Inl (BridgeError 500 ''SDK_INIT_FAILED''), as) else (Inr (), as @ [SdkInit]))"

record server_env =
  rs_startup :: bool                       \<comment> \<open>\<open>WSAStartup\<close>\<close>
  rs_runtime :: runtime_env
  rs_ffmpeg :: "string list \<Rightarrow> captured"
  rs_listen :: "listen_env list option"

definition on_windows :: "platform \<Rightarrow> 'a list \<Rightarrow> 'a list" where
  "on_windows pf as = (if pf = Windows then as else [])"

text \<open>The loop and the destructor of the workers: the events until \<open>g_running\<close> is false, those behind it.
  \<open>None\<close> while a worker has not returned.\<close>

definition serve :: "config \<Rightarrow> server_event list \<Rightarrow> server_event list \<Rightarrow> workers option" where
  "serve c es fs =
     join_workers (worker_machine.run (es @ Shutdown # fs) (new_workers (nat (max_http_connections c))))"

definition run_server ::
  "platform \<Rightarrow> server_env \<Rightarrow> config \<Rightarrow> server_event list \<Rightarrow> server_event list \<Rightarrow> (unit res \<times> server_action list) option" where
  "run_server pf e c es fs =
     (if pf = Windows \<and> \<not> rs_startup e then Some (Inl RuntimeError, [])
      else case create_runtime pf (rs_runtime e) (sdk_directory c) of
        (Inl f, as) \<Rightarrow> Some (Inl f, on_windows pf [NetStart] @ as @ on_windows pf [NetCleanup])
      | (Inr _, as) \<Rightarrow>
          let before = on_windows pf [NetStart] @ as @ on_windows pf [ServiceProgress];
              behind = [SdkCleanup] @ on_windows pf [NetCleanup]
          in case detect pf c (rs_ffmpeg e) of
               Inl f \<Rightarrow> Some (Inl f, before @ behind)
             | Inr _ \<Rightarrow>
                 (case create_listener (rs_listen e) of
                    (Inl f, cs) \<Rightarrow> Some (Inl f, before @ map ListenerCall cs @ behind)
                  | (Inr fd, cs) \<Rightarrow>
                      (case serve c es fs of
                         None \<Rightarrow> None
                       | Some w \<Rightarrow>
                           Some (Inr (), before @ map ListenerCall cs @ on_windows pf [ServiceReady] @
                             map WorkerAction (cw_trace w) @ [ListenerCall (CloseFd fd)] @ behind))))"

text \<open>The failure \<open>run_bridge\<close> sees.\<close>

definition server_failure :: "(unit res \<times> server_action list) option \<Rightarrow> failure option" where
  "server_failure r = (case r of Some (Inl f, _) \<Rightarrow> Some f | _ \<Rightarrow> None)"

text \<open>\<open>wmain\<close>: as a service, the worker's code is that of \<open>run_bridge\<close> in service mode.\<close>

definition service_code :: "main_env \<Rightarrow> string list \<Rightarrow> 32 word" where
  "service_code e arguments = word_of_int (fst (run_bridge e Windows True arguments))"

definition wmain_bridge :: "main_env \<Rightarrow> 32 word option \<Rightarrow> service \<Rightarrow> string list \<Rightarrow> int" where
  "wmain_bridge e dispatcher_error s arguments =
     (if arguments \<noteq> [] \<and> hd arguments = ''service'' then sint (fst (run_windows_service dispatcher_error s))
      else fst (run_bridge e Windows False arguments))"

text \<open>\<open>ConsoleCodePageScope\<close>: the code pages while the bridge runs and behind it.  What runs inside may set
  them to anything.\<close>

definition utf8_pages :: "bool \<Rightarrow> nat \<times> nat \<Rightarrow> nat \<times> nat" where
  "utf8_pages service pages = (if service then pages else (65001, 65001))"

definition with_code_pages :: "bool \<Rightarrow> (nat \<times> nat \<Rightarrow> 'a \<times> (nat \<times> nat)) \<Rightarrow> nat \<times> nat \<Rightarrow> 'a \<times> (nat \<times> nat)" where
  "with_code_pages service body pages =
     (case body (utf8_pages service pages) of
        (r, i, q) \<Rightarrow> (r, if fst pages \<noteq> 0 then fst pages else i, if snd pages \<noteq> 0 then snd pages else q))"

text \<open>\<open>MultiByteToWideChar\<close> on a text, \<open>None\<close> when it fails; then each byte becomes a character, as a signed one.\<close>

definition utf8_to_wide :: "(string \<Rightarrow> wide option) \<Rightarrow> string \<Rightarrow> wide" where
  "utf8_to_wide convert v =
     (if v = [] then []
      else case convert v of None \<Rightarrow> map (\<lambda>c. scast (word_of_nat (byte c) :: 8 word)) v | Some w \<Rightarrow> w)"

datatype console_output = ToConsole wide | ToFile string

definition write_utf8_line :: "(string \<Rightarrow> wide option) \<Rightarrow> bool \<Rightarrow> string \<Rightarrow> console_output list" where
  "write_utf8_line convert console v =
     (if console then [ToConsole (utf8_to_wide convert (v @ [CHR 0x0A]))] else [ToFile v, ToFile [CHR 0x0A]])"

section \<open>What is in use\<close>

record server_use =
  su_net :: bool
  su_sdk :: bool
  su_listeners :: "int multiset"
  su_sockets :: "int multiset"
  su_threads :: "nat multiset"

definition nothing_used :: server_use where
  "nothing_used = \<lparr>su_net = False, su_sdk = False, su_listeners = {#}, su_sockets = {#}, su_threads = {#}\<rparr>"

text \<open>\<open>None\<close> is a violation: the SDK configured or initialized twice, cleaned up while a worker or a socket
  is left, the network left while anything uses it, a worker without SDK or listener, readiness reported
  without a listener, or a descriptor, socket or thread misused.\<close>

fun track_action :: "server_action \<Rightarrow> server_use \<Rightarrow> server_use option" where
  "track_action NetStart u = (if su_net u then None else Some (u\<lparr>su_net := True\<rparr>))"
| "track_action NetCleanup u =
     (if u = nothing_used\<lparr>su_net := True\<rparr> then Some nothing_used else None)"
| "track_action (Configure _) u = (if su_sdk u then None else Some u)"
| "track_action SdkInit u = (if su_sdk u then None else Some (u\<lparr>su_sdk := True\<rparr>))"
| "track_action SdkCleanup u =
     (if su_sdk u \<and> su_listeners u = {#} \<and> su_sockets u = {#} \<and> su_threads u = {#} then Some (u\<lparr>su_sdk := False\<rparr>) else None)"
| "track_action ServiceProgress u = (if su_sdk u \<and> su_listeners u = {#} then Some u else None)"
| "track_action ServiceReady u = (if su_sdk u \<and> su_listeners u \<noteq> {#} then Some u else None)"
| "track_action (ListenerCall c) u =
     (case track_os (su_listeners u, None) [c] of
        Some (fds, None) \<Rightarrow> Some (u\<lparr>su_listeners := fds\<rparr>)
      | _ \<Rightarrow> None)"
| "track_action (WorkerAction a) u =
     (if su_sdk u \<and> su_listeners u \<noteq> {#} then
        (case track_workers (su_sockets u, su_threads u) [a] of
           Some (s, t) \<Rightarrow> Some (u\<lparr>su_sockets := s, su_threads := t\<rparr>)
         | None \<Rightarrow> None)
      else None)"

fun track_server :: "server_use \<Rightarrow> server_action list \<Rightarrow> server_use option" where
  "track_server u [] = Some u"
| "track_server u (a # as) = (case track_action a u of None \<Rightarrow> None | Some u \<Rightarrow> track_server u as)"

lemma track_server_append: "track_server u (as @ bs) = Option.bind (track_server u as) (\<lambda>u. track_server u bs)"
  by (induction as arbitrary: u) (auto split: option.split)

lemma track_configure:
  "\<not> su_sdk u \<Longrightarrow> track_server u (map Configure ss) = Some u"
  by (induction ss) auto

text \<open>The traces of the listener and of the workers, judged within the whole.\<close>

definition child_free :: "os_call \<Rightarrow> bool" where
  "child_free c = (case c of OpenFd _ \<Rightarrow> True | CloseFd _ \<Rightarrow> True | _ \<Rightarrow> False)"

lemma track_listener:
  "list_all child_free cs \<Longrightarrow> track_os (su_listeners u, None) cs = Some (fds, None) \<Longrightarrow>
   track_server u (map ListenerCall cs) = Some (u\<lparr>su_listeners := fds\<rparr>)"
proof (induction cs arbitrary: u)
  case (Cons c cs)
  then show ?case by (cases c) (auto simp: child_free_def split: if_splits)
qed simp

lemma track_workers_single:
  "track_workers l (a # as) = Option.bind (track_workers l [a]) (\<lambda>l. track_workers l as)"
  using track_workers_append[of l "[a]" as] by simp

lemma track_worker_actions:
  "su_sdk u \<Longrightarrow> su_listeners u \<noteq> {#} \<Longrightarrow> track_workers (su_sockets u, su_threads u) as = Some (s, t) \<Longrightarrow>
   track_server u (map WorkerAction as) = Some (u\<lparr>su_sockets := s, su_threads := t\<rparr>)"
proof (induction as arbitrary: u)
  case (Cons a as)
  obtain s' t' where a: "track_workers (su_sockets u, su_threads u) [a] = Some (s', t')"
    "track_workers (s', t') as = Some (s, t)"
    using Cons.prems(3) unfolding track_workers_single[of _ a as] by (cases "track_workers (su_sockets u, su_threads u) [a]") auto
  have "track_server (u\<lparr>su_sockets := s', su_threads := t'\<rparr>) (map WorkerAction as) =
      Some (u\<lparr>su_sockets := s', su_threads := t'\<rparr>\<lparr>su_sockets := s, su_threads := t\<rparr>)"
    using Cons.prems(1,2) a(2) by (intro Cons.IH) simp_all
  then show ?case using Cons.prems(1,2) a(1) by simp
qed simp

section \<open>The run\<close>

lemma listen_on_calls: "list_all child_free (snd (listen_on as))"
  by (induction as) (auto simp: child_free_def split: option.split prod.split)

lemma create_listener_calls:
  "create_listener as = (r, cs) \<Longrightarrow> list_all child_free cs \<and>
   track_os ({#}, None) cs = Some (case r of Inl _ \<Rightarrow> {#} | Inr fd \<Rightarrow> {#fd#}, None)"
  using listen_on_track[of "{#}" None "the as"] listen_on_calls[of "the as"]
  by (auto simp: create_listener_def split: option.splits prod.splits)

definition sdk_used :: "platform \<Rightarrow> server_use" where
  "sdk_used pf = nothing_used\<lparr>su_net := (pf = Windows), su_sdk := True\<rparr>"

lemma create_runtime_use:
  "create_runtime pf e d = (Inl f, as) \<Longrightarrow>
   track_server nothing_used (on_windows pf [NetStart] @ as @ on_windows pf [NetCleanup]) = Some nothing_used"
  "create_runtime pf e d = (Inr x, as) \<Longrightarrow>
   track_server nothing_used (on_windows pf [NetStart] @ as @ on_windows pf [ServiceProgress]) = Some (sdk_used pf)"
  by (cases pf; auto simp: create_runtime_def Let_def on_windows_def track_server_append track_configure nothing_used_def
      sdk_used_def sdk_paths_def split: if_splits)+

lemma leave_use: "track_server (sdk_used pf) ([SdkCleanup] @ on_windows pf [NetCleanup]) = Some nothing_used"
  by (cases pf) (simp_all add: sdk_used_def nothing_used_def on_windows_def)

lemma serve_use:
  assumes "serve c es fs = Some w" "track_os ({#}, None) cs = Some ({#fd#}, None)" "list_all child_free cs"
  shows "track_server (sdk_used pf) (map ListenerCall cs @ on_windows pf [ServiceReady] @
    map WorkerAction (cw_trace w) @ [ListenerCall (CloseFd fd)]) = Some (sdk_used pf)"
proof -
  let ?l = "(sdk_used pf)\<lparr>su_listeners := {#fd#}\<rparr>"
  have l: "track_server (sdk_used pf) (map ListenerCall cs) = Some ?l"
    using assms by (intro track_listener) (simp_all add: sdk_used_def nothing_used_def)
  have r: "track_server ?l (on_windows pf [ServiceReady]) = Some ?l" by (simp add: on_windows_def sdk_used_def)
  have "track_workers ({#}, {#}) (cw_trace w) = Some ({#}, {#})"
    using assms(1) unfolding serve_def by (rule joined_all[OF worker_machine.run_inv[OF new_workers_inv]])
  then have w: "track_server ?l (map WorkerAction (cw_trace w)) = Some ?l"
    using track_worker_actions[of ?l "cw_trace w" "{#}" "{#}"] by (simp add: sdk_used_def nothing_used_def)
  have c: "track_server ?l [ListenerCall (CloseFd fd)] = Some (sdk_used pf)" by (simp add: sdk_used_def nothing_used_def)
  show ?thesis unfolding track_server_append l r w c bind.bind_lunit by (rule refl)
qed

lemma run_server_use:
  assumes "run_server pf e c es fs = Some (r, as)"
  shows "track_server nothing_used as = Some nothing_used"
proof (cases "pf = Windows \<and> \<not> rs_startup e")
  case True
  then show ?thesis using assms by (simp add: run_server_def)
next
  case False
  obtain q bs where q: "create_runtime pf (rs_runtime e) (sdk_directory c) = (q, bs)" by fastforce
  show ?thesis
  proof (cases q)
    case (Inl f)
    then have "as = on_windows pf [NetStart] @ bs @ on_windows pf [NetCleanup]"
      using assms False q by (simp add: run_server_def)
    then show ?thesis using create_runtime_use(1)[of pf "rs_runtime e" "sdk_directory c" f bs] q Inl by simp
  next
    case (Inr x)
    let ?before = "on_windows pf [NetStart] @ bs @ on_windows pf [ServiceProgress]"
    let ?behind = "[SdkCleanup] @ on_windows pf [NetCleanup]"
    have b: "track_server nothing_used ?before = Some (sdk_used pf)"
      using create_runtime_use(2)[of pf "rs_runtime e" "sdk_directory c" x bs] q Inr by simp
    note run = assms[unfolded run_server_def if_not_P[OF False] q Inr prod.case sum.case Let_def]
    have inner: "track_server nothing_used (?before @ cs @ ?behind) = Some nothing_used"
      if "track_server (sdk_used pf) cs = Some (sdk_used pf)" for cs
      unfolding track_server_append[of _ ?before] b bind.bind_lunit track_server_append[of _ cs] that
      by (rule leave_use)
    show ?thesis
    proof (cases "detect pf c (rs_ffmpeg e)")
      case (Inl f)
      then have "as = ?before @ [] @ ?behind" using run by simp
      then show ?thesis using inner[of "[]"] by simp
    next
      case (Inr hardware)
      obtain l cs where l: "create_listener (rs_listen e) = (l, cs)" by fastforce
      note calls = create_listener_calls[OF l]
      show ?thesis
      proof (cases l)
        case (Inl f)
        then have "as = ?before @ map ListenerCall cs @ ?behind" using run Inr l by simp
        moreover have "track_server (sdk_used pf) (map ListenerCall cs) = Some (sdk_used pf)"
          using calls Inl track_listener[of cs "sdk_used pf" "{#}"] by (simp add: sdk_used_def nothing_used_def)
        ultimately show ?thesis using inner by simp
      next
        case (Inr fd)
        obtain w where w: "serve c es fs = Some w" using run \<open>detect pf c (rs_ffmpeg e) = Inr hardware\<close> l Inr
          by (cases "serve c es fs") simp_all
        then have "as = ?before @ (map ListenerCall cs @ on_windows pf [ServiceReady] @ map WorkerAction (cw_trace w) @
            [ListenerCall (CloseFd fd)]) @ ?behind"
          using run \<open>detect pf c (rs_ffmpeg e) = Inr hardware\<close> l Inr by simp
        moreover have "track_server (sdk_used pf) (map ListenerCall cs @ on_windows pf [ServiceReady] @
            map WorkerAction (cw_trace w) @ [ListenerCall (CloseFd fd)]) = Some (sdk_used pf)"
          using calls Inr by (intro serve_use[OF w]) simp_all
        ultimately show ?thesis using inner by blast
      qed
    qed
  qed
qed

text \<open>C11: The server undoes everything it has set up, in an order in which nothing is used any more when it goes:
  whichever step fails, and after a run with any connections, the SDK is cleaned up behind the last
  worker's join and the listener's close, the network behind the SDK.  When the handlers that are left
  at the shutdown return, the run itself ends.\<close>

theorem server_run_undone:
  assumes "handlers_return fs (worker_machine.run es (new_workers (nat (max_http_connections c))))"
  shows "\<exists>r as. run_server pf e c es fs = Some (r, as) \<and> track_server nothing_used as = Some nothing_used"
proof -
  obtain w where "serve c es fs = Some w" using shutdown_joins[OF assms] unfolding serve_def by blast
  then have "run_server pf e c es fs \<noteq> None"
    by (simp add: run_server_def Let_def split: sum.split prod.split)
  then obtain r as where "run_server pf e c es fs = Some (r, as)" by force
  then show ?thesis using run_server_use by blast
qed

definition example_server :: server_env where
  "example_server =
     \<lparr>rs_startup = True,
      rs_runtime = \<lparr>rt_exists = (\<lambda>_. True), rt_absolute = id, rt_join = (\<lambda>a b. a @ ''/'' @ b), rt_path_size = 256,
        rt_directory_set = True, rt_init = True\<rparr>,
      rs_ffmpeg = (\<lambda>_. \<lparr>cp_exit = 0, cp_timed_out = False, cp_output = []\<rparr>),
      rs_listen = Some [\<lparr>le_socket = Some 3, le_option = True, le_listen = True\<rparr>]\<rparr>"

theorem server_run_undone_witness:
  "\<exists>r as. run_server Linux example_server default_config [Accept (Connection 5 local_peer True True True)]
      [CloseWorker 0, FinishWorker 0] = Some (r, as) \<and> track_server nothing_used as = Some nothing_used"
proof (rule server_run_undone)
  have "handlers_return [CloseWorker 0, FinishWorker 0] w" if "set (thread_ids w) \<subseteq> {0}" for w
    using that unfolding handlers_return_def by (intro ballI exI[of _ "[]"] exI[of _ "[FinishWorker 0]"]) auto
  moreover have "set (thread_ids (worker_machine.run [Accept (Connection 5 local_peer True True True)]
      (new_workers (nat (max_http_connections default_config))))) \<subseteq> {0}"
    by (simp add: new_workers_def accept_step_def reap_def start_worker_def record_actions_def thread_ids_def Let_def)
  ultimately show "handlers_return [CloseWorker 0, FinishWorker 0]
      (worker_machine.run [Accept (Connection 5 local_peer True True True)]
        (new_workers (nat (max_http_connections default_config))))" by blast
qed

lemma code_pages_restored:
  "fst pages \<noteq> 0 \<Longrightarrow> snd pages \<noteq> 0 \<Longrightarrow> snd (with_code_pages service body pages) = pages"
  by (simp add: with_code_pages_def split: prod.split)

end
