(* ===== verification/Spec2Isabelle.thy ===== *)
theory Spec2Isabelle
  imports Config Query Stream_Request Byte_Queue Channel_Topology Session_Status Session_Registry Codec_Cache
    Http_Request Http_Response Ffmpeg_Plan Hc_Session Ffmpeg_Process Ffmpeg_Output Socket_IO Exception_State
    Video_Pipeline Video_Response Http_Server Connection_Workers Bridge_Main Win_Quote
    Windows_Service Upgrade_Checks Windows_Upgrade Upgrade_Safety Upgrade_Transaction Daily_Log Windows_Process Server_Run
begin

text \<open>
  A development of the native HTTP bridge under \<open>src/cpp-sdk-http-bridge-linux/src\<close>: \<open>main.cpp\<close>, the bridge itself,
  for Linux and Windows; \<open>windows-service.cpp\<close>, its life as a Windows service; \<open>windows-upgrade.cpp\<close>, the tool that
  replaces an installed bridge.  Definitions carry the names of the code's functions; where a name is taken in HOL
  or used twice, a suffix or a prefix tells them apart.

  \<^bold>\<open>The program.\<close>  A browser asks the bridge on the loopback address for the video of a recorder's channel.  The
  bridge logs in with the vendor's SDK (\<open>HcSession\<close>), whose callback puts media data into a bounded queue
  (\<open>ByteQueue\<close>); a pump thread feeds them to an FFmpeg child (\<open>FfmpegProcess\<close>), and the connection's thread
  (\<open>handle_connection\<close>, \<open>handle_video\<close>) sends FFmpeg's fragmented MP4 in chunks.  Around this there are the registry
  that bounds and cancels sessions, the statuses a page can ask for, a cache of detected codecs, the configuration,
  the log files, and the accept loop with its worker threads.

  \<^bold>\<open>Foundations.\<close>  \<open>Bridge_Prelude\<close> has the failures (\<open>BridgeError\<close>, \<open>ClientDisconnected\<close>, other exceptions), results as
  sums, bytes and searching; \<open>Cpp_String\<close> the operations of \<open>std::string\<close> and the number readers; \<open>Ordered_Map\<close>
  \<open>std::map\<close> with the locale \<open>string_map\<close> of its laws.  \<open>Machine\<close> is the interface of a state that mutex-protected steps
  change under an invariant: a run is any list of steps, so what holds of all runs holds of every interleaving.
  \<open>Exception_State\<close> is code that changes a state and may throw, with triples that have one postcondition for each
  exit.  \<open>Os_Calls\<close> judges a trace of system calls: descriptors counted with multiplicity, one child.

  \<^bold>\<open>Values and files.\<close>  \<open>Config\<close> models the hand-written JSON scan and \<open>load_config\<close>: what is accepted is in its
  ranges, and text written as an installer writes it is read back.  \<open>Query\<close> and \<open>Stream_Request\<close> model the URL of a video:
  an accepted request is well formed, every such request is read back from its URL.  \<open>Channel_Topology\<close> resolves a camera
  to a channel that exists and is enabled.  \<open>Codec_Cache\<close> keeps codecs per device and channel with an expiry; its file
  is read back after a restart.  \<open>Daily_Log\<close> models \<open>DailyLogWriter\<close>: names compare as their dates do, so a daily log is
  deleted exactly when its date is too old.

  \<^bold>\<open>Sessions.\<close>  \<open>Byte_Queue\<close> is the queue as a monitor whose operations are split at their waits: first in, first out,
  within its limit, across all interleavings; it refines the locale \<open>byte_fifo\<close>.  \<open>Session_Registry\<close> admits no more than
  the configured sessions and rejects pages of an older generation.  \<open>Session_Status\<close> keeps the statuses of the last ten
  minutes.  \<open>Hc_Session\<close> is the protocol with the SDK: every login is logged out, every stream stopped, once, in order.

  \<^bold>\<open>Processes.\<close>  \<open>Ffmpeg_Plan\<close> chooses encoder and arguments.  \<open>Ffmpeg_Process\<close> is the child on Linux with the threads around
  it as step relations: who owns which descriptor, bytes arrive in order, the pump ends once the stop is requested (a
  measure over its phases bounded by the queue's limit), a failed start leaves nothing.  \<open>Ffmpeg_Output\<close> models the
  reading of its output.  \<open>Windows_Process\<close> has the same for Windows, with handles instead of descriptors, and
  \<open>run_windows_process\<close>, which returns the whole output of a run.  \<open>Win_Quote\<close> writes command lines and reads
  them back the way the C runtime does.

  \<^bold>\<open>Connections.\<close>  \<open>Http_Request\<close> and \<open>Http_Response\<close> are the bytes in both directions; \<open>Socket_IO\<close> the socket operations
  with their descriptors.  \<open>Video_Pipeline\<close> is \<open>handle_video\<close> with all its fallbacks over one record of resources;
  \<open>Video_Response\<close> proves that it leaves none of them behind whatever fails, and that the client sees one head, then
  chunks, then one status.  \<open>Http_Server\<close> is \<open>handle_connection\<close>: every route, the registry's invariant, at most one
  answer.  \<open>Connection_Workers\<close> is the accept loop with its threads: sockets closed once, a shutdown that ends.
  \<open>Server_Run\<close> is \<open>run_server\<close>: what is set up is undone, nothing that is in use is taken away.  \<open>Bridge_Main\<close> is the
  command line and the exit code.

  \<^bold>\<open>Windows service and upgrade.\<close>  \<open>Windows_Service\<close> proves that three interleaved threads report to the service
  manager what one sequential history allows, and that a stop ends.  \<open>Upgrade_Checks\<close> covers the comparison of paths, the
  classification of executables and the regular expressions that find the port.  \<open>Windows_Upgrade\<close> is the upgrade
  as computations on a record of services and directory trees; \<open>Upgrade_Safety\<close> and \<open>Upgrade_Transaction\<close> prove that
  a refused, a checked and a rolled back run leave the machine as it was, that the old directory is never
  lost, and that a transaction whose own calls work ends upgraded or rolled back.

  \<^bold>\<open>Conventions.\<close>  What the operating system, the SDK, FFmpeg, the clock and the C library answer is an argument of the
  definitions: a field of an environment record, or one list element for each round of a loop.  A loop that is
  still going when its list ends gives \<open>None\<close>, so \<open>None\<close> means waiting and never failing; the theorems on termination say
  which answers suffice.  The loops of the upgrade tool carry
  the bounds of the code as fuel.  Integers have their width where it matters (\<open>w word\<close> with \<open>unat\<close> and
  \<open>sint\<close>, ranges checked at \<open>std::stoi\<close>), elsewhere they are \<open>int\<close> and \<open>nat\<close> within stated bounds.

  \<^bold>\<open>Not modelled.\<close>  The text of log lines and of the human-readable messages of errors (no control flow reads them), the
  Windows event log, the request for elevation of the upgrade tool, and its HTTP client beyond the reading of the
  answer.  Behaviour of the SDK behind its calls, of FFmpeg, of the browser, and the other programs of the repository
  (scripts, the server and page examples) are outside.  Signals are modelled as the moment \<open>g_running\<close> turns false.
\<close>

end
